(* ===== verification/Go_Base.thy ===== *)
theory Go_Base
  imports Complex_Main "HOL-Library.Word" "HOL-Library.AList" "HOL-Library.Multiset"
    "HOL-Library.List_Lexorder" "HOL-Library.Char_ord"
begin

text \<open>
  Prelude of the development: the Go values every component shares and the generic lemmas
  on them.

  \<^item> A Go string is the list of its bytes (\<open>string\<close>, a list of 8-bit characters), compared
    bytewise as Go compares strings.
  \<^item> An \<open>int64\<close> is a \<open>64 word\<close>: \<open>+\<close> and \<open>-\<close> wrap, \<open>sint\<close> reads the signed value.
  \<^item> A Go map is the list of its entries, keys distinct, in the order in which a \<open>range\<close> loop
    over it happens to visit them. The language leaves that order open, so every list with
    the same entries stands for the same map, and a theorem about a loop over a map either
    holds for every such list or says how the result depends on the order.
  \<^item> A run-time panic of an index expression is the value \<open>None\<close>.
\<close>

section \<open>Basic types\<close>

type_synonym int64 = "64 word"

type_synonym uid = string

text \<open>\<open>time.Duration(n) * time.Second\<close> in nanoseconds, with the wrap-around of the 64-bit product.\<close>

definition Seconds :: "int \<Rightarrow> int" where
  "Seconds n = sint (word_of_int (n * 1000000000) :: int64)"

type_synonym ('k, 'v) gomap = "('k \<times> 'v) list"

section \<open>Go maps\<close>

definition gm_ok :: "('k, 'v) gomap \<Rightarrow> bool" where
  "gm_ok m \<longleftrightarrow> distinct (map fst m)"

text \<open>\<open>m[k]\<close>: the zero value \<open>d\<close> of the element type where the key is missing.\<close>

definition gm_get :: "'v \<Rightarrow> ('k, 'v) gomap \<Rightarrow> 'k \<Rightarrow> 'v" where
  "gm_get d m k = (case map_of m k of None \<Rightarrow> d | Some v \<Rightarrow> v)"

text \<open>\<open>m[k] = v\<close> and \<open>delete(m, k)\<close>.\<close>

abbreviation gm_put :: "'k \<Rightarrow> 'v \<Rightarrow> ('k, 'v) gomap \<Rightarrow> ('k, 'v) gomap" where
  "gm_put \<equiv> AList.update"

abbreviation gm_del :: "'k \<Rightarrow> ('k, 'v) gomap \<Rightarrow> ('k, 'v) gomap" where
  "gm_del \<equiv> AList.delete"

text \<open>Two lists that stand for the same map, iterated in two orders.\<close>

definition gm_same :: "('k, 'v) gomap \<Rightarrow> ('k, 'v) gomap \<Rightarrow> bool" where
  "gm_same m m' \<longleftrightarrow> gm_ok m \<and> gm_ok m' \<and> mset m = mset m'"

lemma gm_ok_Nil [simp]: "gm_ok []"
  by (simp add: gm_ok_def)

lemma gm_ok_Cons [simp]: "gm_ok ((k, v) # m) \<longleftrightarrow> k \<notin> fst ` set m \<and> gm_ok m"
  by (simp add: gm_ok_def)

lemma gm_ok_put [simp, intro]: "gm_ok m \<Longrightarrow> gm_ok (gm_put k v m)"
  by (simp add: gm_ok_def distinct_update)

lemma gm_ok_del [simp, intro]: "gm_ok m \<Longrightarrow> gm_ok (gm_del k m)"
  by (simp add: gm_ok_def distinct_delete)

lemma gm_get_Nil [simp]: "gm_get d [] k = d"
  by (simp add: gm_get_def)

lemma gm_get_Cons [simp]:
  "gm_get d ((k', v) # m) k = (if k' = k then v else gm_get d m k)"
  by (simp add: gm_get_def)

lemma gm_get_put [simp]: "gm_get d (gm_put k v m) k' = (if k' = k then v else gm_get d m k')"
  by (simp add: gm_get_def update_conv')

lemma gm_get_del [simp]: "gm_get d (gm_del k m) k' = (if k' = k then d else gm_get d m k')"
  by (simp add: gm_get_def delete_conv')

lemma map_of_put [simp]: "map_of (gm_put k v m) k' = (if k' = k then Some v else map_of m k')"
  by (simp add: update_conv')

lemma map_of_del [simp]: "map_of (gm_del k m) k' = (if k' = k then None else map_of m k')"
  by (simp add: delete_conv')

lemma keys_put [simp]: "fst ` set (gm_put k v m) = insert k (fst ` set m)"
  by (induction m) auto

lemma gm_put_put [simp]: "gm_put k v (gm_put k v' m) = gm_put k v m"
  by (induction m) auto

lemma gm_del_put [simp]: "gm_del k (gm_put k v m) = gm_del k m"
  by (induction m) auto

lemma gm_get_absent: "map_of m k = None \<Longrightarrow> gm_get d m k = d"
  by (simp add: gm_get_def)

lemma gm_get_present: "map_of m k = Some v \<Longrightarrow> gm_get d m k = v"
  by (simp add: gm_get_def)

lemma gm_same_map_of: "gm_same m m' \<Longrightarrow> map_of m = map_of m'"
  unfolding gm_same_def gm_ok_def
  by (metis map_of_inject_set mset_eq_setD)

lemma gm_same_get: "gm_same m m' \<Longrightarrow> gm_get d m k = gm_get d m' k"
  by (simp add: gm_get_def gm_same_map_of)

lemma gm_same_set: "gm_same m m' \<Longrightarrow> set m = set m'"
  by (auto simp: gm_same_def dest: mset_eq_setD)

lemma map_of_None_keys: "k \<notin> fst ` set m \<Longrightarrow> map_of m k = None"
  by (simp add: map_of_eq_None_iff)

lemma keys_iff: "k \<in> fst ` set m \<longleftrightarrow> map_of m k \<noteq> None"
  by (simp add: map_of_eq_None_iff)

lemma map_of_gm_mem: "gm_ok m \<Longrightarrow> (k, v) \<in> set m \<Longrightarrow> map_of m k = Some v"
  by (simp add: gm_ok_def map_of_is_SomeI)

lemma gm_get_mem: "gm_ok m \<Longrightarrow> (k, v) \<in> set m \<Longrightarrow> gm_get d m k = v"
  by (simp add: gm_get_def map_of_gm_mem)

section \<open>Sums over a map\<close>

text \<open>The sum of a weight over the entries of a map, and how a store or a delete changes it.\<close>

definition gm_sum :: "('v \<Rightarrow> 'w::ab_group_add) \<Rightarrow> ('k, 'v) gomap \<Rightarrow> 'w" where
  "gm_sum w m = sum_list (map (w \<circ> snd) m)"

lemma gm_sum_Nil [simp]: "gm_sum w [] = 0"
  by (simp add: gm_sum_def)

lemma gm_sum_Cons [simp]: "gm_sum w ((k, v) # m) = w v + gm_sum w m"
  by (simp add: gm_sum_def)

lemma gm_del_absent: "k \<notin> fst ` set m \<Longrightarrow> gm_del k m = m"
  by (induction m) auto

lemma gm_sum_put:
  "gm_ok m \<Longrightarrow>
   gm_sum w (gm_put k v m) = gm_sum w m - (case map_of m k of None \<Rightarrow> 0 | Some u \<Rightarrow> w u) + w v"
  by (induction m) (auto simp: map_of_None_keys)

lemma gm_sum_del:
  "gm_ok m \<Longrightarrow>
   gm_sum w (gm_del k m) = gm_sum w m - (case map_of m k of None \<Rightarrow> 0 | Some u \<Rightarrow> w u)"
  by (induction m) (auto simp: gm_del_absent)

lemma gm_sum_mset: "mset m = mset m' \<Longrightarrow> gm_sum w m = gm_sum w m'"
  unfolding gm_sum_def
  by (metis mset_map sum_mset_sum_list)

lemma gm_sum_cong:
  assumes "gm_ok m" and "gm_ok m'" and "\<And>k. map_of m k = map_of m' k"
  shows "gm_sum w m = gm_sum w m'"
proof -
  have "map_of m = map_of m'" by (rule ext) (rule assms(3))
  then have "set m = set m'" using assms(1,2) by (simp add: gm_ok_def map_of_inject_set)
  then have "mset m = mset m'"
    using assms(1,2) by (metis distinct_map gm_ok_def set_eq_iff_mset_eq_distinct)
  then show ?thesis by (rule gm_sum_mset)
qed

lemma gm_sum_keys:
  assumes "gm_ok m" and "\<And>k v. map_of m k = Some v \<Longrightarrow> w v = g k"
  shows "gm_sum w m = (\<Sum>k \<in> fst ` set m. g k)"
  using assms
proof (induction m)
  case (Cons p m)
  obtain k v where p: "p = (k, v)" by fastforce
  have k: "k \<notin> fst ` set m" and ok: "gm_ok m" using Cons.prems(1) by (auto simp: p gm_ok_def)
  have "w v' = g k'" if "map_of m k' = Some v'" for k' v'
    using Cons.prems(2) [of k' v'] that map_of_None_keys [OF k] by (cases "k' = k") (simp_all add: p)
  with Cons.IH [OF ok] have "gm_sum w m = (\<Sum>k \<in> fst ` set m. g k)" by blast
  with k Cons.prems(2) [of k v] show ?case by (simp add: p)
qed simp

section \<open>Signed 64-bit sums\<close>

lemma sint64_bounds: "- (2 ^ 63) \<le> sint (w :: int64)" "sint (w :: int64) < 2 ^ 63"
  using sint_range_size [of w] by (auto simp: word_size)

lemma sint64_of_int: "- (2 ^ 63) \<le> i \<Longrightarrow> i < 2 ^ 63 \<Longrightarrow> sint (word_of_int i :: int64) = i"
  by (simp add: signed_of_int signed_take_bit_int_eq_self)

lemma sint64_add:
  assumes "0 \<le> sint (a :: int64)" and "0 \<le> sint b" and "sint a + sint b < 2 ^ 63"
  shows "sint (a + b) = sint a + sint b"
proof -
  have "a + b = word_of_int (sint a + sint b)" by simp
  moreover have "sint (word_of_int (sint a + sint b) :: int64) = sint a + sint b"
    by (rule sint64_of_int) (use assms in auto)
  ultimately show ?thesis by simp
qed

lemma gm_sum_nonneg: "\<forall>v \<in> snd ` set m. 0 \<le> g v \<Longrightarrow> 0 \<le> (gm_sum g m :: int)"
  by (induction m) auto

text \<open>
  A wrapping sum of non-negative counts is the exact sum as long as that stays below \<open>2 ^ 63\<close>.
\<close>

lemma sint_gm_sum:
  fixes w :: "'v \<Rightarrow> int64"
  assumes "\<forall>v \<in> snd ` set m. 0 \<le> g v \<and> (g v < 2 ^ 63 \<longrightarrow> sint (w v) = g v)"
    and "gm_sum g m < 2 ^ 63"
  shows "sint (gm_sum w m) = gm_sum g m"
  using assms
proof (induction m)
  case (Cons p m)
  obtain k v where p: "p = (k, v)" by fastforce
  have nn: "0 \<le> gm_sum g m" by (rule gm_sum_nonneg) (use Cons.prems in auto)
  have g: "0 \<le> g v" using Cons.prems p by auto
  have s: "g v + gm_sum g m < 2 ^ 63" using Cons.prems(2) by (simp add: p)
  then have "sint (w v) = g v" using Cons.prems p nn by auto
  moreover have "sint (gm_sum w m) = gm_sum g m" using Cons.prems s g by (intro Cons.IH) auto
  ultimately show ?case using nn g s sint64_add [of "w v" "gm_sum w m"] by (simp add: p)
qed simp

end
