(* ===== verification/Go_Text.thy ===== *)
theory Go_Text
  imports Go_Base
begin

text \<open>
  The string functions of the Go standard library that the code calls, on byte strings:
  \<open>strings\<close> (prefixes, suffixes, splitting, searching) and the integer conversions of
  \<open>strconv\<close>, with the lemmas their callers share.
\<close>

section \<open>strings\<close>

definition HasPrefix :: "string \<Rightarrow> string \<Rightarrow> bool" where
  "HasPrefix s p \<longleftrightarrow> take (length p) s = p"

definition HasSuffix :: "string \<Rightarrow> string \<Rightarrow> bool" where
  "HasSuffix s t \<longleftrightarrow> length t \<le> length s \<and> drop (length s - length t) s = t"

definition TrimSuffix :: "string \<Rightarrow> string \<Rightarrow> string" where
  "TrimSuffix s t = (if HasSuffix s t then take (length s - length t) s else s)"

fun Split :: "char \<Rightarrow> string \<Rightarrow> string list" where
  "Split c [] = [[]]"
| "Split c (x # xs) =
     (if x = c then [] # Split c xs
      else (case Split c xs of [] \<Rightarrow> [[x]] | y # ys \<Rightarrow> (x # y) # ys))"

fun Join :: "string list \<Rightarrow> string \<Rightarrow> string" where
  "Join [] sep = []"
| "Join [s] sep = s"
| "Join (s # t # ss) sep = s @ sep @ Join (t # ss) sep"

definition IndexByte :: "string \<Rightarrow> char \<Rightarrow> nat option" where
  "IndexByte s c = (let n = length (takeWhile (\<lambda>x. x \<noteq> c) s)
     in if n < length s then Some n else None)"

text \<open>\<open>LastIndexByte\<close> and what the callers do with it: the part after the last \<open>c\<close>.\<close>

definition LastIndexByte :: "string \<Rightarrow> char \<Rightarrow> nat option" where
  "LastIndexByte s c = (let n = length (takeWhile (\<lambda>x. x \<noteq> c) (rev s))
     in if n < length s then Some (length s - n - 1) else None)"

definition lower :: "char \<Rightarrow> char" where
  "lower c = (let n = of_char c :: nat in if 65 \<le> n \<and> n \<le> 90 then char_of (n + 32) else c)"

definition upper :: "char \<Rightarrow> char" where
  "upper c = (let n = of_char c :: nat in if 97 \<le> n \<and> n \<le> 122 then char_of (n - 32) else c)"

lemma HasSuffix_iff: "HasSuffix s t \<longleftrightarrow> (\<exists>u. s = u @ t)"
proof
  assume "HasSuffix s t"
  then have "s = take (length s - length t) s @ t"
    by (metis HasSuffix_def append_take_drop_id)
  then show "\<exists>u. s = u @ t" ..
qed (auto simp: HasSuffix_def)

lemma HasPrefix_iff: "HasPrefix s p \<longleftrightarrow> (\<exists>u. s = p @ u)"
proof
  assume "HasPrefix s p"
  then have "s = p @ drop (length p) s" by (metis HasPrefix_def append_take_drop_id)
  then show "\<exists>u. s = p @ u" ..
qed (auto simp: HasPrefix_def)

lemma TrimSuffix_append [simp]: "TrimSuffix (u @ t) t = u"
  by (simp add: TrimSuffix_def HasSuffix_def)

lemma LastIndexByte_append:
  assumes "c \<notin> set t"
  shows "LastIndexByte (s @ c # t) c = Some (length s)"
proof -
  have "takeWhile (\<lambda>x. x \<noteq> c) (rev t @ c # rev s) = rev t"
    using assms by (subst takeWhile_append2) auto
  then show ?thesis by (simp add: LastIndexByte_def)
qed

lemma length_takeWhile_less: "length (takeWhile P xs) < length xs \<longleftrightarrow> (\<exists>x \<in> set xs. \<not> P x)"
  by (induction xs) auto

lemma LastIndexByte_None: "LastIndexByte s c = None \<longleftrightarrow> c \<notin> set s"
  using length_takeWhile_less [of "\<lambda>x. x \<noteq> c" "rev s"] by (auto simp: LastIndexByte_def Let_def)

lemma Split_not_Nil [simp]: "Split c s \<noteq> []"
  by (induction s) (auto split: list.splits)

lemma Join_Split: "Join (Split c s) [c] = s"
proof (induction s)
  case (Cons x xs)
  obtain y ys where "Split c xs = y # ys" by (meson Split_not_Nil list.exhaust)
  with Cons show ?case by (cases ys) auto
qed simp

section \<open>Decimal integers\<close>

definition is_digit :: "char \<Rightarrow> bool" where
  "is_digit c \<longleftrightarrow> (let n = of_char c :: nat in 48 \<le> n \<and> n \<le> 57)"

definition digit_val :: "char \<Rightarrow> nat" where
  "digit_val c = of_char c - 48"

definition dec_digit :: "nat \<Rightarrow> char" where
  "dec_digit n = char_of (48 + n)"

fun dec_nat :: "nat \<Rightarrow> string" where
  "dec_nat n = (if n < 10 then [dec_digit n] else dec_nat (n div 10) @ [dec_digit (n mod 10)])"

declare dec_nat.simps [simp del]

definition Itoa :: "int \<Rightarrow> string" where
  "Itoa i = (if i < 0 then CHR ''-'' # dec_nat (nat (- i)) else dec_nat (nat i))"

definition digits_val :: "string \<Rightarrow> nat" where
  "digits_val s = fold (\<lambda>c a. a * 10 + digit_val c) s 0"

text \<open>\<open>strconv.Atoi\<close>: an optional sign and at least one digit, in the range of \<open>int\<close>.\<close>

definition Atoi :: "string \<Rightarrow> int option" where
  "Atoi s =
     (let (neg, t) = (case s of [] \<Rightarrow> (False, [])
            | c # cs \<Rightarrow> if c = CHR ''-'' then (True, cs) else if c = CHR ''+'' then (False, cs) else (False, s));
          v = int (digits_val t)
      in if t = [] \<or> \<not> list_all is_digit t then None
         else if neg then (if v \<le> 2 ^ 63 then Some (- v) else None)
         else (if v < 2 ^ 63 then Some v else None))"

lemma dec_digit_is_digit [simp]: "n < 10 \<Longrightarrow> is_digit (dec_digit n)"
  by (simp add: is_digit_def dec_digit_def Let_def)

lemma digit_val_dec_digit [simp]: "n < 10 \<Longrightarrow> digit_val (dec_digit n) = n"
  by (simp add: digit_val_def dec_digit_def)

lemma dec_digit_digit_val [simp]: "is_digit c \<Longrightarrow> dec_digit (digit_val c) = c"
  by (simp add: is_digit_def dec_digit_def digit_val_def Let_def)

lemma digit_val_less [simp]: "is_digit c \<Longrightarrow> digit_val c < 10"
  by (auto simp: is_digit_def digit_val_def Let_def)

lemma dec_digit_eval [simp]:
    "dec_digit 0 = CHR ''0''"
    "dec_digit (Suc 0) = CHR ''1''"
    "dec_digit 1 = CHR ''1''"
    "dec_digit 2 = CHR ''2''"
    "dec_digit 3 = CHR ''3''"
    "dec_digit 4 = CHR ''4''"
    "dec_digit 5 = CHR ''5''"
    "dec_digit 6 = CHR ''6''"
    "dec_digit 7 = CHR ''7''"
    "dec_digit 8 = CHR ''8''"
    "dec_digit 9 = CHR ''9''"
  by code_simp+

lemma dec_nat_digits [simp]: "list_all is_digit (dec_nat n)"
  by (induction n rule: dec_nat.induct) (subst dec_nat.simps, auto)

lemma dec_nat_not_Nil [simp]: "dec_nat n \<noteq> []"
  by (subst dec_nat.simps) auto

lemma digits_val_snoc [simp]: "digits_val (s @ [c]) = digits_val s * 10 + digit_val c"
  by (simp add: digits_val_def)

lemma digits_val_Nil [simp]: "digits_val [] = 0"
  by (simp add: digits_val_def)

lemma digits_val_dec_nat [simp]: "digits_val (dec_nat n) = n"
proof (induction n rule: dec_nat.induct)
  case (1 n)
  show ?case
  proof (cases "n < 10")
    case True
    then show ?thesis
      using digits_val_snoc [of "[]" "dec_digit n"] by (subst dec_nat.simps) simp
  next
    case False
    with 1 show ?thesis by (subst dec_nat.simps) simp
  qed
qed

lemma digit_in_dec_nat: "c \<in> set (dec_nat n) \<Longrightarrow> is_digit c"
  using dec_nat_digits [of n] by (simp add: list_all_iff)

lemma dec_nat_inj: "dec_nat m = dec_nat n \<longleftrightarrow> m = n"
  by (metis digits_val_dec_nat)

lemma not_digit_sign [simp]: "\<not> is_digit (CHR ''-'')" "\<not> is_digit (CHR ''+'')" "\<not> is_digit (CHR ''#'')"
    "\<not> is_digit (CHR ''.'')" "\<not> is_digit (CHR 0x0A)" "\<not> is_digit (CHR '' '')" "\<not> is_digit (CHR ''_'')"
  by (simp_all add: is_digit_def)

lemma Atoi_dec_nat: "n < 2 ^ 63 \<Longrightarrow> Atoi (dec_nat n) = Some (int n)"
proof -
  assume n: "n < 2 ^ 63"
  obtain c cs where s: "dec_nat n = c # cs" by (meson dec_nat_not_Nil list.exhaust)
  then have "is_digit c" using dec_nat_digits [of n] by simp
  then have "c \<noteq> CHR ''-''" "c \<noteq> CHR ''+''" by auto
  moreover have "digits_val (c # cs) = n" "list_all is_digit (c # cs)"
    using digits_val_dec_nat [of n] dec_nat_digits [of n] by (simp_all only: s)
  ultimately show ?thesis using n by (simp add: Atoi_def s)
qed

theorem Atoi_Itoa:
  assumes "- (2 ^ 63) \<le> i" and "i < 2 ^ 63"
  shows "Atoi (Itoa i) = Some i"
proof (cases "i < 0")
  case True
  then show ?thesis using assms by (simp add: Itoa_def Atoi_def)
next
  case False
  then have "nat i < 2 ^ 63" using assms by simp
  with False show ?thesis by (simp add: Itoa_def Atoi_dec_nat)
qed

text \<open>Digit strings without a redundant leading zero are the canonical ones.\<close>

lemma digits_canonical:
  assumes "list_all is_digit s" and "s \<noteq> []" and "length s = 1 \<or> hd s \<noteq> CHR ''0''"
  shows "dec_nat (digits_val s) = s"
  using assms
proof (induction s rule: rev_induct)
  case (snoc c s)
  show ?case
  proof (cases "s = []")
    case True
    with snoc.prems show ?thesis
      using digits_val_snoc [of "[]" c] by (subst dec_nat.simps) simp
  next
    case False
    then have hd: "hd s \<noteq> CHR ''0''" using snoc.prems by (cases s) auto
    then have IH: "dec_nat (digits_val s) = s" using snoc False by auto
    have "digits_val s \<noteq> 0"
    proof
      assume "digits_val s = 0"
      then have "s = dec_nat 0" using IH by simp
      also have "\<dots> = ''0''" 
        using dec_digit_digit_val [of "CHR ''0''"]
        by (subst dec_nat.simps) (simp add: digit_val_def is_digit_def)
      finally show False using hd by simp
    qed
    then show ?thesis
      using snoc.prems IH by (subst dec_nat.simps) simp
  qed
qed simp

end
