(* ===== verification/Go_Float.thy ===== *)
theory Go_Float
  imports Go_Base
begin

text \<open>
  Go's \<open>float64\<close>, IEEE 754 binary64 with round-to-nearest-even, as the code uses it: the
  conversion from integers, division, the comparisons, and the classification of special
  values. Everything is integer arithmetic on the significand and the exponent, so the model
  evaluates. The lemmas show that the rounding of a fraction depends on its value only, is
  monotone, and is exact on integers up to \<open>2 ^ 53\<close>.
\<close>

section \<open>Values\<close>

text \<open>
  \<open>Fin s m e\<close> is \<open>m * 2 ^ e\<close>, negative when \<open>s\<close>; the canonical pairs have \<open>2 ^ 52 \<le> m < 2 ^ 53\<close>,
  or \<open>e = -1074\<close> for the subnormal numbers and the zeros.
\<close>

datatype float64 = NaN | Inf bool | Fin bool nat int

definition f64_ok :: "float64 \<Rightarrow> bool" where
  "f64_ok x \<longleftrightarrow> (case x of NaN \<Rightarrow> True | Inf _ \<Rightarrow> True
     | Fin _ m e \<Rightarrow> m < 2 ^ 53 \<and> -1074 \<le> e \<and> e \<le> 971 \<and> (2 ^ 52 \<le> m \<or> e = -1074))"

section \<open>Rounding a fraction\<close>

fun nbits :: "nat \<Rightarrow> nat" where
  "nbits n = (if n = 0 then 0 else Suc (nbits (n div 2)))"

declare nbits.simps [simp del]

text \<open>The integer nearest to \<open>n / d\<close>, ties to even.\<close>

definition half_even :: "nat \<Rightarrow> nat \<Rightarrow> nat" where
  "half_even n d =
     (let q = n div d; r = n mod d
      in if d < 2 * r \<or> (2 * r = d \<and> odd q) then Suc q else q)"

text \<open>The greatest \<open>k\<close> with \<open>2 ^ k \<le> n / d\<close>.\<close>

definition frac_log :: "nat \<Rightarrow> nat \<Rightarrow> int" where
  "frac_log n d =
     (let k = int (nbits n) - int (nbits d)
      in if d * 2 ^ nat k \<le> n * 2 ^ nat (- k) then k else k - 1)"

definition f64_exp :: "nat \<Rightarrow> nat \<Rightarrow> int" where
  "f64_exp n d = max (frac_log n d - 52) (- 1074)"

definition f64_sig :: "nat \<Rightarrow> nat \<Rightarrow> nat" where
  "f64_sig n d = half_even (n * 2 ^ nat (- f64_exp n d)) (d * 2 ^ nat (f64_exp n d))"

definition f64_pack :: "bool \<Rightarrow> nat \<Rightarrow> int \<Rightarrow> float64" where
  "f64_pack s m e =
     (let (m', e') = (if m = 2 ^ 53 then (2 ^ 52, e + 1) else (m, e))
      in if 971 < e' then Inf s else Fin s m' e')"

definition f64_frac :: "bool \<Rightarrow> nat \<Rightarrow> nat \<Rightarrow> float64" where
  "f64_frac s n d =
     (if n = 0 then Fin s 0 (- 1074) else f64_pack s (f64_sig n d) (f64_exp n d))"

section \<open>The operations of the code\<close>

text \<open>\<open>float64(i)\<close> of an integer, and of an \<open>int64\<close>.\<close>

definition f64_of_int :: "int \<Rightarrow> float64" where
  "f64_of_int i = f64_frac (i < 0) (nat \<bar>i\<bar>) 1"

definition f64_of_int64 :: "int64 \<Rightarrow> float64" where
  "f64_of_int64 w = f64_of_int (sint w)"

fun f64_div :: "float64 \<Rightarrow> float64 \<Rightarrow> float64" where
  "f64_div NaN _ = NaN"
| "f64_div _ NaN = NaN"
| "f64_div (Inf _) (Inf _) = NaN"
| "f64_div (Inf s) (Fin t _ _) = Inf (s \<noteq> t)"
| "f64_div (Fin s _ _) (Inf t) = Fin (s \<noteq> t) 0 (- 1074)"
| "f64_div (Fin s m e) (Fin t n f) =
     (if n = 0 then (if m = 0 then NaN else Inf (s \<noteq> t))
      else f64_frac (s \<noteq> t) (m * 2 ^ nat (e - f)) (n * 2 ^ nat (f - e)))"

text \<open>The signed integer \<open>m * 2 ^ (e - b)\<close>, for a common exponent \<open>b \<le> e\<close>.\<close>

definition f64_scaled :: "bool \<Rightarrow> nat \<Rightarrow> int \<Rightarrow> int \<Rightarrow> int" where
  "f64_scaled s m e b = (if s then - 1 else 1) * (int m * 2 ^ nat (e - b))"

text \<open>\<open>x < y\<close> and \<open>x <= y\<close>: false when either is NaN; the two zeros are equal.\<close>

fun f64_less :: "float64 \<Rightarrow> float64 \<Rightarrow> bool" where
  "f64_less NaN _ = False"
| "f64_less _ NaN = False"
| "f64_less (Inf s) (Inf t) = (s \<and> \<not> t)"
| "f64_less (Inf s) (Fin _ _ _) = s"
| "f64_less (Fin _ _ _) (Inf t) = (\<not> t)"
| "f64_less (Fin s m e) (Fin t n f) = (f64_scaled s m e (min e f) < f64_scaled t n f (min e f))"

fun f64_leq :: "float64 \<Rightarrow> float64 \<Rightarrow> bool" where
  "f64_leq NaN _ = False"
| "f64_leq _ NaN = False"
| "f64_leq (Inf s) (Inf t) = (s \<or> \<not> t)"
| "f64_leq (Inf s) (Fin _ _ _) = s"
| "f64_leq (Fin _ _ _) (Inf t) = (\<not> t)"
| "f64_leq (Fin s m e) (Fin t n f) = (f64_scaled s m e (min e f) \<le> f64_scaled t n f (min e f))"

definition f64_zero :: float64 where "f64_zero = Fin False 0 (- 1074)"
definition f64_one :: float64 where "f64_one = Fin False (2 ^ 52) (- 52)"

text \<open>The default warning ratio, the literal \<open>0.8\<close>.\<close>

definition f64_0_8 :: float64 where "f64_0_8 = f64_frac False 8 10"

section \<open>Lemmas on the rounding\<close>

lemma nbits_bounds:
  assumes "0 < n"
  shows "2 ^ nbits n \<le> 2 * n" and "n < 2 ^ nbits n"
proof -
  have "2 ^ nbits n \<le> 2 * n \<and> n < 2 ^ nbits n"
    using assms
  proof (induction n rule: nbits.induct)
    case (1 n)
    show ?case
    proof (cases "n div 2 = 0")
      case True
      with "1.prems" have "n = 1" by simp
      then show ?thesis by (simp add: nbits.simps [of "Suc 0"] nbits.simps [of 0])
    next
      case False
      with 1 have "2 ^ nbits (n div 2) \<le> 2 * (n div 2)" "n div 2 < 2 ^ nbits (n div 2)"
        by auto
      moreover from this(2) have "Suc (n div 2) \<le> 2 ^ nbits (n div 2)" by simp
      then have "n < 2 * 2 ^ nbits (n div 2)" by linarith
      ultimately show ?thesis
        using "1.prems" by (simp add: nbits.simps [of n])
    qed
  qed
  then show "2 ^ nbits n \<le> 2 * n" and "n < 2 ^ nbits n" by auto
qed

lemma pow_nat_cases:
  "(2::real) powi k = 2 ^ nat k / 2 ^ nat (- k)"
  by (cases "0 \<le> k") (simp_all add: power_int_def field_simps)

lemma scaled_fraction:
  "(of_nat (n * 2 ^ nat (- k)) :: real) / of_nat (d * 2 ^ nat k) = (of_nat n / of_nat d) / 2 powi k"
  by (simp add: pow_nat_cases)

lemma cross_le:
  assumes "0 < d" and "0 < (d'::nat)"
  shows "n * d' \<le> n' * d \<longleftrightarrow> (of_nat n :: real) / of_nat d \<le> of_nat n' / of_nat d'"
proof -
  have "n * d' \<le> n' * d \<longleftrightarrow> (of_nat (n * d') :: real) \<le> of_nat (n' * d)"
    by (simp only: of_nat_le_iff)
  with assms show ?thesis by (simp add: field_simps)
qed

lemma frac_log_bounds:
  assumes "0 < n" and "0 < d"
  shows "2 powi frac_log n d \<le> (of_nat n :: real) / of_nat d"
    and "(of_nat n :: real) / of_nat d < 2 powi (frac_log n d + 1)"
proof -
  define k where "k = int (nbits n) - int (nbits d)"
  define x where "x = (of_nat n :: real) / of_nat d"
  note bn = nbits_bounds [OF assms(1)] and bd = nbits_bounds [OF assms(2)]
  have rn: "2 ^ nbits n \<le> 2 * real n" "real n < 2 ^ nbits n"
    using bn(1) [THEN of_nat_mono [where 'a = real]] bn(2) [THEN of_nat_less_iff [where 'a = real, THEN iffD2]]
    by simp_all
  have rd: "2 ^ nbits d \<le> 2 * real d" "real d < 2 ^ nbits d"
    using bd(1) [THEN of_nat_mono [where 'a = real]] bd(2) [THEN of_nat_less_iff [where 'a = real, THEN iffD2]]
    by simp_all
  have pk: "(2::real) powi k = 2 ^ nbits n / 2 ^ nbits d"
    by (simp add: k_def power_int_diff)
  have "2 ^ nbits n * real d < (2 * real n) * 2 ^ nbits d"
    by (rule mult_le_less_imp_less [OF rn(1) rd(2)]) auto
  then have lo: "2 powi (k - 1) \<le> x"
    using assms by (simp add: x_def pk power_int_diff field_simps)
  have "real n * 2 ^ nbits d < 2 ^ nbits n * (2 * real d)"
    by (rule mult_less_le_imp_less [OF rn(2) rd(1)]) (use assms in auto)
  then have hi: "x < 2 powi (k + 1)"
    using assms by (simp add: x_def pk power_int_add field_simps)
  have cmp: "d * 2 ^ nat k \<le> n * 2 ^ nat (- k) \<longleftrightarrow> 2 powi k \<le> x"
  proof -
    have "d * 2 ^ nat k \<le> n * 2 ^ nat (- k)
      \<longleftrightarrow> real (d * 2 ^ nat k) \<le> real (n * 2 ^ nat (- k))"
      by (simp only: of_nat_le_iff)
    also have "\<dots> \<longleftrightarrow> 2 ^ nat k / 2 ^ nat (- k) \<le> x"
      using assms by (simp add: x_def field_simps)
    finally show ?thesis by (simp add: pow_nat_cases)
  qed
  show "2 powi frac_log n d \<le> x" and "x < 2 powi (frac_log n d + 1)"
    using lo hi cmp by (auto simp: frac_log_def k_def [symmetric] Let_def)
qed

lemma powi2_strict: "(2::real) powi i < 2 powi j \<longleftrightarrow> i < j"
  by (metis linorder_not_less one_less_numeral_iff power_int_increasing
      power_int_strict_increasing less_imp_le one_le_numeral semiring_norm(76))

lemma frac_log_unique:
  assumes "0 < n" and "0 < d"
    and "2 powi L \<le> (of_nat n :: real) / of_nat d" and "(of_nat n :: real) / of_nat d < 2 powi (L + 1)"
  shows "frac_log n d = L"
proof -
  note b = frac_log_bounds [OF assms(1,2)]
  have "2 powi frac_log n d < (2::real) powi (L + 1)" "2 powi L < (2::real) powi (frac_log n d + 1)"
    using b assms(3,4) by linarith+
  then show ?thesis by (simp add: powi2_strict)
qed

lemma frac_log_mono:
  assumes "0 < n" and "0 < d" and "0 < d'" and "n * d' \<le> n' * d"
  shows "frac_log n d \<le> frac_log n' d'"
proof -
  have "0 < n'" using assms by (cases n') auto
  note b = frac_log_bounds [OF assms(1,2)] and b' = frac_log_bounds [OF this assms(3)]
  have "(of_nat n :: real) / of_nat d \<le> of_nat n' / of_nat d'"
    using assms cross_le by blast
  with b b' have "2 powi frac_log n d < (2::real) powi (frac_log n' d' + 1)" by linarith
  then show ?thesis by (simp add: powi2_strict)
qed

subsection \<open>Rounding to the nearest integer\<close>

lemma half_even_ge_iff:
  assumes "0 < d"
  shows "Suc j \<le> half_even n d \<longleftrightarrow> (2 * j + 1) * d < 2 * n \<or> ((2 * j + 1) * d = 2 * n \<and> odd j)"
proof -
  define q r where "q = n div d" and "r = n mod d"
  have n: "n = q * d + r" and r: "r < d" using assms by (simp_all add: q_def r_def)
  have he: "half_even n d = (if d < 2 * r \<or> (2 * r = d \<and> odd q) then Suc q else q)"
    by (simp add: half_even_def q_def r_def Let_def)
  consider "j < q" | "j = q" | "q < j" by linarith
  then show ?thesis
  proof cases
    case 1
    then have "(2 * j + 1) * d < (2 * q) * d" using assms by (intro mult_strict_right_mono) auto
    then have "(2 * j + 1) * d < 2 * n" by (simp add: n)
    with 1 show ?thesis by (simp only: he) simp
  next
    case 2
    then show ?thesis unfolding he by (auto simp: n algebra_simps)
  next
    case 3
    then have "(2 * q + 3) * d \<le> (2 * j + 1) * d" by (intro mult_right_mono) auto
    then have "2 * n < (2 * j + 1) * d" using r assms by (simp add: n algebra_simps)
    with 3 show ?thesis by (simp only: he) simp
  qed
qed

lemma half_even_mono:
  assumes "0 < d" and "0 < d'" and "n * d' \<le> n' * d"
  shows "half_even n d \<le> half_even n' d'"
proof (cases "half_even n d")
  case (Suc j)
  then have j: "(2 * j + 1) * d < 2 * n \<or> ((2 * j + 1) * d = 2 * n \<and> odd j)"
    using half_even_ge_iff [OF assms(1), of j n] by simp
  have le: "(2 * n) * d' \<le> (2 * n') * d" using assms(3) by simp
  from j have "(2 * j + 1) * d' < 2 * n' \<or> ((2 * j + 1) * d' = 2 * n' \<and> odd j)"
  proof
    assume "(2 * j + 1) * d < 2 * n"
    then have "((2 * j + 1) * d) * d' < (2 * n) * d'"
      using assms(2) by (rule mult_strict_right_mono)
    also note le
    finally have "((2 * j + 1) * d') * d < (2 * n') * d" by (simp only: ac_simps)
    then have "(2 * j + 1) * d' < 2 * n'" by (simp only: mult_less_cancel2)
    then show ?thesis ..
  next
    assume h: "(2 * j + 1) * d = 2 * n \<and> odd j"
    then have "((2 * j + 1) * d) * d' \<le> (2 * n') * d" using le by simp
    then have "((2 * j + 1) * d') * d \<le> (2 * n') * d" by (simp only: ac_simps)
    then have "(2 * j + 1) * d' \<le> 2 * n'" using assms(1) by (simp only: mult_le_cancel2)
    with h show ?thesis by linarith
  qed
  then show ?thesis using half_even_ge_iff [OF assms(2), of j n'] Suc by simp
qed simp

lemma half_even_cong:
  assumes "0 < d" and "0 < d'" and "n * d' = n' * d"
  shows "half_even n d = half_even n' d'"
  using half_even_mono [of d d' n n'] half_even_mono [of d' d n' n] assms by simp

lemma half_even_exact [simp]: "0 < d \<Longrightarrow> half_even (k * d) d = k"
  by (simp add: half_even_def)

lemma half_even_one [simp]: "half_even k 1 = k"
  by (simp add: half_even_def)

lemma half_even_ge: "0 < d \<Longrightarrow> k * d \<le> n \<Longrightarrow> k \<le> half_even n d"
  using half_even_mono [of d d "k * d" n] by simp

lemma half_even_le: "0 < d \<Longrightarrow> n \<le> k * d \<Longrightarrow> half_even n d \<le> k"
  using half_even_mono [of d d n "k * d"] by simp

subsection \<open>The significand and exponent of a rounded fraction\<close>

lemma f64_exp_cong:
  assumes "0 < n" and "0 < d" and "0 < d'" and "n * d' = n' * d"
  shows "f64_exp n d = f64_exp n' d'"
proof -
  have "0 < n'" using assms by (cases n') auto
  with assms have "frac_log n d \<le> frac_log n' d'" "frac_log n' d' \<le> frac_log n d"
    by (auto intro!: frac_log_mono)
  then show ?thesis by (simp add: f64_exp_def)
qed

lemma scaled_cross:
  fixes n :: nat
  assumes "n * d' \<le> n' * d"
  shows "(n * a) * (d' * b) \<le> (n' * a) * (d * b)"
  using mult_right_mono [OF assms, of "a * b"] by (simp add: ac_simps)

lemma f64_sig_cong:
  assumes "0 < n" and "0 < d" and "0 < d'" and "n * d' = n' * d"
  shows "f64_sig n d = f64_sig n' d'"
proof -
  note e = f64_exp_cong [OF assms]
  show ?thesis
    unfolding f64_sig_def e
    by (rule half_even_cong) (use assms in \<open>auto simp: ac_simps\<close>)
qed

theorem f64_frac_cong:
  assumes "0 < d" and "0 < d'" and "n * d' = n' * d"
  shows "f64_frac s n d = f64_frac s n' d'"
proof (cases "n = 0")
  case True
  with assms have "n' = 0" by simp
  with True show ?thesis by (simp add: f64_frac_def)
next
  case False
  with assms have "n' \<noteq> 0" by (cases n') auto
  with False show ?thesis
    using f64_sig_cong [of n d d' n'] f64_exp_cong [of n d d' n'] assms
    by (simp add: f64_frac_def)
qed

lemma f64_sig_upper:
  assumes "0 < n" and "0 < d"
  shows "f64_sig n d \<le> 2 ^ 53"
proof -
  let ?e = "f64_exp n d"
  have "(of_nat n :: real) / of_nat d < 2 powi (frac_log n d + 1)"
    by (rule frac_log_bounds [OF assms])
  also have "\<dots> \<le> 2 powi (?e + 53)"
    by (rule power_int_increasing) (auto simp: f64_exp_def)
  finally have "real n / real d / 2 powi ?e \<le> 2 ^ 53"
    by (subst pos_divide_le_eq) (auto simp: power_int_add mult.commute)
  then have "real (n * 2 ^ nat (- ?e)) / real (d * 2 ^ nat ?e) \<le> 2 ^ 53"
    by (simp only: scaled_fraction)
  then have "n * 2 ^ nat (- ?e) \<le> 2 ^ 53 * (d * 2 ^ nat ?e)"
    using cross_le [of "d * 2 ^ nat ?e" 1 "n * 2 ^ nat (- ?e)" "2 ^ 53"] assms by simp
  then show ?thesis
    unfolding f64_sig_def by (intro half_even_le) (use assms in auto)
qed

lemma f64_sig_lower:
  assumes "0 < n" and "0 < d" and "- 1074 < f64_exp n d \<or> - 1022 \<le> frac_log n d"
  shows "2 ^ 52 \<le> f64_sig n d"
proof -
  let ?e = "f64_exp n d"
  have e: "frac_log n d = ?e + 52" using assms(3) by (auto simp: f64_exp_def)
  have "2 powi (?e + 52) \<le> (of_nat n :: real) / of_nat d"
    using frac_log_bounds(1) [OF assms(1,2)] by (simp only: e)
  then have "2 ^ 52 \<le> real n / real d / 2 powi ?e"
    by (subst pos_le_divide_eq) (auto simp: power_int_add mult.commute)
  then have "2 ^ 52 \<le> real (n * 2 ^ nat (- ?e)) / real (d * 2 ^ nat ?e)"
    by (simp only: scaled_fraction)
  then have "2 ^ 52 * (d * 2 ^ nat ?e) \<le> n * 2 ^ nat (- ?e)"
    using cross_le [of 1 "d * 2 ^ nat ?e" "2 ^ 52" "n * 2 ^ nat (- ?e)"] assms by simp
  then show ?thesis
    unfolding f64_sig_def by (intro half_even_ge) (use assms in auto)
qed

subsection \<open>Monotonicity\<close>

definition frac_val :: "nat \<Rightarrow> nat \<Rightarrow> real" where
  "frac_val n d = real (f64_sig n d) * 2 powi f64_exp n d"

lemma frac_val_mono:
  assumes "0 < n" and "0 < d" and "0 < d'" and "n * d' \<le> n' * d"
  shows "frac_val n d \<le> frac_val n' d'"
proof -
  have n': "0 < n'" using assms by (cases n') auto
  let ?e = "f64_exp n d" and ?e' = "f64_exp n' d'"
  have le: "?e \<le> ?e'" using frac_log_mono [OF assms] by (auto simp: f64_exp_def)
  show ?thesis
  proof (cases "?e = ?e'")
    case True
    have "f64_sig n d \<le> f64_sig n' d'"
      unfolding f64_sig_def True
      by (rule half_even_mono) (use assms scaled_cross in auto)
    then show ?thesis by (simp add: frac_val_def True mult_right_mono)
  next
    case False
    with le have lt: "?e + 1 \<le> ?e'" by simp
    then have "- 1074 < ?e'" by (auto simp: f64_exp_def)
    then have m': "2 ^ 52 \<le> f64_sig n' d'" by (intro f64_sig_lower n' assms) simp
    have "frac_val n d \<le> 2 ^ 53 * 2 powi ?e"
      unfolding frac_val_def using f64_sig_upper [OF assms(1,2)]
      by (intro mult_right_mono) (auto dest: of_nat_mono [where 'a = real])
    also have "\<dots> = 2 ^ 52 * 2 powi (?e + 1)" by (simp add: power_int_add)
    also have "\<dots> \<le> 2 ^ 52 * 2 powi ?e'"
      using lt by (intro mult_left_mono power_int_increasing) auto
    also have "\<dots> \<le> frac_val n' d'"
      unfolding frac_val_def using m'
      by (intro mult_right_mono) (auto dest: of_nat_mono [where 'a = real])
    finally show ?thesis .
  qed
qed

lemma frac_log_nat:
  assumes "0 < n" and "n \<le> 2 ^ 53"
  shows "0 \<le> frac_log n (Suc 0)" and "frac_log n (Suc 0) < 53 \<or> (n = 2 ^ 53 \<and> frac_log n (Suc 0) = 53)"
proof -
  note b = frac_log_bounds [OF assms(1), of "Suc 0", simplified]
  have "2 powi 0 < (2::real) powi (frac_log n (Suc 0) + 1)" using b(2) assms(1) by simp
  then show "0 \<le> frac_log n (Suc 0)" unfolding powi2_strict by simp
  have n: "real n \<le> 2 ^ 53" using assms(2) of_nat_mono [where 'a = real] by fastforce
  show "frac_log n (Suc 0) < 53 \<or> (n = 2 ^ 53 \<and> frac_log n (Suc 0) = 53)"
  proof (cases "frac_log n (Suc 0) < 53")
    case False
    have "2 powi frac_log n (Suc 0) < (2::real) powi 54" using b(1) n by simp
    with False have f: "frac_log n (Suc 0) = 53" by (simp only: powi2_strict)
    with b(1) n have "real n = real (2 ^ 53)" by simp
    with f show ?thesis by (simp only: of_nat_eq_iff) simp
  qed simp
qed

lemma frac_val_nat:
  assumes "0 < n" and "n \<le> 2 ^ 53"
  shows "frac_val n (Suc 0) = real n"
proof (cases "frac_log n (Suc 0) < 53")
  case True
  define k where "k = nat (- f64_exp n (Suc 0))"
  have e: "f64_exp n (Suc 0) = - int k"
    using True frac_log_nat(1) [OF assms] by (simp add: f64_exp_def k_def)
  then show ?thesis
    by (simp add: frac_val_def f64_sig_def half_even_one [unfolded One_nat_def]
        power_int_minus)
next
  case False
  with frac_log_nat(2) [OF assms] have "n = 2 ^ 53" "f64_exp n (Suc 0) = 1"
    by (auto simp: f64_exp_def)
  then show ?thesis
    using half_even_exact [of 2 "2 ^ 52"] by (simp add: frac_val_def f64_sig_def)
qed

lemmas frac_val_one = frac_val_nat [of "Suc 0", simplified]
  and frac_val_two = frac_val_nat [of 2, simplified]

lemma frac_val_gt_one_iff:
  assumes "0 < n" and "0 < d"
  shows "1 < frac_val n d \<longleftrightarrow> (2 ^ 53 + 1) * d < 2 ^ 53 * n"
proof -
  consider "n < d" | "d \<le> n" "n < 2 * d" | "2 * d \<le> n" by linarith
  then show ?thesis
  proof cases
    case 1
    have "frac_val n d \<le> frac_val (Suc 0) (Suc 0)"
      by (rule frac_val_mono) (use 1 assms in auto)
    with 1 show ?thesis by (simp add: frac_val_one)
  next
    case 2
    have fl: "frac_log n d = 0"
      by (rule frac_log_unique) (use 2 assms in \<open>auto simp: field_simps\<close>)
    then have e: "f64_exp n d = - 52" by (simp add: f64_exp_def)
    have "1 < frac_val n d \<longleftrightarrow> Suc (2 ^ 52) \<le> half_even (n * 2 ^ 52) d"
      by (auto simp: frac_val_def e f64_sig_def power_int_minus field_simps)
    also have "\<dots> \<longleftrightarrow> (2 ^ 53 + 1) * d < 2 ^ 53 * n"
      by (subst half_even_ge_iff) (use assms in auto)
    finally show ?thesis .
  next
    case 3
    have "frac_val 2 (Suc 0) \<le> frac_val n d"
      by (rule frac_val_mono) (use 3 assms in auto)
    with 3 assms show ?thesis by (simp add: frac_val_two)
  qed
qed

subsection \<open>The comparisons are those of the values\<close>

definition f64_val :: "bool \<Rightarrow> nat \<Rightarrow> int \<Rightarrow> real" where
  "f64_val s m e = (if s then - 1 else 1) * (real m * 2 powi e)"

lemma f64_scaled_val:
  assumes "b \<le> e"
  shows "real_of_int (f64_scaled s m e b) * 2 powi b = f64_val s m e"
proof -
  have "(2::real) powi e = 2 powi (e - b) * 2 powi b" by (simp add: power_int_diff)
  also have "2 powi (e - b) = (2::real) ^ nat (e - b)" using assms by (simp add: power_int_def)
  finally show ?thesis by (simp add: f64_scaled_def f64_val_def)
qed

lemma f64_less_Fin [simp]:
  "f64_less (Fin s m e) (Fin t n f) \<longleftrightarrow> f64_val s m e < f64_val t n f"
  using f64_scaled_val [of "min e f" e s m] f64_scaled_val [of "min e f" f t n]
  by (simp flip: f64_scaled_val [of "min e f" e s m] f64_scaled_val [of "min e f" f t n]
      add: mult_less_cancel_right_pos)

lemma f64_leq_Fin [simp]:
  "f64_leq (Fin s m e) (Fin t n f) \<longleftrightarrow> f64_val s m e \<le> f64_val t n f"
  by (simp flip: f64_scaled_val [of "min e f" e s m] f64_scaled_val [of "min e f" f t n])

subsection \<open>The ratio of two counts\<close>

text \<open>The value of a rounded fraction that is not too large for \<open>float64\<close>.\<close>

lemma f64_frac_Fin:
  assumes "0 < n" and "0 < d" and "f64_exp n d < 971"
  obtains m e where "f64_frac s n d = Fin s m e"
    and "real m * 2 powi e = frac_val n d"
proof (cases "f64_sig n d = 2 ^ 53")
  case True
  have "(2::real) powi (f64_exp n d + 1) = 2 powi f64_exp n d * 2"
    by (simp add: power_int_add)
  with True assms show ?thesis
    by (intro that [of "2 ^ 52" "f64_exp n d + 1"])
      (simp_all add: f64_frac_def f64_pack_def frac_val_def)
next
  case False
  with assms show ?thesis
    by (intro that [of "f64_sig n d" "f64_exp n d"])
      (simp_all add: f64_frac_def f64_pack_def frac_val_def)
qed

lemma f64_of_nat_exact:
  assumes "0 < n" and "n \<le> 2 ^ 53"
  obtains m e where "f64_of_int (int n) = Fin False m e" and "0 < m"
    and "real m * 2 powi e = real n"
proof -
  have "f64_exp n (Suc 0) < 971" using frac_log_nat [OF assms] by (auto simp: f64_exp_def)
  then obtain m e where f: "f64_frac False n (Suc 0) = Fin False m e"
    and v: "real m * 2 powi e = frac_val n (Suc 0)"
    using f64_frac_Fin [of n "Suc 0" False] assms(1) by blast
  have "real m * 2 powi e = real n" using v frac_val_nat [OF assms] by simp
  moreover from this assms(1) have "0 < m" by (cases m) auto
  ultimately show ?thesis using f by (intro that) (simp_all add: f64_of_int_def)
qed

lemma f64_div_of_nat:
  assumes "0 < c" and "c \<le> 2 ^ 53" and "0 < t" and "t \<le> 2 ^ 53"
  shows "f64_div (f64_of_int (int c)) (f64_of_int (int t)) = f64_frac False c t"
proof -
  obtain m e where f: "f64_of_int (int c) = Fin False m e" and m: "0 < m"
    and c: "real m * 2 powi e = real c" using f64_of_nat_exact [OF assms(1,2)] .
  obtain n g where f': "f64_of_int (int t) = Fin False n g" and n: "0 < n"
    and t: "real n * 2 powi g = real t" using f64_of_nat_exact [OF assms(3,4)] .
  have "real (m * 2 ^ nat (e - g) * t) = real (c * (n * 2 ^ nat (g - e)))"
  proof -
    have "(2::real) powi e = 2 powi g * 2 powi (e - g)"
      by (simp add: power_int_diff)
    also have "2 powi (e - g) = (2::real) ^ nat (e - g) / 2 ^ nat (g - e)"
      using pow_nat_cases [of "e - g"] by simp
    finally have "(2::real) powi e = 2 powi g * (2 ^ nat (e - g) / 2 ^ nat (g - e))" .
    with c t show ?thesis by (simp flip: t c)
  qed
  then have "m * 2 ^ nat (e - g) * t = c * (n * 2 ^ nat (g - e))" by (simp only: of_nat_eq_iff)
  then have "f64_frac False (m * 2 ^ nat (e - g)) (n * 2 ^ nat (g - e)) = f64_frac False c t"
    using assms n by (intro f64_frac_cong) auto
  with f f' n show ?thesis by simp
qed

definition f64_ratio :: "int64 \<Rightarrow> int64 \<Rightarrow> float64" where
  "f64_ratio c t = f64_div (f64_of_int64 c) (f64_of_int64 t)"

lemma frac_log_le:
  assumes "0 < n" and "0 < d" and "n \<le> 2 ^ 53"
  shows "frac_log n d \<le> 53"
proof -
  have "frac_log n d \<le> frac_log n (Suc 0)"
    by (rule frac_log_mono) (use assms in auto)
  with frac_log_nat(2) [OF assms(1,3)] show ?thesis by auto
qed

lemma f64_one_val: "f64_val False (2 ^ 52) (- 52) = 1"
  by (simp add: f64_val_def power_int_minus)

theorem f64_ratio_gt_one:
  assumes "0 < c" and "c \<le> 2 ^ 53" and "0 < t" and "t \<le> 2 ^ 53"
  shows "f64_less f64_one (f64_div (f64_of_int (int c)) (f64_of_int (int t))) \<longleftrightarrow> t < c"
proof -
  have "f64_exp c t < 971" using frac_log_le [of c t] assms by (simp add: f64_exp_def)
  then obtain m e where f: "f64_frac False c t = Fin False m e"
    and v: "real m * 2 powi e = frac_val c t"
    using f64_frac_Fin assms by blast
  have "f64_less f64_one (f64_frac False c t) \<longleftrightarrow> (2 ^ 53 + 1) * t < 2 ^ 53 * c"
    using frac_val_gt_one_iff [OF assms(1,3)] unfolding f f64_one_def f64_less_Fin f64_one_val
    by (simp add: f64_val_def v)
  also have "\<dots> \<longleftrightarrow> t < c" using assms by auto
  finally show ?thesis by (simp only: f64_div_of_nat [OF assms])
qed

text \<open>Zero and negative counts are never above a positive threshold.\<close>

lemma f64_of_neg:
  assumes "i < 0"
  shows "(\<exists>m e. f64_of_int i = Fin True m e) \<or> f64_of_int i = Inf True"
  using assms by (simp add: f64_of_int_def f64_frac_def f64_pack_def Let_def split: prod.splits)

lemma f64_frac_sign: "(\<exists>m e. f64_frac s n d = Fin s m e) \<or> f64_frac s n d = Inf s"
  by (simp add: f64_frac_def f64_pack_def Let_def split: prod.splits)

lemma f64_neg_not_gt_one: "\<not> f64_less f64_one (Fin True m e)" "\<not> f64_less f64_one (Inf True)"
proof -
  have "f64_val True m e \<le> 0" by (simp add: f64_val_def)
  then show "\<not> f64_less f64_one (Fin True m e)"
    unfolding f64_one_def f64_less_Fin f64_one_val by simp
qed (simp add: f64_one_def)

lemma f64_of_zero: "f64_of_int 0 = f64_zero"
  by (simp add: f64_of_int_def f64_frac_def f64_zero_def)

theorem f64_ratio_exceeds:
  assumes "sint c \<le> 2 ^ 53" and "0 < sint t" and "sint t \<le> 2 ^ 53"
  shows "f64_less f64_one (f64_ratio c t) \<longleftrightarrow> sint t < sint c"
proof -
  obtain t' where t': "sint t = int t'" "0 < t'" "t' \<le> 2 ^ 53"
    using assms(2,3) by (metis nat_int nat_le_iff of_nat_0_less_iff of_nat_numeral of_nat_power zero_less_imp_eq_int)
  obtain n g where ft: "f64_of_int (int t') = Fin False n g" and n: "0 < n"
    using f64_of_nat_exact t' by blast
  consider "0 < sint c" | "sint c = 0" | "sint c < 0" by linarith
  then show ?thesis
  proof cases
    case 1
    then obtain c' where "sint c = int c'" "0 < c'" "c' \<le> 2 ^ 53"
      using assms(1) by (metis nat_int nat_le_iff of_nat_0_less_iff of_nat_numeral of_nat_power zero_less_imp_eq_int)
    with t' show ?thesis
      using f64_ratio_gt_one [of c' t'] by (simp add: f64_ratio_def f64_of_int64_def)
  next
    case 2
    then have "f64_ratio c t = f64_zero"
      using ft n t' by (simp add: f64_ratio_def f64_of_int64_def f64_of_zero f64_zero_def f64_frac_def)
    with 2 t' show ?thesis
      unfolding f64_one_def f64_zero_def by (simp only: f64_less_Fin f64_one_val) (simp add: f64_val_def)
  next
    case 3
    have div: "f64_div x (Fin False n g) = Inf True
        \<or> (\<exists>m' e'. f64_div x (Fin False n g) = Fin True m' e')"
      if "x = Inf True \<or> (\<exists>m e. x = Fin True m e)" for x
      using that n f64_frac_sign [of True] by fastforce
    have "f64_ratio c t = Inf True \<or> (\<exists>m e. f64_ratio c t = Fin True m e)"
      using f64_of_neg [OF 3] unfolding f64_ratio_def f64_of_int64_def t'(1) ft
      by (intro div) auto
    with 3 t' show ?thesis by (auto simp: f64_neg_not_gt_one)
  qed
qed

text \<open>Facts that evaluate the rounding on concrete counts.\<close>

lemmas f64_eval = f64_ratio_def f64_of_int64_def f64_of_int_def f64_frac_def f64_pack_def
  f64_sig_def f64_exp_def frac_log_def half_even_def nbits.simps f64_one_def f64_0_8_def
  f64_zero_def f64_val_def Let_def

end
