(* ===== verification/Go_Number.thy ===== *)
theory Go_Number
  imports Go_Text Go_Float
begin

text \<open>
  \<open>strconv.ParseFloat\<close> and the formatting of a \<open>float64\<close> by \<open>fmt\<close>'s \<open>%f\<close>, following the
  standard library: the accepted grammar (sign, decimal or hexadecimal mantissa, underscores
  between digits, exponent, \<open>inf\<close>, \<open>infinity\<close>, \<open>nan\<close>), correct rounding of the exact value,
  and the range error where the rounded value is infinite.
\<close>

section \<open>ParseFloat\<close>

datatype num_error = ErrSyntax | ErrRange

definition is_hex :: "char \<Rightarrow> bool" where
  "is_hex c \<longleftrightarrow> is_digit c \<or> lower c \<in> set ''abcdef''"

definition hex_val :: "char \<Rightarrow> nat" where
  "hex_val c = (if is_digit c then digit_val c else of_char (lower c) - 87)"

text \<open>\<open>underscoreOK\<close>: underscores only between digits or between a base prefix and a digit. The
  state is the class of the last character: \<open>'0'\<close> a digit, \<open>'_'\<close>, or anything else.\<close>

fun underscores_between :: "bool \<Rightarrow> char \<Rightarrow> string \<Rightarrow> bool" where
  "underscores_between hex saw [] = (saw \<noteq> CHR ''_'')"
| "underscores_between hex saw (c # s) =
     (if is_digit c \<or> hex \<and> is_hex c then underscores_between hex (CHR ''0'') s
      else if c = CHR ''_'' then saw = CHR ''0'' \<and> underscores_between hex (CHR ''_'') s
      else saw \<noteq> CHR ''_'' \<and> underscores_between hex (CHR ''!'') s)"

text \<open>The mantissa: digits of the base, underscores and one point. The result is the digits' value,
  the number of digits after the point, whether a digit was seen, and the rest.\<close>

fun scan_mantissa :: "nat \<Rightarrow> string \<Rightarrow> nat \<Rightarrow> nat \<Rightarrow> bool \<Rightarrow> bool \<Rightarrow> nat \<times> nat \<times> bool \<times> string" where
  "scan_mantissa base [] m k dot dig = (m, k, dig, [])"
| "scan_mantissa base (c # s) m k dot dig =
     (if c = CHR ''_'' then scan_mantissa base s m k dot dig
      else if c = CHR ''.'' then
        (if dot then (m, k, dig, c # s) else scan_mantissa base s m k True dig)
      else if is_digit c \<or> base = 16 \<and> is_hex c then
        scan_mantissa base s (m * base + hex_val c) (if dot then Suc k else k) dot True
      else (m, k, dig, c # s))"

text \<open>The exponent digits; the accumulation stops once the value has five digits.\<close>

fun scan_exponent :: "string \<Rightarrow> nat \<Rightarrow> nat \<times> string" where
  "scan_exponent [] e = (e, [])"
| "scan_exponent (c # s) e =
     (if c = CHR ''_'' then scan_exponent s e
      else if is_digit c then scan_exponent s (if e < 10000 then e * 10 + digit_val c else e)
      else (e, c # s))"

definition strip_sign :: "string \<Rightarrow> bool \<times> string" where
  "strip_sign s = (case s of [] \<Rightarrow> (False, [])
     | c # t \<Rightarrow> if c = CHR ''-'' then (True, t) else if c = CHR ''+'' then (False, t) else (False, s))"

definition f64_scale :: "bool \<Rightarrow> nat \<Rightarrow> nat \<Rightarrow> int \<Rightarrow> float64" where
  "f64_scale neg m b e = f64_frac neg (m * b ^ nat e) (b ^ nat (- e))"

text \<open>\<open>readFloat\<close> on a whole string, and the conversion that follows it.\<close>

definition hex_literal :: "string \<Rightarrow> bool" where
  "hex_literal t \<longleftrightarrow> 2 < length t \<and> t ! 0 = CHR ''0'' \<and> lower (t ! 1) = CHR ''x''"

definition read_float :: "string \<Rightarrow> float64 option" where
  "read_float s =
     (let (neg, t) = strip_sign s;
          hex = hex_literal t;
          prefixed = (2 \<le> length t \<and> t ! 0 = CHR ''0'' \<and> lower (t ! 1) \<in> set ''box'');
          body = (if hex then drop 2 t else t);
          (m, k, dig, r) = scan_mantissa (if hex then 16 else 10) body 0 0 False False;
          us_ok = (if CHR ''_'' \<notin> set t then True
                   else if prefixed then underscores_between hex (CHR ''0'') (drop 2 t)
                   else underscores_between False (CHR ''^'') t)
      in if \<not> dig then None
         else (case r of
             [] \<Rightarrow> if hex \<or> \<not> us_ok then None else Some (f64_scale neg m 10 (- int k))
           | c # r' \<Rightarrow>
               if lower c \<noteq> (if hex then CHR ''p'' else CHR ''e'') then None
               else
                 (let (eneg, d) = strip_sign r'; (e, rest) = scan_exponent d 0;
                      x = (if eneg then - int e else int e)
                  in if d = [] \<or> \<not> is_digit (hd d) \<or> rest \<noteq> [] \<or> \<not> us_ok then None
                     else Some (if hex then f64_scale neg m 2 (x - 4 * int k)
                                else f64_scale neg m 10 (x - int k)))))"

definition read_special :: "string \<Rightarrow> float64 option" where
  "read_special s =
     (let (neg, t) = strip_sign s; l = map lower t
      in if l = ''inf'' \<or> l = ''infinity'' then Some (Inf neg)
         else if map lower s = ''nan'' then Some NaN else None)"

definition ParseFloat :: "string \<Rightarrow> num_error + float64" where
  "ParseFloat s =
     (case read_special s of Some x \<Rightarrow> Inr x
      | None \<Rightarrow> (case read_float s of None \<Rightarrow> Inl ErrSyntax
          | Some (Inf _) \<Rightarrow> Inl ErrRange | Some x \<Rightarrow> Inr x))"

section \<open>The verb \<open>%f\<close>\<close>

definition pad6 :: "nat \<Rightarrow> string" where
  "pad6 n = (let d = dec_nat n in replicate (6 - length d) (CHR ''0'') @ d)"

fun format_f :: "float64 \<Rightarrow> string" where
  "format_f NaN = ''NaN''"
| "format_f (Inf s) = (if s then ''-Inf'' else ''+Inf'')"
| "format_f (Fin s m e) =
     (let q = half_even (m * 10 ^ 6 * 2 ^ nat e) (2 ^ nat (- e))
      in (if s then ''-'' else []) @ dec_nat (q div 10 ^ 6) @ ''.'' @ pad6 (q mod 10 ^ 6))"

lemma pad6_0: "pad6 0 = ''000000''"
  by code_simp

definition float_char :: "char \<Rightarrow> bool" where
  "float_char c \<longleftrightarrow> is_digit c \<or> c \<in> set ''-+.InfNa''"

lemma float_char_digits: "list_all float_char (dec_nat n)"
  using dec_nat_digits [of n] by (auto simp: list_all_iff float_char_def)

lemma float_char_0: "float_char (CHR ''0'')"
  by (simp add: float_char_def is_digit_def)

lemma float_char_pad: "list_all float_char (pad6 n)"
  using float_char_digits [of n] float_char_0 by (auto simp: pad6_def Let_def list_all_iff)

lemma format_f_chars: "list_all float_char (format_f x)"
proof (cases x)
  case (Fin s m e)
  then show ?thesis
    by (simp add: float_char_digits float_char_pad Let_def) (simp add: float_char_def)
qed (auto simp: float_char_def)

lemma float_char_not [simp]:
  "\<not> float_char (CHR 0x0A)" "\<not> float_char (CHR '' '')" "\<not> float_char (CHR 0x22)"
  by (simp_all add: float_char_def is_digit_def)

lemma format_f_no_newline [simp]: "CHR 0x0A \<notin> set (format_f x)"
  using format_f_chars [of x] by (auto simp: list_all_iff)

lemma format_f_no_blank [simp]: "CHR '' '' \<notin> set (format_f x)"
  using format_f_chars [of x] by (auto simp: list_all_iff)

section \<open>Integers\<close>

lemma scan_digits:
  "list_all is_digit s \<Longrightarrow>
   scan_mantissa 10 (s @ r) m k False dig =
     scan_mantissa 10 r (fold (\<lambda>c a. a * 10 + digit_val c) s m) k False (dig \<or> s \<noteq> [])"
  by (induction s arbitrary: m dig) (auto simp: hex_val_def)

lemma lower_digit: "is_digit c \<Longrightarrow> lower c = c"
  by (auto simp: lower_def is_digit_def Let_def)

lemma lower_digits: "list_all is_digit s \<Longrightarrow> map lower s = s"
  by (induction s) (auto simp: lower_digit)

lemma read_special_digits:
  assumes "list_all is_digit s"
  shows "read_special s = None"
proof -
  have "strip_sign s = (False, s)"
    using assms by (auto simp: strip_sign_def split: list.split)
  moreover have "s \<noteq> ''inf''" "s \<noteq> ''infinity''" "s \<noteq> ''nan''"
    using assms by (auto simp: is_digit_def)
  ultimately show ?thesis using lower_digits [OF assms] by (simp add: read_special_def)
qed

text \<open>The decimal form of a natural number is read as the nearest \<open>float64\<close>.\<close>

lemma read_float_digits:
  assumes "list_all is_digit s" and "s \<noteq> []"
  shows "read_float s = Some (f64_frac False (digits_val s) 1)"
proof -
  have sign: "strip_sign s = (False, s)"
    using assms(1) by (auto simp: strip_sign_def split: list.split)
  have nohex: "\<not> hex_literal s"
  proof
    assume "hex_literal s"
    then have h: "2 < length s \<and> lower (s ! 1) = CHR ''x''" by (simp add: hex_literal_def)
    then have "is_digit (s ! 1)" using assms(1) by (simp add: list_all_length)
    then have "is_digit (CHR ''x'')" using h lower_digit [of "s ! 1"] by metis
    then show False by (simp add: is_digit_def)
  qed
  have nous: "CHR ''_'' \<notin> set s" using assms(1) by (auto simp: list_all_iff)
  have "scan_mantissa 10 s 0 0 False False = (digits_val s, 0, True, [])"
    using scan_digits [OF assms(1), of "[]" 0 0 False] assms(2) by (simp add: digits_val_def)
  then show ?thesis
    using nohex nous by (simp add: read_float_def sign Let_def f64_scale_def)
qed

lemma ParseFloat_digits:
  assumes "list_all is_digit s" and "s \<noteq> []"
  shows "ParseFloat s = (case f64_frac False (digits_val s) 1 of Inf _ \<Rightarrow> Inl ErrRange | x \<Rightarrow> Inr x)"
  using assms by (simp add: ParseFloat_def read_special_digits read_float_digits)

end
