(* ===== verification/Go_Value.thy ===== *)
theory Go_Value
  imports Go_Number
begin

text \<open>
  The dynamic values (\<open>interface{}\<close>) of an unstructured object, and their text under \<open>%v\<close>.
  A decoded object holds nil, booleans, 64-bit integers, floats, strings, slices and maps;
  \<open>GOther\<close> stands for a value of any other dynamic type, by its type name and its text.
\<close>

section \<open>The shortest decimal of a float\<close>

text \<open>
  \<open>strconv\<close> with precision \<open>-1\<close>: the fewest digits that read back as the same float, and the
  closest such decimal. \<open>dec_point N D\<close> is the \<open>p\<close> with \<open>10 ^ (p - 1) \<le> N / D < 10 ^ p\<close>; the
  search tries one digit, two digits and so on. Seventeen digits always suffice for a
  \<open>float64\<close>; the fuel of the search allows 20.
\<close>

fun leading_zeros :: "nat \<Rightarrow> nat \<Rightarrow> nat \<Rightarrow> nat" where
  "leading_zeros 0 n d = 0"
| "leading_zeros (Suc fuel) n d = (if d \<le> n * 10 then 0 else Suc (leading_zeros fuel (n * 10) d))"

definition dec_point :: "nat \<Rightarrow> nat \<Rightarrow> int" where
  "dec_point n d =
     (if d \<le> n then int (length (dec_nat (n div d))) else - int (leading_zeros 400 n d))"

fun shortest_search :: "nat \<Rightarrow> float64 \<Rightarrow> nat \<Rightarrow> nat \<Rightarrow> int \<Rightarrow> nat \<Rightarrow> nat \<times> int" where
  "shortest_search fuel x n d p k =
     (let e = p - int k;
          n' = n * 10 ^ nat (- e); d' = d * 10 ^ nat e;
          q = n' div d';
          down = (f64_scale False q 10 e = x); up = (f64_scale False (Suc q) 10 e = x)
      in if down \<and> up then (half_even n' d', e)
         else if down then (q, e)
         else if up then (Suc q, e)
         else (case fuel of 0 \<Rightarrow> (q, e) | Suc f \<Rightarrow> shortest_search f x n d p (Suc k)))"

declare shortest_search.simps [simp del]

fun strip_zeros :: "nat \<Rightarrow> nat \<Rightarrow> int \<Rightarrow> nat \<times> int" where
  "strip_zeros 0 q e = (q, e)"
| "strip_zeros (Suc fuel) q e =
     (if q \<noteq> 0 \<and> q mod 10 = 0 then strip_zeros fuel (q div 10) (e + 1) else (q, e))"

text \<open>The digits and the position of the decimal point: \<open>0.d1d2... * 10 ^ dp\<close>.\<close>

definition shortest :: "nat \<Rightarrow> int \<Rightarrow> string \<times> int" where
  "shortest m e =
     (if m = 0 then ([], 0)
      else
        (let n = m * 2 ^ nat e; d = 2 ^ nat (- e);
             (q, x) = shortest_search 20 (Fin False m e) n d (dec_point n d) 1;
             (q', x') = strip_zeros 20 q x; ds = dec_nat q'
         in (ds, int (length ds) + x')))"

definition digit_at :: "string \<Rightarrow> int \<Rightarrow> char" where
  "digit_at ds i = (if 0 \<le> i \<and> i < int (length ds) then ds ! nat i else CHR ''0'')"

text \<open>\<open>fmtF\<close> and \<open>fmtE\<close> with as many digits as the shortest form has.\<close>

definition fmt_f_digits :: "string \<Rightarrow> int \<Rightarrow> string" where
  "fmt_f_digits ds dp =
     (if 0 < dp then map (digit_at ds) [0..dp - 1] else ''0'')
     @ (let prec = int (length ds) - dp
        in if 0 < prec then ''.'' @ map (\<lambda>i. digit_at ds (dp + i)) [0..prec - 1] else [])"

definition fmt_e_digits :: "string \<Rightarrow> int \<Rightarrow> string" where
  "fmt_e_digits ds dp =
     (let x = (if ds = [] then 0 else dp - 1); xs = dec_nat (nat \<bar>x\<bar>)
      in [digit_at ds 0] @ (if 1 < length ds then ''.'' @ drop 1 ds else [])
         @ ''e'' @ (if x < 0 then ''-'' else ''+'') @ (if length xs < 2 then ''0'' else []) @ xs)"

text \<open>\<open>FormatFloat(x, 'f', -1, 64)\<close> and \<open>FormatFloat(x, 'g', -1, 64)\<close>.\<close>

fun format_f_shortest :: "float64 \<Rightarrow> string" where
  "format_f_shortest NaN = ''NaN''"
| "format_f_shortest (Inf s) = (if s then ''-Inf'' else ''+Inf'')"
| "format_f_shortest (Fin s m e) =
     (let (ds, dp) = shortest m e in (if s then ''-'' else []) @ fmt_f_digits ds dp)"

fun format_g_shortest :: "float64 \<Rightarrow> string" where
  "format_g_shortest NaN = ''NaN''"
| "format_g_shortest (Inf s) = (if s then ''-Inf'' else ''+Inf'')"
| "format_g_shortest (Fin s m e) =
     (let (ds, dp) = shortest m e
      in (if s then ''-'' else [])
         @ (if dp - 1 < - 4 \<or> 6 \<le> dp - 1 then fmt_e_digits ds dp else fmt_f_digits ds dp))"

section \<open>Dynamic values\<close>

datatype gval =
    GNil
  | GBool bool
  | GInt int64
  | GUint int64
  | GFloat float64
  | GString string
  | GSlice "gval list"
  | GMap "(string \<times> gval) list"
  | GOther string string

definition format_bool :: "bool \<Rightarrow> string" where
  "format_bool b = (if b then ''true'' else ''false'')"

text \<open>\<open>fmt.Sprintf("%v", v)\<close>; a map is printed in the order of its keys.\<close>

fun format_v :: "gval \<Rightarrow> string" where
  "format_v GNil = ''<nil>''"
| "format_v (GBool b) = format_bool b"
| "format_v (GInt w) = Itoa (sint w)"
| "format_v (GUint w) = Itoa (uint w)"
| "format_v (GFloat x) = format_g_shortest x"
| "format_v (GString s) = s"
| "format_v (GSlice vs) = ''['' @ Join (map format_v vs) '' '' @ '']''"
| "format_v (GMap m) =
     ''map['' @ Join (map (\<lambda>(k, s). k @ '':'' @ s)
                  (sort_key fst (map (\<lambda>(k, v). (k, format_v v)) m))) '' '' @ '']''"
| "format_v (GOther t s) = s"

end
