(* ===== verification/Metric_Util.thy ===== *)
theory Metric_Util
  imports Go_Text
begin

text \<open>
  \<open>pkg/metricutil/metrics.go\<close>: the metric kinds and the sanitising of label keys. A Go \<open>range\<close>
  loop over a string, and a regular expression, see its runes: \<open>rune_width\<close> is the decoding of
  one UTF-8 sequence at the head of a byte string, width 1 for an invalid byte.
\<close>

section \<open>Runes\<close>

definition byte_in :: "char \<Rightarrow> nat \<Rightarrow> nat \<Rightarrow> bool" where
  "byte_in c lo hi \<longleftrightarrow> lo \<le> of_char c \<and> of_char c \<le> hi"

definition rune_width :: "string \<Rightarrow> nat" where
  "rune_width s =
     (case s of
        [] \<Rightarrow> 0
      | [a] \<Rightarrow> 1
      | a # b # t \<Rightarrow>
          if byte_in a 0 127 then 1
          else if byte_in a 194 223 then (if byte_in b 128 191 then 2 else 1)
          else if byte_in a 224 239 then
            (if byte_in b (if byte_in a 224 224 then 160 else 128) (if byte_in a 237 237 then 159 else 191)
                \<and> t \<noteq> [] \<and> byte_in (hd t) 128 191 then 3 else 1)
          else if byte_in a 240 244 then
            (if byte_in b (if byte_in a 240 240 then 144 else 128) (if byte_in a 244 244 then 143 else 191)
                \<and> 2 \<le> length t \<and> byte_in (hd t) 128 191 \<and> byte_in (hd (tl t)) 128 191 then 4 else 1)
          else 1)"

lemma rune_width_pos: "s \<noteq> [] \<Longrightarrow> 0 < rune_width s"
  by (auto simp: rune_width_def split: list.splits)

function runes :: "string \<Rightarrow> string list" where
  "runes s = (if s = [] then [] else take (rune_width s) s # runes (drop (rune_width s) s))"
  by auto
termination by (relation "measure length") (auto simp: rune_width_pos)

declare runes.simps [simp del]

lemma runes_Nil [simp]: "runes [] = []"
  by (simp add: runes.simps)

lemma concat_runes: "concat (runes s) = s"
  by (induction s rule: runes.induct) (subst runes.simps, auto)

definition ascii :: "char \<Rightarrow> bool" where
  "ascii c \<longleftrightarrow> byte_in c 0 127"

lemma rune_width_ascii: "ascii c \<Longrightarrow> rune_width (c # s) = 1"
  by (auto simp: rune_width_def ascii_def byte_in_def split: list.splits)

lemma runes_ascii: "list_all ascii s \<Longrightarrow> runes s = map (\<lambda>c. [c]) s"
  by (induction s) (simp, subst runes.simps, simp add: rune_width_ascii)

lemma runes_not_Nil: "r \<in> set (runes s) \<Longrightarrow> r \<noteq> []"
proof (induction s rule: runes.induct)
  case (1 s)
  show ?case
  proof (cases "s = []")
    case False
    have "take (rune_width s) s \<noteq> []" using False rune_width_pos [of s] by auto
    with False 1 show ?thesis by (subst (asm) (2) runes.simps) auto
  qed (use 1 in simp)
qed

section \<open>Metric kinds\<close>

datatype metric_kind = MetricKindGauge | MetricKindCounter

fun kind_string :: "metric_kind \<Rightarrow> string" where
  "kind_string MetricKindGauge = ''gauge''"
| "kind_string MetricKindCounter = ''counter''"

definition SupportedMetricKinds :: "metric_kind list" where
  "SupportedMetricKinds = [MetricKindGauge, MetricKindCounter]"

definition IsValidMetricKind :: "string \<Rightarrow> bool" where
  "IsValidMetricKind kind = list_ex (\<lambda>supported. kind_string supported = kind) SupportedMetricKinds"

definition SupportedMetricKindsString :: string where
  "SupportedMetricKindsString =
     Join (map (\<lambda>kind. [CHR 0x27] @ kind_string kind @ [CHR 0x27]) SupportedMetricKinds) '', ''"

section \<open>Sanitising a label key\<close>

definition is_letter :: "char \<Rightarrow> bool" where
  "is_letter c \<longleftrightarrow> byte_in c 97 122 \<or> byte_in c 65 90"

text \<open>The loop at byte offset \<open>i\<close>: only its being the first matters.\<close>

definition sanitize_rune :: "bool \<Rightarrow> string \<Rightarrow> string" where
  "sanitize_rune first r =
     (case r of
        [c] \<Rightarrow> if is_letter c \<or> c = CHR ''_'' \<or> is_digit c \<and> \<not> first then [c] else ''_''
      | _ \<Rightarrow> ''_'')"

definition SanitizeLabelKey :: "string \<Rightarrow> string" where
  "SanitizeLabelKey key =
     (case runes key of [] \<Rightarrow> []
      | r # rs \<Rightarrow> sanitize_rune True r @ concat (map (sanitize_rune False) rs))"

definition word_char :: "char \<Rightarrow> bool" where
  "word_char c \<longleftrightarrow> is_letter c \<or> is_digit c \<or> c = CHR ''_''"

text \<open>A label name of the exposition format: \<open>[a-zA-Z_][a-zA-Z0-9_]*\<close>.\<close>

definition valid_label_name :: "string \<Rightarrow> bool" where
  "valid_label_name s \<longleftrightarrow> s \<noteq> [] \<and> list_all word_char s \<and> \<not> is_digit (hd s)"

lemma word_char_ascii: "word_char c \<Longrightarrow> ascii c"
  by (auto simp: word_char_def ascii_def is_letter_def byte_in_def is_digit_def Let_def)

lemma sanitize_rune_cases:
  "\<exists>c. sanitize_rune first r = [c] \<and> word_char c \<and> (first \<longrightarrow> \<not> is_digit c)"
  by (auto simp: sanitize_rune_def word_char_def is_letter_def byte_in_def is_digit_def Let_def
      split: list.splits)

lemma sanitize_runes_word: "list_all word_char (concat (map (sanitize_rune False) rs))"
proof (induction rs)
  case (Cons r rs)
  then show ?case using sanitize_rune_cases [of False r] by auto
qed simp

lemma length_sanitize: "length (SanitizeLabelKey key) = length (runes key)"
proof -
  have "length (sanitize_rune b r) = 1" for b r using sanitize_rune_cases [of b r] by auto
  then show ?thesis
    by (auto simp: SanitizeLabelKey_def length_concat comp_def sum_list_triv split: list.split)
qed

lemma sanitize_rune_word:
  "word_char c \<Longrightarrow> \<not> (first \<and> is_digit c) \<Longrightarrow> sanitize_rune first [c] = [c]"
  by (auto simp: sanitize_rune_def word_char_def)

lemma sanitize_valid: "valid_label_name key \<Longrightarrow> SanitizeLabelKey key = key"
proof -
  assume v: "valid_label_name key"
  then obtain c cs where key: "key = c # cs" by (cases key) (auto simp: valid_label_name_def)
  have "list_all ascii key" using v word_char_ascii by (auto simp: valid_label_name_def list_all_iff)
  moreover have "concat (map (sanitize_rune False \<circ> (\<lambda>c. [c])) cs) = cs"
    if "list_all word_char cs" for cs
    using that by (induction cs) (simp_all add: sanitize_rune_word)
  ultimately show ?thesis
    using v by (simp add: SanitizeLabelKey_def runes_ascii key valid_label_name_def sanitize_rune_word)
qed

text \<open>Every non-empty key is sanitised to a valid label name with one character per rune of
  the key, and a key that already is a valid label name is left as it is, so sanitising twice is
  sanitising once.\<close>

theorem sanitize_label_key:
  assumes "key \<noteq> []"
  shows "valid_label_name (SanitizeLabelKey key) \<and> length (SanitizeLabelKey key) = length (runes key)
     \<and> SanitizeLabelKey (SanitizeLabelKey key) = SanitizeLabelKey key
     \<and> (valid_label_name key \<longrightarrow> SanitizeLabelKey key = key)"
proof -
  obtain r rs where "runes key = r # rs" using assms runes.simps [of key] by auto
  moreover obtain c where "sanitize_rune True r = [c]" "word_char c" "\<not> is_digit c"
    using sanitize_rune_cases [of True r] by auto
  ultimately have "valid_label_name (SanitizeLabelKey key)"
    using sanitize_runes_word [of rs] by (simp add: SanitizeLabelKey_def valid_label_name_def)
  then show ?thesis by (simp add: sanitize_valid length_sanitize)
qed

theorem sanitize_label_key_witness:
  "SanitizeLabelKey ''1a/b'' = ''_a_b'' \<and> valid_label_name (SanitizeLabelKey ''1a/b'')"
proof -
  have "list_all ascii ''1a/b''" by (simp add: ascii_def byte_in_def)
  then have "SanitizeLabelKey ''1a/b'' = ''_a_b''"
    by (simp add: SanitizeLabelKey_def runes_ascii sanitize_rune_def is_letter_def byte_in_def is_digit_def)
  with sanitize_label_key [of "''1a/b''"] show ?thesis by simp
qed

end
