(* ===== verification/Resolvers.thy ===== *)
theory Resolvers
  imports Go_Value Metric_Util
begin

text \<open>
  \<open>pkg/resolver\<close>: the resolvers that turn a query into a map of strings. A scalar result is the
  single entry \<open>query \<mapsto> text\<close>, a list is indexed keys \<open>parent#0, parent#1, ...\<close>, a map its own
  keys. The lookup of a path (\<open>unstructured.NestedFieldNoCopy\<close>), the CEL evaluation and the
  parsing of a quantity belong to libraries: they are the fields of \<open>resolver_lib\<close>.
\<close>

type_synonym object = "(string \<times> gval) list"

text \<open>A CEL value as the code inspects it: its CEL type and the Go value it holds.\<close>

datatype cel_val =
    CELScalar gval
  | CELMapNative "(string \<times> gval) list"
  | CELMapStrings "(string, string) gomap"
  | CELMapOther
  | CELListNative "gval list"
  | CELListRef "gval list"
  | CELListOther
  | CELNull
  | CELOtherType string

text \<open>What comes first out of the evaluation goroutine and the timer.\<close>

datatype cel_outcome = CELTimeout | CELFailed | CELResult cel_val

record resolver_lib =
  NestedFieldNoCopy :: "object \<Rightarrow> string list \<Rightarrow> gval \<times> bool \<times> bool"
  cel_eval :: "int64 \<Rightarrow> int \<Rightarrow> string \<Rightarrow> object \<Rightarrow> cel_outcome"
  ParseQuantity :: "string \<Rightarrow> float64 option"

section \<open>The unstructured resolver\<close>

definition unstructured_Resolve ::
    "'a resolver_lib_scheme \<Rightarrow> string \<Rightarrow> object \<Rightarrow> (string, string) gomap" where
  "unstructured_Resolve lib query obj =
     (let (gotResolved, found, err) = NestedFieldNoCopy lib obj (Split (CHR ''.'') query)
      in if \<not> found then [(query, query)]
         else if err then [(query, query)]
         else [(query, format_v gotResolved)])"

section \<open>The CEL resolver\<close>

fun is_scalar :: "gval \<Rightarrow> bool" where
  "is_scalar (GString s) = True"
| "is_scalar (GInt w) = True"
| "is_scalar (GUint w) = True"
| "is_scalar (GFloat x) = True"
| "is_scalar (GBool b) = True"
| "is_scalar _ = False"

definition index_suffix :: "string \<Rightarrow> nat \<Rightarrow> string" where
  "index_suffix parent i = parent @ ''#'' @ Itoa (int i)"

fun resolveListInner :: "string \<Rightarrow> nat \<Rightarrow> gval list \<Rightarrow> (string, string) gomap \<Rightarrow> (string, string) gomap"
  and resolveMapInner :: "(string \<times> gval) list \<Rightarrow> (string, string) gomap \<Rightarrow> (string, string) gomap" where
  "resolveListInner fieldParent i [] out = out"
| "resolveListInner fieldParent i (v # vs) out =
     resolveListInner fieldParent (Suc i) vs
       (case v of
          GSlice l \<Rightarrow> resolveListInner fieldParent 0 l out
        | GMap m \<Rightarrow> resolveMapInner m out
        | GNil \<Rightarrow> out
        | GOther _ _ \<Rightarrow> out
        | _ \<Rightarrow> gm_put (index_suffix fieldParent i) (format_v v) out)"
| "resolveMapInner [] out = out"
| "resolveMapInner ((k, v) # m) out =
     resolveMapInner m
       (case v of
          GSlice l \<Rightarrow> resolveListInner k 0 l out
        | GMap m' \<Rightarrow> resolveMapInner m' out
        | GNil \<Rightarrow> out
        | GOther _ _ \<Rightarrow> out
        | _ \<Rightarrow> gm_put k (format_v v) out)"

text \<open>\<open>resolveList\<close> and \<open>resolveMap\<close>; a nil map is the empty map to every caller.\<close>

fun resolveList :: "cel_val \<Rightarrow> string \<Rightarrow> (string, string) gomap" where
  "resolveList (CELListNative v) fieldParent = resolveListInner fieldParent 0 v []"
| "resolveList (CELListRef v) fieldParent = resolveListInner fieldParent 0 v []"
| "resolveList _ fieldParent = []"

fun resolveMap :: "cel_val \<Rightarrow> (string, string) gomap" where
  "resolveMap (CELMapNative m) = resolveMapInner m []"
| "resolveMap (CELMapStrings m) = fold (\<lambda>(k, v). gm_put k v) m []"
| "resolveMap _ = []"

definition after_last_dot :: "string \<Rightarrow> string" where
  "after_last_dot s = (case LastIndexByte s (CHR ''.'') of None \<Rightarrow> s | Some i \<Rightarrow> drop (Suc i) s)"

definition resolved_field_parent :: "string \<Rightarrow> string" where
  "resolved_field_parent query =
     (let base = (case IndexByte query (CHR ''('') of
            Some (Suc n) \<Rightarrow>
              (let base = take (Suc n) query
               in case LastIndexByte base (CHR ''.'') of None \<Rightarrow> base | Some dot \<Rightarrow> take dot base)
          | _ \<Rightarrow> query)
      in after_last_dot base)"

definition defaultMapping :: "string \<Rightarrow> (string, string) gomap" where
  "defaultMapping query = [(query, query)]"

definition processResult :: "string \<Rightarrow> cel_val \<Rightarrow> (string, string) gomap" where
  "processResult query out =
     (case out of
        CELScalar v \<Rightarrow> [(query, format_v v)]
      | CELMapNative _ \<Rightarrow> resolveMap out
      | CELMapStrings _ \<Rightarrow> resolveMap out
      | CELMapOther \<Rightarrow> resolveMap out
      | CELListNative _ \<Rightarrow> resolveList out (resolved_field_parent query)
      | CELListRef _ \<Rightarrow> resolveList out (resolved_field_parent query)
      | CELListOther \<Rightarrow> resolveList out (resolved_field_parent query)
      | CELNull \<Rightarrow> [(query, ''<nil>'')]
      | CELOtherType _ \<Rightarrow> defaultMapping query)"

text \<open>\<open>Resolve\<close>: the map and the result label of the evaluation counter.\<close>

definition cel_Resolve ::
    "'a resolver_lib_scheme \<Rightarrow> int64 \<Rightarrow> int \<Rightarrow> string \<Rightarrow> object \<Rightarrow> (string, string) gomap \<times> string" where
  "cel_Resolve lib costLimit timeout query obj =
     (case cel_eval lib costLimit timeout query obj of
        CELResult out \<Rightarrow> (processResult query out, ''success'')
      | CELFailed \<Rightarrow> (defaultMapping query, ''error'')
      | CELTimeout \<Rightarrow> (defaultMapping query, ''timeout''))"

subsection \<open>The custom functions\<close>

definition customFunctionsCosts :: "(string, int64) gomap" where
  "customFunctionsCosts = [(''unixSeconds'', 10), (''quantity'', 10), (''labelPrefix'', 20), (''now'', 1)]"

definition CallCost :: "string \<Rightarrow> int64" where
  "CallCost f = 1 + gm_get 0 customFunctionsCosts f"

datatype 'a cel_binding = BindErr | BindOk 'a

definition quantityBinding :: "'a resolver_lib_scheme \<Rightarrow> gval \<Rightarrow> float64 cel_binding" where
  "quantityBinding lib arg =
     (case arg of
        GString s \<Rightarrow>
          if s = [] then BindOk f64_zero
          else (case ParseQuantity lib s of None \<Rightarrow> BindErr | Some q \<Rightarrow> BindOk q)
      | _ \<Rightarrow> BindErr)"

text \<open>The first operand of \<open>labelPrefix\<close> as the code inspects its value: the native map of an object's
  labels, the map of CEL values that a map literal is, or anything else. Of the second kind the
  entries whose key is not a string are skipped. \<open>fmt.Sprintf\<close> leaves a string as it is.\<close>

datatype label_operand =
    LabelsNative "(string, gval) gomap"
  | LabelsRef "(gval \<times> gval) list"
  | LabelsOther gval

fun string_keyed :: "(gval \<times> gval) list \<Rightarrow> (string, gval) gomap \<Rightarrow> (string, gval) gomap" where
  "string_keyed [] labels = labels"
| "string_keyed ((k, v) # refMap) labels =
     string_keyed refMap (case k of GString ks \<Rightarrow> gm_put ks v labels | _ \<Rightarrow> labels)"

definition labelPrefixBinding :: "label_operand \<Rightarrow> gval \<Rightarrow> (string, string) gomap cel_binding" where
  "labelPrefixBinding lhs rhs =
     (case (case lhs of
              LabelsNative labels \<Rightarrow> Some labels
            | LabelsRef refMap \<Rightarrow> Some (string_keyed refMap [])
            | LabelsOther _ \<Rightarrow> None) of
        None \<Rightarrow> BindErr
      | Some labels \<Rightarrow>
          (case rhs of
             GString prefix \<Rightarrow>
               BindOk (fold (\<lambda>(k, v) result. gm_put (prefix @ SanitizeLabelKey k)
                   (case v of GString vs \<Rightarrow> vs | _ \<Rightarrow> format_v v) result) labels [])
           | _ \<Rightarrow> BindErr))"

text \<open>A map literal with the same string keys gives what the native map gives, and an entry with
  another key changes nothing.\<close>

lemma string_keyed_native: "gm_ok (out @ m) \<Longrightarrow> string_keyed (map (\<lambda>(k, v). (GString k, v)) m) out = out @ m"
proof (induction m arbitrary: out)
  case (Cons p m)
  obtain k v where p: "p = (k, v)" by fastforce
  have "k \<notin> fst ` set out" using Cons.prems by (auto simp: p gm_ok_def)
  then have "gm_put k v out = out @ [(k, v)]" by (induction out) auto
  with Cons.IH [of "out @ [(k, v)]"] Cons.prems show ?case by (simp add: p)
qed simp

lemma label_prefix_literal:
  "gm_ok m \<Longrightarrow> labelPrefixBinding (LabelsRef (map (\<lambda>(k, v). (GString k, v)) m)) rhs = labelPrefixBinding (LabelsNative m) rhs"
  using string_keyed_native [of "[]" m] by (simp add: labelPrefixBinding_def)

lemma string_keyed_append: "string_keyed (xs @ ys) out = string_keyed ys (string_keyed xs out)"
  by (induction xs out rule: string_keyed.induct) auto

lemma label_prefix_other_key:
  "\<forall>s. k \<noteq> GString s \<Longrightarrow> labelPrefixBinding (LabelsRef (xs @ (k, v) # ys)) rhs = labelPrefixBinding (LabelsRef (xs @ ys)) rhs"
  by (simp add: labelPrefixBinding_def string_keyed_append split: gval.split)

section \<open>The resolvers as values\<close>

datatype resolver = UnstructuredResolver | CELResolver int64 int

fun Resolve :: "'a resolver_lib_scheme \<Rightarrow> resolver \<Rightarrow> string \<Rightarrow> object \<Rightarrow> (string, string) gomap" where
  "Resolve lib UnstructuredResolver query obj = unstructured_Resolve lib query obj"
| "Resolve lib (CELResolver costLimit timeout) query obj = fst (cel_Resolve lib costLimit timeout query obj)"

section \<open>Resolved lists\<close>

lemma format_v_scalar_cases:
  "is_scalar v \<Longrightarrow> resolveListInner p i (v # vs) out
     = resolveListInner p (Suc i) vs (gm_put (index_suffix p i) (format_v v) out)"
  by (cases v) auto

lemma index_suffix_inj: "index_suffix p i = index_suffix p j \<longleftrightarrow> i = j"
  by (simp add: index_suffix_def Itoa_def dec_nat_inj)

lemma gm_put_fresh: "k \<notin> fst ` set m \<Longrightarrow> gm_put k v m = m @ [(k, v)]"
  by (induction m) auto

text \<open>A list of scalars resolves to one indexed key per element, in order.\<close>

lemma resolve_scalars:
  assumes "list_all is_scalar vs" and "fst ` set out \<subseteq> index_suffix p ` {..<i}"
  shows "resolveListInner p i vs out
     = out @ map (\<lambda>j. (index_suffix p (i + j), format_v (vs ! j))) [0..<length vs]"
  using assms
proof (induction vs arbitrary: i out)
  case (Cons v vs)
  have "index_suffix p i \<notin> index_suffix p ` {..<i}" by (auto simp: index_suffix_inj)
  then have fresh: "index_suffix p i \<notin> fst ` set out" using Cons.prems(2) by blast
  have "fst ` set (out @ [(index_suffix p i, format_v v)]) \<subseteq> index_suffix p ` {..<Suc i}"
    using Cons.prems(2) by (auto simp: lessThan_Suc)
  from Cons.IH [OF _ this] show ?case
    using Cons.prems(1)
    by (simp add: format_v_scalar_cases gm_put_fresh [OF fresh] upt_conv_Cons map_Suc_upt [symmetric] comp_def
        del: upt_Suc resolveListInner.simps(2))
qed simp

text \<open>Every resolution of either resolver is a map: distinct keys.\<close>

lemma resolve_inner_ok:
  "gm_ok out \<Longrightarrow> gm_ok (resolveListInner p i vs out)"
  "gm_ok out \<Longrightarrow> gm_ok (resolveMapInner m out)"
  by (induction p i vs out and m out rule: resolveListInner_resolveMapInner.induct)
    (auto split: gval.splits)

lemma gm_ok_fold_put: "gm_ok m' \<Longrightarrow> gm_ok (fold (\<lambda>(k, v). gm_put k v) m m')"
  by (induction m arbitrary: m') auto

lemma processResult_ok: "gm_ok (processResult q out)"
  by (cases out) (auto simp: processResult_def defaultMapping_def resolve_inner_ok gm_ok_fold_put)

lemma Resolve_ok: "gm_ok (Resolve lib r q obj)"
  by (cases r) (auto simp: unstructured_Resolve_def cel_Resolve_def defaultMapping_def processResult_ok
      split: prod.splits cel_outcome.splits)

end
