(* ===== verification/API_Types.thy ===== *)
theory API_Types
  imports Go_Base
begin

text \<open>
  \<open>pkg/apis/resourcestatemetrics/v1alpha1/types.go\<close>: the custom resource. A configuration holds
  stores, a store families, a family metrics, and labels attach at each level. The status is the
  list of conditions and the last cardinality report. Fields of the upstream
  \<open>metav1.ObjectMeta\<close> appear as far as the code reads or writes them.
\<close>

section \<open>The specification\<close>

datatype resolver_type =
    ResolverTypeNone | ResolverTypeCEL | ResolverTypeUnstructured | ResolverTypeStarlark
  | ResolverTypeUnknown string

record label =
  lb_Name :: string
  lb_Value :: string

record starlark_config =
  sc_Script :: string
  sc_Timeout :: int
  sc_MaxSteps :: int

record metric =
  mt_Labels :: "label list"
  mt_Value :: string
  mt_Resolver :: resolver_type

record family_spec =
  fs_Name :: string
  fs_Help :: string
  fs_Metrics :: "metric list"
  fs_Starlark :: "starlark_config option"
  fs_Resolver :: resolver_type
  fs_Labels :: "label list"
  fs_CardinalityLimit :: int64

record selectors =
  sel_Label :: string
  sel_Field :: string

record store_spec =
  ss_Group :: string
  ss_Version :: string
  ss_Kind :: string
  ss_Resource :: string
  ss_Selectors :: selectors
  ss_Families :: "family_spec list"
  ss_Resolver :: resolver_type
  ss_Labels :: "label list"
  ss_CardinalityLimit :: int64

record configuration =
  cf_Stores :: "store_spec list"
  cf_CardinalityLimit :: int64

section \<open>The status\<close>

datatype condition_status = ConditionTrue | ConditionFalse | ConditionUnknown

record condition =
  cd_Type :: string
  cd_Status :: condition_status
  cd_ObservedGeneration :: int64
  cd_LastTransitionTime :: int
  cd_Reason :: string
  cd_Message :: string

record cardinality_status =
  cs_Total :: int64
  cs_PerStore :: "(string, int64) gomap"
  cs_PerFamily :: "(string, int64) gomap"
  cs_ThresholdsExceeded :: bool
  cs_CutoffFamilies :: "string list"
  cs_LastUpdated :: int

record rmm_status =
  st_Conditions :: "condition list"
  st_Cardinality :: "cardinality_status option"

record monitor =
  rmm_Namespace :: string
  rmm_Name :: string
  rmm_UID :: uid
  rmm_Generation :: int64
  rmm_ResourceVersion :: string
  rmm_Labels :: "(string, string) gomap"
  rmm_Spec :: configuration
  rmm_Status :: rmm_status

text \<open>The \<open>iota\<close> constants and the tables indexed by them.\<close>

definition ConditionTypeProcessed :: nat where "ConditionTypeProcessed = 0"
definition ConditionTypeFailed :: nat where "ConditionTypeFailed = 1"
definition ConditionTypeCardinalityWarning :: nat where "ConditionTypeCardinalityWarning = 2"
definition ConditionTypeCardinalityCutoff :: nat where "ConditionTypeCardinalityCutoff = 3"

definition ConditionType :: "string list" where
  "ConditionType = [''Processed'', ''Failed'', ''CardinalityWarning'', ''CardinalityCutoff'']"

definition ConditionMessageTrue :: "string list" where
  "ConditionMessageTrue = [
     ''Resource configuration has been processed successfully'',
     ''Resource failed to process'',
     ''Cardinality is approaching threshold'',
     ''Cardinality threshold exceeded, metric generation cut off'']"

definition ConditionMessageFalse :: "string list" where
  "ConditionMessageFalse = [
     ''Resource configuration is yet to be processed'',
     ''N/A'',
     ''Cardinality is within acceptable limits'',
     ''Cardinality is within acceptable limits'']"

definition ConditionReasonTrue :: "string list" where
  "ConditionReasonTrue = [''EventHandlerSucceeded'', ''EventHandlerFailed'', ''CardinalityWarning'', ''CardinalityCutoff'']"

definition ConditionReasonFalse :: "string list" where
  "ConditionReasonFalse = [''EventHandlerRunning'', ''N/A'', ''CardinalityOK'', ''CardinalityOK'']"

definition slices_Index :: "'a list \<Rightarrow> 'a \<Rightarrow> nat option" where
  "slices_Index xs x = (let n = length (takeWhile (\<lambda>y. y \<noteq> x) xs)
     in if n < length xs then Some n else None)"

text \<open>The loop of \<open>Set\<close> that overwrites the first condition of the type, or appends one.\<close>

fun put_condition :: "condition \<Rightarrow> condition list \<Rightarrow> condition list" where
  "put_condition c [] = [c]"
| "put_condition c (d # ds) = (if cd_Type d = cd_Type c then c # ds else d # put_condition c ds)"

text \<open>
  \<open>Set\<close>. The index of an unknown type is \<open>-1\<close>, and indexing the tables with it panics: the
  result is \<open>None\<close>. The clock is a parameter.
\<close>

definition status_Set ::
    "int \<Rightarrow> monitor \<Rightarrow> condition \<Rightarrow> rmm_status \<Rightarrow> rmm_status option" where
  "status_Set now resource c status =
     (case slices_Index ConditionType (cd_Type c) of
        None \<Rightarrow> None
      | Some i \<Rightarrow>
          (let (reason, message) =
                 (if cd_Status c = ConditionTrue
                  then (ConditionReasonTrue ! i, ConditionMessageTrue ! i)
                  else (ConditionReasonFalse ! i, ConditionMessageFalse ! i));
               reason = (if cd_Reason c \<noteq> [] then cd_Reason c else reason);
               c = c\<lparr>cd_Reason := reason, cd_Message := message, cd_LastTransitionTime := now,
                     cd_ObservedGeneration := rmm_Generation resource\<rparr>
           in Some (status\<lparr>st_Conditions := put_condition c (st_Conditions status)\<rparr>)))"

section \<open>The list of conditions is keyed by type\<close>

definition conditions_ok :: "condition list \<Rightarrow> bool" where
  "conditions_ok cs \<longleftrightarrow> distinct (map cd_Type cs)"

definition find_condition :: "string \<Rightarrow> condition list \<Rightarrow> condition option" where
  "find_condition t cs = find (\<lambda>c. cd_Type c = t) cs"

lemma put_condition_types: "cd_Type ` set (put_condition c cs) = insert (cd_Type c) (cd_Type ` set cs)"
  by (induction cs) auto

lemma put_condition_ok: "conditions_ok cs \<Longrightarrow> conditions_ok (put_condition c cs)"
proof (induction cs)
  case (Cons d ds)
  then show ?case using put_condition_types [of c ds] by (auto simp: conditions_ok_def)
qed (simp add: conditions_ok_def)

lemma find_put_condition:
  "find_condition t (put_condition c cs) = (if t = cd_Type c then Some c else find_condition t cs)"
  by (induction cs) (auto simp: find_condition_def)

lemma ConditionType_index:
  assumes "i < length ConditionType"
  shows "slices_Index ConditionType (ConditionType ! i) = Some i"
proof -
  have "i \<in> {0, 1, 2, 3}" using assms by (auto simp: ConditionType_def)
  then show ?thesis by (auto simp: slices_Index_def ConditionType_def)
qed

text \<open>Setting the condition of the \<open>i\<close>-th type succeeds, keeps the condition list keyed by type
  (one entry per type), leaves every other type alone, and stores the given status with the
  \<open>i\<close>-th message of its table, the caller's reason or else the table's, the generation of the
  resource and the time.\<close>

theorem status_Set_keyed:
  assumes "i < length ConditionType" and "cd_Type c = ConditionType ! i"
    and "conditions_ok (st_Conditions s)"
  shows "\<exists>s'. status_Set now r c s = Some s'
     \<and> conditions_ok (st_Conditions s') \<and> st_Cardinality s' = st_Cardinality s
     \<and> (\<forall>t. t \<noteq> cd_Type c \<longrightarrow> find_condition t (st_Conditions s') = find_condition t (st_Conditions s))
     \<and> find_condition (cd_Type c) (st_Conditions s') = Some
          \<lparr>cd_Type = ConditionType ! i, cd_Status = cd_Status c,
           cd_ObservedGeneration = rmm_Generation r, cd_LastTransitionTime = now,
           cd_Reason = (if cd_Reason c \<noteq> [] then cd_Reason c
                        else if cd_Status c = ConditionTrue then ConditionReasonTrue ! i
                        else ConditionReasonFalse ! i),
           cd_Message = (if cd_Status c = ConditionTrue then ConditionMessageTrue ! i
                         else ConditionMessageFalse ! i)\<rparr>"
  using assms ConditionType_index [OF assms(1)]
  by (auto simp: status_Set_def find_put_condition put_condition_ok)

definition some_condition :: "string \<Rightarrow> condition_status \<Rightarrow> condition" where
  "some_condition t s = \<lparr>cd_Type = t, cd_Status = s, cd_ObservedGeneration = 0,
     cd_LastTransitionTime = 0, cd_Reason = [], cd_Message = []\<rparr>"

theorem status_Set_keyed_witness:
  "\<forall>r. \<exists>s'. status_Set 7 r (some_condition ''Failed'' ConditionTrue) \<lparr>st_Conditions = [], st_Cardinality = None\<rparr>
     = Some s' \<and> conditions_ok (st_Conditions s')"
  using status_Set_keyed [of 1 "some_condition ''Failed'' ConditionTrue"
      "\<lparr>st_Conditions = [], st_Cardinality = None\<rparr>" 7]
  by (fastforce simp: some_condition_def ConditionType_def conditions_ok_def)

end
