(* ===== verification/Starlark.thy ===== *)
theory Starlark
  imports Resolvers API_Types
begin

text \<open>
  \<open>pkg/resolver/starlark.go\<close>: the conversion of the object to Starlark values, the builtins that
  scripts call, and the extraction of families from the script's \<open>families\<close> variable. Executing
  the script, printing a value and the \<open>int64\<close> of an integer outside its range belong to the
  Starlark library: the fields of \<open>starlark_lib\<close>.
\<close>

datatype sval =
    SNone
  | SBool bool
  | SInt int
  | SFloat float64
  | SString string
  | SList "sval list"
  | SDict "(sval \<times> sval) list"
  | SOther string string

datatype starlark_outcome = StarTimeout | StarExecError | StarGlobals "(string, sval) gomap"

record starlark_lib = resolver_lib +
  starlark_exec :: "string \<Rightarrow> int \<Rightarrow> int \<Rightarrow> sval \<Rightarrow> starlark_outcome"
  starlark_String :: "sval \<Rightarrow> string"
  starlark_Int64 :: "int \<Rightarrow> int64"

record resolved_sample =
  rs_Labels :: "(string, string) gomap"
  rs_Value :: float64

record resolved_family =
  rf_Name :: string
  rf_Help :: string
  rf_Kind :: string
  rf_Samples :: "resolved_sample list"

record starlark_resolver =
  sr_script :: string
  sr_timeout :: int
  sr_maxSteps :: int

datatype starlark_error =
    SErrTimeout
  | SErrExec
  | SErrNoFamilies
  | SErrNotList string
  | SErrNotDict string
  | SErrMissing string
  | SErrNotString string string
  | SErrLabelKey string
  | SErrNotNumber string
  | SErrKind string

definition StarlarkDefaultTimeout :: int where "StarlarkDefaultTimeout = 5"
definition StarlarkDefaultMaxSteps :: int where "StarlarkDefaultMaxSteps = 100000"

text \<open>Durations are nanoseconds.\<close>

definition NewStarlarkResolver :: "string \<Rightarrow> int \<Rightarrow> int \<Rightarrow> starlark_resolver" where
  "NewStarlarkResolver script timeout maxSteps =
     \<lparr>sr_script = script,
      sr_timeout = (if timeout = 0 then StarlarkDefaultTimeout * 1000000000 else timeout),
      sr_maxSteps = (if maxSteps = 0 then StarlarkDefaultMaxSteps else maxSteps)\<rparr>"

fun sval_type :: "sval \<Rightarrow> string" where
  "sval_type SNone = ''NoneType''"
| "sval_type (SBool _) = ''bool''"
| "sval_type (SInt _) = ''int''"
| "sval_type (SFloat _) = ''float''"
| "sval_type (SString _) = ''string''"
| "sval_type (SList _) = ''list''"
| "sval_type (SDict _) = ''dict''"
| "sval_type (SOther t _) = t"

text \<open>\<open>SetKey\<close> and \<open>Get\<close> of a dict: insertion order, keys distinct.\<close>

abbreviation SetKey :: "sval \<Rightarrow> sval \<Rightarrow> (sval \<times> sval) list \<Rightarrow> (sval \<times> sval) list" where
  "SetKey \<equiv> AList.update"

section \<open>The object as a Starlark value\<close>

fun goToStarlark :: "gval \<Rightarrow> sval" where
  "goToStarlark GNil = SNone"
| "goToStarlark (GBool b) = SBool b"
| "goToStarlark (GInt w) = SInt (sint w)"
| "goToStarlark (GFloat x) = SFloat x"
| "goToStarlark (GString s) = SString s"
| "goToStarlark (GSlice vs) = SList (map goToStarlark vs)"
| "goToStarlark (GMap m) = SDict (fold (\<lambda>(k, v). SetKey (SString k) v) (map (\<lambda>(k, v). (k, goToStarlark v)) m) [])"
| "goToStarlark v = SString (format_v v)"

section \<open>The builtins\<close>

definition metricBuiltin :: "(sval \<times> sval) list \<Rightarrow> float64 \<Rightarrow> sval" where
  "metricBuiltin labels value =
     SDict (SetKey (SString ''value'') (SFloat value) (SetKey (SString ''labels'') (SDict labels) []))"

definition familyBuiltin :: "string \<Rightarrow> string \<Rightarrow> string \<Rightarrow> sval list \<Rightarrow> starlark_error + sval" where
  "familyBuiltin name help kind samples =
     (if \<not> IsValidMetricKind kind then Inl (SErrKind kind)
      else Inr (SDict (SetKey (SString ''samples'') (SList samples)
             (SetKey (SString ''kind'') (SString kind)
               (SetKey (SString ''help'') (SString help)
                 (SetKey (SString ''name'') (SString name) []))))))"

fun label_prefix_loop ::
    "string \<Rightarrow> (sval \<times> sval) list \<Rightarrow> (sval \<times> sval) list \<Rightarrow> starlark_error + (sval \<times> sval) list" where
  "label_prefix_loop prefix [] result = Inr result"
| "label_prefix_loop prefix ((k, v) # items) result =
     (case k of
        SString key \<Rightarrow>
          label_prefix_loop prefix items (SetKey (SString (prefix @ SanitizeLabelKey key)) v result)
      | _ \<Rightarrow> Inl (SErrLabelKey (sval_type k)))"

definition labelPrefixBuiltin :: "(sval \<times> sval) list \<Rightarrow> string \<Rightarrow> starlark_error + sval" where
  "labelPrefixBuiltin labels prefix =
     (case label_prefix_loop prefix labels [] of Inl e \<Rightarrow> Inl e | Inr d \<Rightarrow> Inr (SDict d))"

definition quantityToFloat :: "'a starlark_lib_scheme \<Rightarrow> string \<Rightarrow> sval option" where
  "quantityToFloat lib s = map_option SFloat (ParseQuantity lib s)"

section \<open>Extracting the families\<close>

definition getDictString :: "(sval \<times> sval) list \<Rightarrow> string \<Rightarrow> starlark_error + string" where
  "getDictString dict key =
     (case map_of dict (SString key) of
        None \<Rightarrow> Inl (SErrMissing key)
      | Some v \<Rightarrow> (case v of SString s \<Rightarrow> Inr s | _ \<Rightarrow> Inl (SErrNotString key (sval_type v))))"

definition label_value :: "'a starlark_lib_scheme \<Rightarrow> sval \<Rightarrow> string" where
  "label_value lib v =
     (case v of
        SString s \<Rightarrow> s
      | SInt i \<Rightarrow> Itoa (if - (2 ^ 63) \<le> i \<and> i < 2 ^ 63 then i else sint (starlark_Int64 lib i))
      | SFloat x \<Rightarrow> format_g_shortest x
      | SBool b \<Rightarrow> format_bool b
      | _ \<Rightarrow> starlark_String lib v)"

fun extract_label_items ::
    "'a starlark_lib_scheme \<Rightarrow> (sval \<times> sval) list \<Rightarrow> (string, string) gomap
      \<Rightarrow> starlark_error + (string, string) gomap" where
  "extract_label_items lib [] labels = Inr labels"
| "extract_label_items lib ((k, v) # items) labels =
     (case k of
        SString key \<Rightarrow> extract_label_items lib items (gm_put key (label_value lib v) labels)
      | _ \<Rightarrow> Inl (SErrLabelKey (sval_type k)))"

definition extractLabels :: "'a starlark_lib_scheme \<Rightarrow> sval \<Rightarrow> starlark_error + (string, string) gomap" where
  "extractLabels lib v =
     (case v of SDict items \<Rightarrow> extract_label_items lib items [] | _ \<Rightarrow> Inl (SErrNotDict (sval_type v)))"

definition extractFloat :: "sval \<Rightarrow> starlark_error + float64" where
  "extractFloat v =
     (case v of SFloat x \<Rightarrow> Inr x | SInt i \<Rightarrow> Inr (f64_of_int i) | _ \<Rightarrow> Inl (SErrNotNumber (sval_type v)))"

definition extractSample :: "'a starlark_lib_scheme \<Rightarrow> sval \<Rightarrow> starlark_error + resolved_sample" where
  "extractSample lib v =
     (case v of
        SDict dict \<Rightarrow>
          (case map_of dict (SString ''labels'') of
             None \<Rightarrow> Inl (SErrMissing ''labels'')
           | Some labelsVal \<Rightarrow>
               (case extractLabels lib labelsVal of
                  Inl e \<Rightarrow> Inl e
                | Inr labels \<Rightarrow>
                    (case map_of dict (SString ''value'') of
                       None \<Rightarrow> Inl (SErrMissing ''value'')
                     | Some valueVal \<Rightarrow>
                         (case extractFloat valueVal of
                            Inl e \<Rightarrow> Inl e
                          | Inr value \<Rightarrow> Inr \<lparr>rs_Labels = labels, rs_Value = value\<rparr>))))
      | _ \<Rightarrow> Inl (SErrNotDict (sval_type v)))"

text \<open>The iteration of \<open>extractSamples\<close> and \<open>extractFamilies\<close>: the first error ends it.\<close>

fun traverse :: "('a \<Rightarrow> 'e + 'b) \<Rightarrow> 'a list \<Rightarrow> 'e + 'b list" where
  "traverse f [] = Inr []"
| "traverse f (x # xs) =
     (case f x of Inl e \<Rightarrow> Inl e
      | Inr y \<Rightarrow> (case traverse f xs of Inl e \<Rightarrow> Inl e | Inr ys \<Rightarrow> Inr (y # ys)))"

definition extractSamples :: "'a starlark_lib_scheme \<Rightarrow> sval \<Rightarrow> starlark_error + resolved_sample list" where
  "extractSamples lib v =
     (case v of SList l \<Rightarrow> traverse (extractSample lib) l | _ \<Rightarrow> Inl (SErrNotList (sval_type v)))"

definition extractFamily :: "'a starlark_lib_scheme \<Rightarrow> sval \<Rightarrow> starlark_error + resolved_family" where
  "extractFamily lib v =
     (case v of
        SDict dict \<Rightarrow>
          (case getDictString dict ''name'' of Inl e \<Rightarrow> Inl e | Inr name \<Rightarrow>
          (case getDictString dict ''help'' of Inl e \<Rightarrow> Inl e | Inr help \<Rightarrow>
          (case getDictString dict ''kind'' of Inl e \<Rightarrow> Inl e | Inr kind \<Rightarrow>
          (case map_of dict (SString ''samples'') of
             None \<Rightarrow> Inl (SErrMissing ''samples'')
           | Some samplesVal \<Rightarrow>
               (case extractSamples lib samplesVal of
                  Inl e \<Rightarrow> Inl e
                | Inr samples \<Rightarrow>
                    Inr \<lparr>rf_Name = name, rf_Help = help, rf_Kind = kind, rf_Samples = samples\<rparr>)))))
      | _ \<Rightarrow> Inl (SErrNotDict (sval_type v)))"

definition extractFamilies :: "'a starlark_lib_scheme \<Rightarrow> sval \<Rightarrow> starlark_error + resolved_family list" where
  "extractFamilies lib v =
     (case v of SList l \<Rightarrow> traverse (extractFamily lib) l | _ \<Rightarrow> Inl (SErrNotList (sval_type v)))"

text \<open>\<open>Resolve\<close> with \<open>resolveWithSteps\<close>.\<close>

definition starlark_Resolve ::
    "'a starlark_lib_scheme \<Rightarrow> starlark_resolver \<Rightarrow> object \<Rightarrow> starlark_error + resolved_family list" where
  "starlark_Resolve lib sr obj =
     (case starlark_exec lib (sr_script sr) (sr_timeout sr) (sr_maxSteps sr) (goToStarlark (GMap obj)) of
        StarTimeout \<Rightarrow> Inl SErrTimeout
      | StarExecError \<Rightarrow> Inl SErrExec
      | StarGlobals globals \<Rightarrow>
          (case map_of globals ''families'' of
             None \<Rightarrow> Inl SErrNoFamilies
           | Some familiesVar \<Rightarrow> extractFamilies lib familiesVar))"

section \<open>Properties\<close>

lemma traverse_map: "(\<And>x. x \<in> set xs \<Longrightarrow> f (g x) = Inr (h x)) \<Longrightarrow> traverse f (map g xs) = Inr (map h xs)"
  by (induction xs) auto

lemma extract_label_items_strings:
  "gm_ok (done @ ls) \<Longrightarrow>
   extract_label_items lib (map (\<lambda>(k, v). (SString k, SString v)) ls) done = Inr (done @ ls)"
proof (induction ls arbitrary: "done")
  case (Cons p ls)
  obtain k v where p: "p = (k, v)" by fastforce
  have "k \<notin> fst ` set done" using Cons.prems by (auto simp: gm_ok_def p)
  then show ?case
    using Cons.IH [of "done @ [(k, v)]"] Cons.prems by (simp add: p label_value_def gm_put_fresh)
qed simp

text \<open>The script-side value of a sample with string labels.\<close>

definition script_sample :: "resolved_sample \<Rightarrow> sval" where
  "script_sample s = metricBuiltin (map (\<lambda>(k, v). (SString k, SString v)) (rs_Labels s)) (rs_Value s)"

text \<open>C35: what a script builds with \<open>metric\<close> and \<open>family\<close> is what the resolver extracts: name,
  help, kind and every sample's labels and value come back unchanged, for every supported kind;
  an unsupported kind is refused when the family is built.\<close>

theorem starlark_family_roundtrip:
  assumes "list_all (\<lambda>s. gm_ok (rs_Labels s)) ss"
  shows "(IsValidMetricKind kind \<longrightarrow>
       (\<exists>v. familyBuiltin name help kind (map script_sample ss) = Inr v
          \<and> extractFamilies lib (SList [v])
             = Inr [\<lparr>rf_Name = name, rf_Help = help, rf_Kind = kind, rf_Samples = ss\<rparr>]))
     \<and> (\<not> IsValidMetricKind kind \<longrightarrow> familyBuiltin name help kind (map script_sample ss) = Inl (SErrKind kind))"
proof -
  have "extractSample lib (script_sample s) = Inr s" if "s \<in> set ss" for s
    using that assms extract_label_items_strings [of "[]" "rs_Labels s" lib]
    by (simp add: extractSample_def script_sample_def metricBuiltin_def extractLabels_def
        extractFloat_def list_all_iff)
  then have "traverse (extractSample lib) (map script_sample ss) = Inr ss"
    using traverse_map [of ss "extractSample lib" script_sample "\<lambda>s. s"] by simp
  then show ?thesis
    by (simp add: familyBuiltin_def extractFamilies_def extractFamily_def getDictString_def
        extractSamples_def)
qed

theorem starlark_family_roundtrip_witness:
  "\<forall>lib. \<exists>v. familyBuiltin ''f'' ''h'' ''gauge'' [script_sample \<lparr>rs_Labels = [(''a'', ''b'')], rs_Value = f64_one\<rparr>] = Inr v
     \<and> extractFamilies lib (SList [v]) = Inr [\<lparr>rf_Name = ''f'', rf_Help = ''h'', rf_Kind = ''gauge'',
          rf_Samples = [\<lparr>rs_Labels = [(''a'', ''b'')], rs_Value = f64_one\<rparr>]\<rparr>]"
  apply (rule allI)
  subgoal for lib
  using starlark_family_roundtrip [of "[\<lparr>rs_Labels = [(''a'', ''b'')], rs_Value = f64_one\<rparr>]" "''gauge''" "''f''" "''h''" lib]
  by (simp add: IsValidMetricKind_def SupportedMetricKinds_def)
  done

end
