(* ===== verification/Label_Sets.thy ===== *)
theory Label_Sets
  imports Starlark
begin

text \<open>
  The label half of \<open>internal/family.go\<close>: sanitising and sorting label keys, collecting the
  indexed values of a resolved list, and resolving the labels and the value of a metric.
  \<open>strcase.ToSnake\<close> is a library function, and \<open>slices.SortFunc\<close> promises a sorted permutation
  but no stability: both are fields of \<open>metric_lib\<close>, the sort as the permutation it produces,
  with the promise stated by the locale \<open>index_sorter\<close>.
\<close>

record metric_lib = starlark_lib +
  ToSnake :: "string \<Rightarrow> string"
  SortIndices :: "string list \<Rightarrow> nat list"

section \<open>The contract of the sort\<close>

definition apply_idx :: "nat list \<Rightarrow> 'a list \<Rightarrow> 'a list" where
  "apply_idx idx s = map (\<lambda>i. s ! i) idx"

lemma length_apply_idx [simp]: "length (apply_idx idx s) = length idx"
  by (simp add: apply_idx_def)

lemma mset_apply_idx: "mset idx = mset [0..<length s] \<Longrightarrow> mset (apply_idx idx s) = mset s"
  by (metis apply_idx_def map_nth mset_map)

lemma zip_apply_idx: "mset idx = mset [0..<length s] \<Longrightarrow> length t = length s \<Longrightarrow>
    zip (apply_idx idx s) (apply_idx idx t) = apply_idx idx (zip s t)"
proof -
  assume idx: "mset idx = mset [0..<length s]" and t: "length t = length s"
  from idx have "\<forall>i \<in> set idx. i < length s" by (metis atLeastLessThan_iff mset_eq_setD set_upt)
  then show ?thesis using t by (simp add: apply_idx_def list_eq_iff_nth_eq)
qed

locale index_sorter =
  fixes srt :: "string list \<Rightarrow> nat list"
  assumes perm: "mset (srt ks) = mset [0..<length ks]"
    and sorts: "sorted (apply_idx (srt ks) ks)"
begin

lemma length_srt [simp]: "length (srt ks) = length ks"
  using arg_cong [OF perm, of size ks] by simp

lemma keys_perm: "mset (apply_idx (srt ks) ks) = mset ks"
  by (rule mset_apply_idx) (rule perm)

lemma values_perm: "length vs = length ks \<Longrightarrow> mset (apply_idx (srt ks) vs) = mset vs"
  using perm [of ks] by (intro mset_apply_idx) simp

lemma pairs_perm:
  "length vs = length ks \<Longrightarrow>
   mset (zip (apply_idx (srt ks) ks) (apply_idx (srt ks) vs)) = mset (zip ks vs)"
  using perm [of ks] by (simp add: zip_apply_idx mset_apply_idx)

lemma keys_sorted: "apply_idx (srt ks) ks = sort ks"
  using keys_perm sorts by (intro properties_for_sort [symmetric]) simp_all

end

text \<open>
  The algorithm of the standard library for up to twelve elements, insertion sort, which is the
  stable sort, meets the contract.
\<close>

definition insertion_indices :: "string list \<Rightarrow> nat list" where
  "insertion_indices ks = sort_key (\<lambda>i. ks ! i) [0..<length ks]"

interpretation insertion: index_sorter insertion_indices
  by unfold_locales (simp_all add: insertion_indices_def apply_idx_def)

section \<open>Sanitising and sorting\<close>

text \<open>\<open>nonWordRegex\<close> replaces every rune that is not an ASCII word character.\<close>

definition replace_non_word :: "string \<Rightarrow> string" where
  "replace_non_word s =
     concat (map (\<lambda>r. if length r = 1 \<and> list_all word_char r then r else ''_'') (runes s))"

definition sanitizeKey :: "'a metric_lib_scheme \<Rightarrow> string \<Rightarrow> string" where
  "sanitizeKey lib s = ToSnake lib (replace_non_word s)"

definition sortLabels ::
    "'a metric_lib_scheme \<Rightarrow> string list \<Rightarrow> string list list \<Rightarrow> string list \<times> string list list" where
  "sortLabels lib keys parallel =
     (let indices = SortIndices lib keys
      in (apply_idx indices keys,
          map (\<lambda>p. if length p = length keys then apply_idx indices p else p) parallel))"

section \<open>Indexed values\<close>

text \<open>\<open>listIndexRegex\<close>, unanchored: any character but a line feed, \<open>#\<close>, a digit.\<close>

fun listIndexRegex :: "string \<Rightarrow> bool" where
  "listIndexRegex (a # b # c # s) =
     (a \<noteq> CHR 0x0A \<and> b = CHR ''#'' \<and> is_digit c \<or> listIndexRegex (b # c # s))"
| "listIndexRegex _ = False"

text \<open>The index of a key, if it is one the loop stages.\<close>

definition key_index :: "nat \<Rightarrow> string \<Rightarrow> nat option" where
  "key_index n k =
     (case LastIndexByte k (CHR ''#'') of
        None \<Rightarrow> None
      | Some hash \<Rightarrow>
          (let suffix = drop (Suc hash) k
           in if suffix = [] \<or> hd suffix = CHR ''+'' \<or> hd suffix = CHR ''-''
                 \<or> (hd suffix = CHR ''0'' \<and> 1 < length suffix) then None
              else (case Atoi suffix of None \<Rightarrow> None
                  | Some i \<Rightarrow> if int n \<le> i then None else Some (nat i))))"

text \<open>\<open>staged\<close> and \<open>present\<close> in one list; never allocated is the same as nowhere present.\<close>

definition stage_values :: "(string, string) gomap \<Rightarrow> string option list" where
  "stage_values resolved =
     fold (\<lambda>(k, v) staged. case key_index (length resolved) k of
              None \<Rightarrow> staged | Some i \<Rightarrow> staged[i := Some v])
       resolved (replicate (length resolved) None)"

definition collectIndexedResolvedValues :: "(string, string) gomap \<Rightarrow> string list" where
  "collectIndexedResolvedValues resolved =
     map the (takeWhile (\<lambda>v. v \<noteq> None) (stage_values resolved))"

section \<open>Resolving labels and the value\<close>

definition expandedValueSentinel :: string where
  "expandedValueSentinel = [CHR 0x00]"

type_synonym expanded = "(string, string list) gomap"

definition add_map_entries ::
    "'a metric_lib_scheme \<Rightarrow> label \<Rightarrow> (string, string) gomap \<Rightarrow> string list \<times> string list
      \<Rightarrow> string list \<times> string list" where
  "add_map_entries lib label resolved =
     fold (\<lambda>(k, v) (keys, vals).
         if listIndexRegex k then (keys, vals)
         else (keys @ [if HasPrefix (lb_Name label) ''_'' then sanitizeKey lib k
                       else sanitizeKey lib (lb_Name label @ k)],
               vals @ [v]))
       resolved"

definition resolve_label ::
    "'a metric_lib_scheme \<Rightarrow> (string \<Rightarrow> (string, string) gomap) \<Rightarrow> label
      \<Rightarrow> string list \<times> string list \<times> expanded \<Rightarrow> string list \<times> string list \<times> expanded" where
  "resolve_label lib res label = (\<lambda>(keys, vals, expanded).
     (let resolved = res (lb_Value label) in
      case map_of resolved (lb_Value label) of
        Some val \<Rightarrow> (keys @ [sanitizeKey lib (lb_Name label)], vals @ [val], expanded)
      | None \<Rightarrow>
          (let sanitizedName = sanitizeKey lib (lb_Name label);
               expanded = gm_put sanitizedName
                 (gm_get [] expanded sanitizedName @ collectIndexedResolvedValues resolved) expanded;
               (keys, vals) = add_map_entries lib label resolved (keys, vals)
           in (keys, vals, expanded))))"

definition resolveLabels ::
    "'a metric_lib_scheme \<Rightarrow> label list \<Rightarrow> (string \<Rightarrow> (string, string) gomap)
      \<Rightarrow> string list \<times> string list \<times> expanded" where
  "resolveLabels lib labels res =
     (let (keys, vals, expanded) = fold (resolve_label lib res) labels ([], [], []);
          (keys, parallel) = sortLabels lib keys [vals]
      in (keys, hd parallel, expanded))"

datatype metric_value = ValueOK string | ValueSkip | ValueError

definition resolveMetricValue ::
    "(string \<Rightarrow> (string, string) gomap) \<Rightarrow> string \<Rightarrow> expanded \<Rightarrow> metric_value \<times> expanded" where
  "resolveMetricValue res valueExpr expanded =
     (let resolved = res valueExpr in
      if resolved = [] then (ValueSkip, expanded)
      else (case map_of resolved valueExpr of
          Some v \<Rightarrow> (ValueOK v, expanded)
        | None \<Rightarrow>
            (let expandedValues = collectIndexedResolvedValues resolved in
             if expandedValues = [] then (ValueError, expanded)
             else (ValueOK [], gm_put expandedValueSentinel expandedValues expanded))))"

text \<open>The smallest key, with the source's loop: \<open>sortKey == "" || k < sortKey\<close>.\<close>

definition anchor_key :: "expanded \<Rightarrow> string" where
  "anchor_key expanded = fold (\<lambda>(k, _) sortKey. if sortKey = [] \<or> k < sortKey then k else sortKey) expanded []"

definition extractAndSortExpandedMetricValues ::
    "'a metric_lib_scheme \<Rightarrow> expanded \<Rightarrow> string list \<times> expanded" where
  "extractAndSortExpandedMetricValues lib expanded =
     (let expandedValues = gm_get [] expanded expandedValueSentinel;
          expanded = gm_del expandedValueSentinel expanded
      in if expanded = [] then (expandedValues, expanded)
         else
           (let sortKey = anchor_key expanded; anchor = gm_get [] expanded sortKey
            in if length expandedValues \<noteq> length anchor then (expandedValues, expanded)
               else
                 (let others = filter (\<lambda>(k, _). k \<noteq> sortKey) expanded;
                      (anchor', parallel) = sortLabels lib anchor (map snd others @ [expandedValues])
                  in (last parallel,
                      map (\<lambda>(k, vs). (k, if k = sortKey then anchor'
                          else gm_get [] (zip (map fst others) parallel) k)) expanded))))"

section \<open>Collecting indexed values\<close>

lemma LastIndex_suffix: "LastIndexByte (index_suffix p i) (CHR ''#'') = Some (length p)"
proof -
  have "CHR ''#'' \<notin> set (Itoa (int i))"
    using digit_in_dec_nat [of "CHR ''#''" i] by (auto simp: Itoa_def)
  then show ?thesis using LastIndexByte_append [of "CHR ''#''" "Itoa (int i)" p]
    by (simp add: index_suffix_def)
qed

lemma dec_nat_hd: "0 < n \<Longrightarrow> hd (dec_nat n) \<noteq> CHR ''0''"
proof (induction n rule: dec_nat.induct)
  case (1 n)
  show ?case
  proof (cases "n < 10")
    case True
    have "dec_digit n \<noteq> CHR ''0''"
    proof
      assume "dec_digit n = CHR ''0''"
      then have "digit_val (CHR ''0'') = n" using digit_val_dec_digit [OF True] by simp
      then show False using 1(2) by (simp add: digit_val_def)
    qed
    moreover have "dec_nat n = [dec_digit n]" using True dec_nat.simps [of n] by simp
    ultimately show ?thesis by simp
  next
    case False
    have "dec_nat n = dec_nat (n div 10) @ [dec_digit (n mod 10)]"
      using False dec_nat.simps [of n] by simp
    then show ?thesis using 1(1) False by simp
  qed
qed

lemma key_index_suffix: "n < 2 ^ 63 \<Longrightarrow> key_index n (index_suffix p i) = (if i < n then Some i else None)"
proof -
  assume n: "n < 2 ^ 63"
  have drop: "drop (Suc (length p)) (index_suffix p i) = dec_nat i"
    by (simp add: index_suffix_def Itoa_def)
  have "is_digit (hd (dec_nat i))" using digit_in_dec_nat [of "hd (dec_nat i)" i] by simp
  then have sign: "hd (dec_nat i) \<noteq> CHR ''+''" "hd (dec_nat i) \<noteq> CHR ''-''" by auto
  have zero: "\<not> (hd (dec_nat i) = CHR ''0'' \<and> Suc 0 < length (dec_nat i))"
    using dec_nat_hd [of i] by (cases "i = 0") (auto simp: dec_nat.simps)
  show ?thesis
  proof (cases "i < 2 ^ 63")
    case True
    then show ?thesis
      using sign zero by (auto simp: key_index_def LastIndex_suffix drop Atoi_dec_nat Let_def)
  next
    case False
    obtain c cs where s: "dec_nat i = c # cs" by (meson dec_nat_not_Nil list.exhaust)
    have "int (digits_val (c # cs)) = int i" using digits_val_dec_nat [of i] by (simp add: s)
    then have "Atoi (dec_nat i) = None" using False sign dec_nat_digits [of i]
      by (simp add: Atoi_def s)
    then show ?thesis using n False sign zero by (simp add: key_index_def LastIndex_suffix drop Let_def)
  qed
qed

text \<open>The entries that are staged, with their indices, and the array after the loop.\<close>

definition indexed_entries :: "nat \<Rightarrow> (string, string) gomap \<Rightarrow> (nat \<times> string) list" where
  "indexed_entries n m = List.map_filter (\<lambda>(k, v). map_option (\<lambda>i. (i, v)) (key_index n k)) m"

lemma indexed_entries_simps [simp]:
  "indexed_entries n [] = []"
  "indexed_entries n ((k, v) # m) =
     (case key_index n k of None \<Rightarrow> indexed_entries n m | Some i \<Rightarrow> (i, v) # indexed_entries n m)"
  "indexed_entries n (xs @ ys) = indexed_entries n xs @ indexed_entries n ys"
  by (auto simp: indexed_entries_def map_filter_simps map_filter_def split: option.splits)

lemma mset_indexed_entries: "mset m = mset m' \<Longrightarrow> mset (indexed_entries n m) = mset (indexed_entries n m')"
  by (simp add: indexed_entries_def map_filter_def mset_filter [symmetric] del: mset_filter)
    (simp add: mset_filter flip: image_mset_filter_mset_swap)

lemma staging_length:
  "length (fold (\<lambda>(k, v) st. case key_index n k of None \<Rightarrow> st | Some i \<Rightarrow> st[i := Some v]) m st) = length st"
  by (induction m arbitrary: st) (auto split: option.splits)

lemma staging_nth:
  "i < length st \<Longrightarrow>
   fold (\<lambda>(k, v) st. case key_index n k of None \<Rightarrow> st | Some i \<Rightarrow> st[i := Some v]) m st ! i =
     (case map_of (rev (indexed_entries n m)) i of None \<Rightarrow> st ! i | Some v \<Rightarrow> Some v)"
  by (induction m arbitrary: st)
    (auto simp: map_add_def nth_list_update split: option.splits if_splits)

lemma indexed_entries_none:
  "\<forall>k \<in> fst ` set m. CHR ''#'' \<notin> set k \<Longrightarrow> indexed_entries n m = []"
proof (induction m)
  case (Cons p m)
  then show ?case
    using LastIndexByte_None [of "fst p" "CHR ''#''"] by (cases p) (auto simp: key_index_def)
qed simp

definition list_entries :: "string \<Rightarrow> string list \<Rightarrow> (string, string) gomap" where
  "list_entries parent vs = map (\<lambda>j. (index_suffix parent j, vs ! j)) [0..<length vs]"

lemma indexed_list_entries:
  assumes "length vs \<le> n" and "n < 2 ^ 63"
  shows "indexed_entries n (list_entries parent vs) = map (\<lambda>j. (j, vs ! j)) [0..<length vs]"
proof -
  have "indexed_entries n (map (\<lambda>j. (index_suffix parent j, vs ! j)) js) = map (\<lambda>j. (j, vs ! j)) js"
    if "\<forall>j \<in> set js. j < length vs" for js
    using that assms by (induction js) (auto simp: key_index_suffix)
  then show ?thesis by (simp add: list_entries_def)
qed

lemma map_of_index_list: "map_of (map (\<lambda>j. (j, f j)) js) i = (if i \<in> set js then Some (f i) else None)"
  by (induction js) auto

text \<open>
  A resolved list comes back whole and in order. Whatever the iteration order of the
  resolver's map, and whatever entries without \<open>#\<close> stand beside them, the keys
  \<open>parent#0 ... parent#(n-1)\<close> are collected as exactly the list of their values, empty strings
  included.
\<close>

theorem collect_indexed_values:
  assumes "gm_same resolved (list_entries parent vs @ rest)"
    and "\<forall>k \<in> fst ` set rest. CHR ''#'' \<notin> set k"
    and "length resolved < 2 ^ 63"
  shows "collectIndexedResolvedValues resolved = vs"
proof -
  let ?n = "length resolved" and ?m = "length vs"
  have size: "?n = ?m + length rest"
  proof -
    have "mset resolved = mset (list_entries parent vs @ rest)" using assms(1) by (simp add: gm_same_def)
    then have "?n = length (list_entries parent vs @ rest)" by (rule mset_eq_length)
    then show ?thesis by (simp add: list_entries_def)
  qed
  have "mset (indexed_entries ?n resolved) = mset (indexed_entries ?n (list_entries parent vs @ rest))"
    using assms(1) by (intro mset_indexed_entries) (simp add: gm_same_def)
  also have "indexed_entries ?n (list_entries parent vs @ rest) = map (\<lambda>j. (j, vs ! j)) [0..<?m]"
    using assms size by (simp add: indexed_list_entries indexed_entries_none)
  finally have entries: "mset (rev (indexed_entries ?n resolved)) = mset (map (\<lambda>j. (j, vs ! j)) [0..<?m])"
    by simp
  have keys: "distinct (map fst (map (\<lambda>j. (j, vs ! j)) [0..<?m]))" by (simp add: comp_def)
  have "distinct (map fst (rev (indexed_entries ?n resolved)))"
    using keys entries by (metis mset_eq_imp_distinct_iff mset_map)
  then have "gm_same (rev (indexed_entries ?n resolved)) (map (\<lambda>j. (j, vs ! j)) [0..<?m])"
    unfolding gm_same_def gm_ok_def using keys entries by blast
  then have "map_of (rev (indexed_entries ?n resolved)) i = (if i < ?m then Some (vs ! i) else None)" for i
    by (simp add: gm_same_map_of map_of_index_list)
  then have "stage_values resolved ! i = (if i < ?m then Some (vs ! i) else None)" if "i < ?n" for i
    using that by (simp add: stage_values_def staging_nth)
  moreover have "length (stage_values resolved) = ?n" by (simp add: stage_values_def staging_length)
  ultimately have "stage_values resolved = map Some vs @ replicate (length rest) None"
    by (simp add: list_eq_iff_nth_eq size nth_append)
  moreover have "takeWhile (\<lambda>v. v \<noteq> None) (map Some vs @ replicate k None) = map Some vs" for k
    by (subst takeWhile_append2) (auto simp: takeWhile_eq_Nil_iff)
  ultimately show ?thesis by (simp add: collectIndexedResolvedValues_def comp_def)
qed

theorem collect_indexed_values_witness:
  "collectIndexedResolvedValues [(''v#1'', ''b''), (''x'', ''y''), (''v#0'', ''a'')] = [''a'', ''b'']"
proof -
  have "list_entries ''v'' [''a'', ''b''] = [(''v#0'', ''a''), (''v#1'', ''b'')]"
    by (simp add: list_entries_def index_suffix_def Itoa_def dec_nat.simps upt_rec)
  then show ?thesis
    by (intro collect_indexed_values [where parent = "''v''" and rest = "[(''x'', ''y'')]"])
      (simp_all add: gm_same_def)
qed

text \<open>
  The contract between the CEL resolver and the value and label expansion. A list of
  scalars in a CEL result is read back by the collector as the texts of its elements, in the
  order of the list.
\<close>

theorem cel_list_expands_in_order:
  assumes "list_all is_scalar vs" and "length vs < 2 ^ 63"
  shows "collectIndexedResolvedValues (processResult query (CELListNative vs)) = map format_v vs
       \<and> collectIndexedResolvedValues (processResult query (CELListRef vs)) = map format_v vs"
proof -
  let ?p = "resolved_field_parent query"
  have "resolveListInner ?p 0 vs [] = list_entries ?p (map format_v vs)"
    using resolve_scalars [OF assms(1), of "[]" ?p 0] by (simp add: list_entries_def)
  moreover have "gm_ok (list_entries ?p (map format_v vs))"
    using resolve_inner_ok(1) [of "[]" ?p 0 vs] calculation by simp
  ultimately have "collectIndexedResolvedValues (resolveListInner ?p 0 vs []) = map format_v vs"
    using assms(2)
    by (intro collect_indexed_values [where parent = ?p and rest = "[]"])
      (simp_all add: gm_same_def list_entries_def)
  then show ?thesis by (simp add: processResult_def)
qed

theorem cel_list_expands_in_order_witness:
  "collectIndexedResolvedValues (processResult ''o.spec.x'' (CELListNative [GString ''b'', GBool True]))
     = [''b'', ''true'']"
  using cel_list_expands_in_order [of "[GString ''b'', GBool True]" "''o.spec.x''"]
  by (simp add: format_bool_def)

section \<open>Resolving the labels of a metric\<close>

text \<open>What one label means: its own pairs, and its share of the expanded label set.\<close>

definition label_scalar :: "(string \<Rightarrow> (string, string) gomap) \<Rightarrow> label \<Rightarrow> bool" where
  "label_scalar res label \<longleftrightarrow> map_of (res (lb_Value label)) (lb_Value label) \<noteq> None"

definition label_pairs ::
    "'a metric_lib_scheme \<Rightarrow> (string \<Rightarrow> (string, string) gomap) \<Rightarrow> label \<Rightarrow> (string \<times> string) list" where
  "label_pairs lib res label =
     (case map_of (res (lb_Value label)) (lb_Value label) of
        Some val \<Rightarrow> [(sanitizeKey lib (lb_Name label), val)]
      | None \<Rightarrow> map (\<lambda>(k, v). (sanitizeKey lib (if HasPrefix (lb_Name label) ''_'' then k
                                  else lb_Name label @ k), v))
                  (filter (\<lambda>(k, v). \<not> listIndexRegex k) (res (lb_Value label))))"

definition label_expansion ::
    "'a metric_lib_scheme \<Rightarrow> (string \<Rightarrow> (string, string) gomap) \<Rightarrow> string \<Rightarrow> label \<Rightarrow> string list" where
  "label_expansion lib res s label =
     (if \<not> label_scalar res label \<and> sanitizeKey lib (lb_Name label) = s
      then collectIndexedResolvedValues (res (lb_Value label)) else [])"

lemma add_map_entries_eq:
  "add_map_entries lib label m (ks, vs) =
     (ks @ map fst (map (\<lambda>(k, v). (sanitizeKey lib (if HasPrefix (lb_Name label) ''_'' then k
            else lb_Name label @ k), v)) (filter (\<lambda>(k, v). \<not> listIndexRegex k) m)),
      vs @ map snd (filter (\<lambda>(k, v). \<not> listIndexRegex k) m))"
  unfolding add_map_entries_def by (induction m arbitrary: ks vs) auto

lemma resolve_label_eq:
  "resolve_label lib res label (ks, vs, ex) =
     (ks @ map fst (label_pairs lib res label), vs @ map snd (label_pairs lib res label),
      if label_scalar res label then ex
      else gm_put (sanitizeKey lib (lb_Name label))
             (gm_get [] ex (sanitizeKey lib (lb_Name label)) @ collectIndexedResolvedValues (res (lb_Value label))) ex)"
  by (auto simp: resolve_label_def label_pairs_def label_scalar_def add_map_entries_eq Let_def comp_def
      split_def split: option.splits)

lemma resolve_labels_fold:
  assumes "fold (resolve_label lib res) labels (ks, vs, ex) = (ks', vs', ex')"
  shows "ks' = ks @ map fst (concat (map (label_pairs lib res) labels))"
    and "vs' = vs @ map snd (concat (map (label_pairs lib res) labels))"
    and "gm_get [] ex' s = gm_get [] ex s @ concat (map (label_expansion lib res s) labels)"
    and "fst ` set ex' = fst ` set ex \<union>
           (\<lambda>l. sanitizeKey lib (lb_Name l)) ` {l \<in> set labels. \<not> label_scalar res l}"
    and "gm_ok ex \<Longrightarrow> gm_ok ex'"
  using assms
proof (induction labels arbitrary: ks vs ex)
  case (Cons l labels)
  { case 1 then show ?case by (auto simp: resolve_label_eq dest!: Cons(1) split: if_splits) }
  { case 2 then show ?case by (auto simp: resolve_label_eq dest!: Cons(2) split: if_splits) }
  { case 3 then show ?case by (auto simp: resolve_label_eq label_expansion_def dest!: Cons(3) split: if_splits) }
  { case 4
    have split: "{la \<in> set (l # labels). \<not> label_scalar res la} =
        (if label_scalar res l then {} else {l}) \<union> {la \<in> set labels. \<not> label_scalar res la}" by auto
    show ?case
      unfolding split using Cons(4) [OF 4 [unfolded fold_Cons comp_def resolve_label_eq]] by simp }
  { case 5
    let ?s = "resolve_label lib res l (ks, vs, ex)"
    show ?case
      by (rule Cons(5) [of "snd (snd ?s)" "fst ?s" "fst (snd ?s)"]) (use 5 in \<open>auto simp: resolve_label_eq\<close>) }
qed simp_all

text \<open>
  The labels of a metric, with nothing lost and nothing mispaired. The resolved keys are
  sorted; the key-value pairs are, up to that sorting, the pairs each label contributes (one for
  a scalar, one per non-indexed entry of a composite, named by the map's own key when the label
  name starts with an underscore); and the expanded set holds, under each name, the indexed
  values of the composite labels of that name in their order.
\<close>

theorem resolve_labels_spec:
  assumes "index_sorter (SortIndices lib)"
    and "resolveLabels lib labels res = (ks, vs, ex)"
  shows "length vs = length ks \<and> sorted ks
     \<and> mset (zip ks vs) = mset (concat (map (label_pairs lib res) labels))
     \<and> gm_ok ex
     \<and> fst ` set ex = (\<lambda>l. sanitizeKey lib (lb_Name l)) ` {l \<in> set labels. \<not> label_scalar res l}
     \<and> (\<forall>s. gm_get [] ex s = concat (map (label_expansion lib res s) labels))"
proof -
  obtain ks' vs' ex' where fo: "fold (resolve_label lib res) labels ([], [], []) = (ks', vs', ex')"
    by (cases "fold (resolve_label lib res) labels ([], [], [])") auto
  let ?ps = "concat (map (label_pairs lib res) labels)"
  let ?idx = "SortIndices lib ks'"
  note spec = resolve_labels_fold [OF fo, simplified]
  have len: "length vs' = length ks'" using spec(1,2) by simp
  have eq: "ks = apply_idx ?idx ks'" "vs = apply_idx ?idx vs'" "ex = ex'"
    using assms(2) by (auto simp: resolveLabels_def fo sortLabels_def len Let_def)
  have "zip ks' vs' = ?ps" using spec(1,2) by (simp add: zip_map_fst_snd)
  then have "mset (zip ks vs) = mset ?ps"
    using index_sorter.pairs_perm [OF assms(1) len] by (simp add: eq)
  moreover have "sorted ks" using index_sorter.sorts [OF assms(1)] by (simp add: eq)
  ultimately show ?thesis using spec(3-5) by (simp add: eq)
qed

definition demo_lib :: "gval \<Rightarrow> metric_lib" where
  "demo_lib v = \<lparr>NestedFieldNoCopy = (\<lambda>_ _. (v, True, False)), cel_eval = (\<lambda>_ _ _ _. CELFailed),
     ParseQuantity = (\<lambda>_. None), starlark_exec = (\<lambda>_ _ _ _. StarExecError),
     starlark_String = (\<lambda>_. []), starlark_Int64 = (\<lambda>_. 0),
     ToSnake = (\<lambda>s. s), SortIndices = insertion_indices\<rparr>"

lemma demo_sorter: "index_sorter (SortIndices (demo_lib v))"
  by (simp add: demo_lib_def insertion.index_sorter_axioms)

theorem resolve_labels_spec_witness:
  "sorted (fst (resolveLabels (demo_lib GNil)
       [\<lparr>lb_Name = ''b'', lb_Value = ''x''\<rparr>, \<lparr>lb_Name = ''a'', lb_Value = ''y''\<rparr>] (\<lambda>q. [(q, q)])))"
  (is "sorted (fst ?r)")
  using resolve_labels_spec [OF demo_sorter, of GNil _ _ "fst ?r" "fst (snd ?r)" "snd (snd ?r)"]
  by simp

section \<open>Sorting the expanded values with their labels\<close>

lemma anchor_fold_Min:
  assumes "s0 \<noteq> []" and "[] \<notin> fst ` set ex"
  shows "fold (\<lambda>(k, _) s. if s = [] \<or> k < s then k else s) ex s0 = Min (insert s0 (fst ` set ex))"
  using assms
proof (induction ex arbitrary: s0)
  case (Cons p ex)
  obtain k v where p: "p = (k, v)" by fastforce
  let ?s = "if k < s0 then k else s0"
  have "Min (insert ?s (fst ` set ex)) = Min (insert s0 (insert k (fst ` set ex)))"
    by (cases "fst ` set ex = {}") (auto simp: min_def)
  moreover have "fold (\<lambda>(k, _) s. if s = [] \<or> k < s then k else s) ex ?s = Min (insert ?s (fst ` set ex))"
    by (rule Cons.IH) (use Cons.prems p in auto)
  moreover have "fold (\<lambda>(k, _) s. if s = [] \<or> k < s then k else s) (p # ex) s0
      = fold (\<lambda>(k, _) s. if s = [] \<or> k < s then k else s) ex ?s"
    using Cons.prems(1) by (simp add: p)
  moreover have "fst ` set (p # ex) = insert k (fst ` set ex)" by (simp add: p)
  ultimately show ?case by argo
qed simp

lemma anchor_key_Min:
  assumes "ex \<noteq> []" and "[] \<notin> fst ` set ex"
  shows "anchor_key ex = Min (fst ` set ex)"
proof -
  obtain k v ex' where ex: "ex = (k, v) # ex'" using assms(1) by (cases ex) auto
  then have "anchor_key ex = fold (\<lambda>(k, _) s. if s = [] \<or> k < s then k else s) ex' k"
    by (simp add: anchor_key_def)
  also have "\<dots> = Min (insert k (fst ` set ex'))"
    by (rule anchor_fold_Min) (use assms(2) ex in auto)
  finally show ?thesis by (simp add: ex)
qed

lemma map_of_map_values: "map_of (map (\<lambda>(k, v). (k, f k v)) m) k = map_option (f k) (map_of m k)"
  by (induction m) auto

lemma gm_get_map_values:
  "gm_get d (map (\<lambda>(k, v). (k, f k v)) m) k = (case map_of m k of None \<Rightarrow> d | Some v \<Rightarrow> f k v)"
  by (simp add: gm_get_def map_of_map_values split: option.splits)

lemma gm_get_zip_map:
  assumes "gm_ok m" and "(k, v) \<in> set m"
  shows "gm_get d (zip (map fst m) (map (f \<circ> snd) m @ r)) k = f v"
  using assms by (induction m) (auto simp: gm_ok_def, force)

lemma cosort_facts:
  assumes "index_sorter (SortIndices lib)" and "gm_ok ex" and "[] \<notin> fst ` set ex"
    and "extractAndSortExpandedMetricValues lib ex = (evs, ex')"
    and "values = gm_get [] ex expandedValueSentinel" and "labels = gm_del expandedValueSentinel ex"
  shows "map fst ex' = map fst labels
    \<and> (if labels \<noteq> [] \<and> length values = length (gm_get [] labels (Min (fst ` set labels)))
       then \<exists>idx. mset idx = mset [0..<length values] \<and> evs = apply_idx idx values
            \<and> gm_get [] ex' (Min (fst ` set labels)) = sort (gm_get [] labels (Min (fst ` set labels)))
            \<and> (\<forall>k. k \<in> fst ` set labels \<longrightarrow> gm_get [] ex' k =
                (if length (gm_get [] labels k) = length values then apply_idx idx (gm_get [] labels k)
                 else gm_get [] labels k))
       else evs = values \<and> ex' = labels)"
proof (cases "labels \<noteq> [] \<and> length values = length (gm_get [] labels (Min (fst ` set labels)))")
  case False
  have "[] \<notin> fst ` set labels" using assms(3,6) by (auto simp: AList.delete_eq)
  then have "labels \<noteq> [] \<Longrightarrow> anchor_key labels = Min (fst ` set labels)" by (simp add: anchor_key_Min)
  then have "(evs, ex') = (values, labels)"
    using False assms(4)
    by (cases "labels = []")
      (simp_all add: extractAndSortExpandedMetricValues_def Let_def assms(5,6) [symmetric])
  with False show ?thesis by auto
next
  case True
  let ?a = "Min (fst ` set labels)"
  let ?anchor = "gm_get [] labels ?a"
  let ?idx = "SortIndices lib ?anchor"
  let ?others = "filter (\<lambda>(k, _). k \<noteq> ?a) labels"
  let ?f = "\<lambda>p. if length p = length ?anchor then apply_idx ?idx p else p"
  have ne: "[] \<notin> fst ` set labels" using assms(3,6) by (auto simp: AList.delete_eq)
  have ak: "anchor_key labels = ?a" using True ne by (simp add: anchor_key_Min)
  have ok: "gm_ok labels" using assms(2,6) by simp
  then have oko: "gm_ok ?others" by (simp add: gm_ok_def distinct_map_filter)
  have evs: "evs = apply_idx ?idx values"
    and ex': "ex' = map (\<lambda>(k, vs). (k, if k = ?a then apply_idx ?idx ?anchor
        else gm_get [] (zip (map fst ?others) (map (?f \<circ> snd) ?others @ [apply_idx ?idx values])) k)) labels"
    using assms(4) True
    by (simp_all add: extractAndSortExpandedMetricValues_def Let_def sortLabels_def
        assms(5,6) [symmetric] ak)
  have get: "gm_get [] ex' k = ?f (gm_get [] labels k)" if k: "k \<in> fst ` set labels" for k
  proof -
    obtain v where v: "(k, v) \<in> set labels" using k by auto
    then have m: "map_of labels k = Some v" using ok by (simp add: map_of_gm_mem)
    let ?zip = "gm_get [] (zip (map fst ?others) (map (?f \<circ> snd) ?others @ [apply_idx ?idx values])) k"
    have "gm_get [] ex' k = (if k = ?a then apply_idx ?idx ?anchor else ?zip)"
      by (simp only: ex' gm_get_map_values m option.simps)
    moreover have "?zip = ?f v" if "k \<noteq> ?a"
      by (rule gm_get_zip_map [OF oko]) (use that v in simp)
    moreover have "gm_get [] labels k = v" using m by (rule gm_get_present)
    ultimately show ?thesis by presburger
  qed
  have perm: "mset ?idx = mset [0..<length values]"
    using index_sorter.perm [OF assms(1), of ?anchor] True by simp
  have sorted: "gm_get [] ex' ?a = sort ?anchor"
    using get [of ?a] True index_sorter.keys_sorted [OF assms(1), of ?anchor] by simp
  have keys: "map fst ex' = map fst labels" by (auto simp: ex')
  have all: "\<forall>k. k \<in> fst ` set labels \<longrightarrow> gm_get [] ex' k =
      (if length (gm_get [] labels k) = length values then apply_idx ?idx (gm_get [] labels k)
       else gm_get [] labels k)"
    using get True by presburger
  show ?thesis
    unfolding if_P [OF True] by (intro conjI exI [of _ ?idx] keys perm evs sorted all)
qed

text \<open>
  Expanded labels and expanded values move together. When the list of values is as long as
  the label list of the smallest key, one permutation sorts that list and is applied to the
  values and to every label list of the same length; lists of another length stay as they
  are. Otherwise nothing is reordered. The sentinel entry is gone either way.
\<close>

theorem expanded_cosort:
  assumes "index_sorter (SortIndices lib)" and "gm_ok ex" and "[] \<notin> fst ` set ex"
    and "extractAndSortExpandedMetricValues lib ex = (evs, ex')"
    and "values = gm_get [] ex expandedValueSentinel" and "labels = gm_del expandedValueSentinel ex"
  shows "map fst ex' = map fst labels
    \<and> (if labels \<noteq> [] \<and> length values = length (gm_get [] labels (Min (fst ` set labels)))
       then \<exists>idx. mset idx = mset [0..<length values] \<and> evs = apply_idx idx values
            \<and> gm_get [] ex' (Min (fst ` set labels)) = sort (gm_get [] labels (Min (fst ` set labels)))
            \<and> (\<forall>k. k \<in> fst ` set labels \<longrightarrow> gm_get [] ex' k =
                (if length (gm_get [] labels k) = length values then apply_idx idx (gm_get [] labels k)
                 else gm_get [] labels k))
       else evs = values \<and> ex' = labels)"
  by (rule cosort_facts [OF assms])

theorem expanded_cosort_witness:
  "gm_get [] (snd (extractAndSortExpandedMetricValues (demo_lib GNil)
      [(''l'', [''b'', ''a'']), (expandedValueSentinel, [''1'', ''2''])])) ''l'' = sort [''b'', ''a'']"
  (is "gm_get [] (snd ?r) _ = _")
proof -
  have "''l'' \<noteq> expandedValueSentinel" "[] \<noteq> expandedValueSentinel"
    by (simp_all add: expandedValueSentinel_def)
  then show ?thesis
    using expanded_cosort [of "demo_lib GNil" "[(''l'', [''b'', ''a'']), (expandedValueSentinel, [''1'', ''2''])]"
        "fst ?r" "snd ?r" "[''1'', ''2'']" "[(''l'', [''b'', ''a''])]", OF demo_sorter]
    by auto
qed

end
