(* ===== verification/Metric_Write.thy ===== *)
theory Metric_Write
  imports Metric_Util Go_Number
begin

text \<open>
  \<open>internal/metric.go\<close>: writing one sample. The \<open>strings.Builder\<close> is its contents so far; its
  methods never fail. A function that can return an error gives the builder together with the
  error, because what was written before the error stays in it. \<open>None\<close> is the panic of
  \<open>values[i]\<close> when there are fewer values than keys.
\<close>

section \<open>The writer\<close>

datatype write_error =
    ErrParseValue string num_error
  | ErrCounterNaN
  | ErrCounterNegative float64

definition appendAutoLabels ::
    "string list \<Rightarrow> string list \<Rightarrow> string \<Rightarrow> string \<Rightarrow> string \<Rightarrow> string \<Rightarrow> string \<Rightarrow> string list \<times> string list" where
  "appendAutoLabels keys values g v k ns name =
     (keys @ [''group'', ''version'', ''kind'', ''name'', ''namespace''], values @ [g, v, k, name, ns])"

definition escape_char :: "char \<Rightarrow> string" where
  "escape_char c =
     (if c = CHR 0x5C then [CHR 0x5C, CHR 0x5C]
      else if c = CHR 0x0A then [CHR 0x5C, CHR ''n'']
      else if c = CHR 0x22 then [CHR 0x5C, CHR 0x22]
      else [c])"

definition escape :: "string \<Rightarrow> string" where
  "escape s = concat (map escape_char s)"

fun write_label_loop :: "string \<Rightarrow> string \<Rightarrow> string list \<Rightarrow> string list \<Rightarrow> string option" where
  "write_label_loop separator w [] values = Some w"
| "write_label_loop separator w (k # keys) [] = None"
| "write_label_loop separator w (k # keys) (v # values) =
     write_label_loop '','' (w @ separator @ k @ [CHR ''='', CHR 0x22] @ escape v @ [CHR 0x22]) keys values"

definition writeLabels :: "string \<Rightarrow> string list \<Rightarrow> string list \<Rightarrow> string option" where
  "writeLabels w keys values =
     (if keys = [] then Some w
      else map_option (\<lambda>w. w @ ''}'') (write_label_loop ''{'' w keys values))"

definition validateValue :: "float64 \<Rightarrow> metric_kind \<Rightarrow> write_error option" where
  "validateValue x kind =
     (if kind = MetricKindCounter
      then (if x = NaN then Some ErrCounterNaN
            else if f64_less x f64_zero then Some (ErrCounterNegative x) else None)
      else None)"

definition writeValue :: "string \<Rightarrow> string \<Rightarrow> metric_kind \<Rightarrow> string \<times> write_error option" where
  "writeValue w value kind =
     (let w = w @ '' '' in
      case ParseFloat value of
        Inl e \<Rightarrow> (w, Some (ErrParseValue value e))
      | Inr x \<Rightarrow>
          (case validateValue x kind of
             Some e \<Rightarrow> (w, Some e)
           | None \<Rightarrow> (w @ format_f x @ [CHR 0x0A], None)))"

definition writeMetricTo ::
    "string \<Rightarrow> string \<Rightarrow> string \<Rightarrow> string \<Rightarrow> string \<Rightarrow> string \<Rightarrow> string \<Rightarrow> string list \<Rightarrow> string list
      \<Rightarrow> metric_kind \<Rightarrow> (string \<times> write_error option) option" where
  "writeMetricTo w g v k ns name resolvedValue keys values kind =
     (let (keys, values) = appendAutoLabels keys values g v k ns name
      in map_option (\<lambda>w. writeValue w resolvedValue kind) (writeLabels w keys values))"

section \<open>Reading a line back\<close>

text \<open>
  The label syntax of the exposition format, as a parser: \<open>key="value"\<close> pairs separated by
  commas, with backslash, double quote and line feed escaped in the value. It is the specification the writer
  is checked against.
\<close>

fun parse_quoted :: "string \<Rightarrow> (string \<times> string) option" where
  "parse_quoted [] = None"
| "parse_quoted (c # s) =
     (if c = CHR 0x22 then Some ([], s)
      else if c = CHR 0x5C then
        (case s of [] \<Rightarrow> None
         | d # s' \<Rightarrow> map_option (\<lambda>(v, r). ((if d = CHR ''n'' then CHR 0x0A else d) # v, r)) (parse_quoted s'))
      else map_option (\<lambda>(v, r). (c # v, r)) (parse_quoted s))"

fun parse_pairs :: "nat \<Rightarrow> string \<Rightarrow> ((string \<times> string) list \<times> string) option" where
  "parse_pairs 0 s = None"
| "parse_pairs (Suc fuel) s =
     (let k = takeWhile (\<lambda>c. c \<noteq> CHR ''='') s; t = dropWhile (\<lambda>c. c \<noteq> CHR ''='') s
      in if take 2 t \<noteq> [CHR ''='', CHR 0x22] then None
         else (case parse_quoted (drop 2 t) of
             None \<Rightarrow> None
           | Some (v, r) \<Rightarrow>
               (case r of [] \<Rightarrow> None
                | c # r' \<Rightarrow>
                    if c = CHR ''}'' then Some ([(k, v)], r')
                    else if c = CHR '','' then
                      map_option (\<lambda>(kvs, q). ((k, v) # kvs, q)) (parse_pairs fuel r')
                    else None)))"

text \<open>A whole line: a name up to the brace, the labels, a blank, the value, a line feed.\<close>

definition parse_line :: "string \<Rightarrow> (string \<times> (string \<times> string) list \<times> string) option" where
  "parse_line s =
     (let n = takeWhile (\<lambda>c. c \<noteq> CHR ''{'') s; t = dropWhile (\<lambda>c. c \<noteq> CHR ''{'') s
      in if t = [] then None
         else (case parse_pairs (length t) (tl t) of
             None \<Rightarrow> None
           | Some (kvs, r) \<Rightarrow>
               if 2 \<le> length r \<and> hd r = CHR '' '' \<and> last r = CHR 0x0A
               then Some (n, kvs, butlast (tl r)) else None))"

section \<open>Lemmas\<close>

lemma parse_quoted_escape: "parse_quoted (escape v @ CHR 0x22 # r) = Some (v, r)"
  by (induction v) (auto simp: escape_def escape_char_def)

lemma escape_no_newline: "CHR 0x0A \<notin> set (escape v)"
  by (induction v) (auto simp: escape_def escape_char_def)

lemma takeWhile_sep: "c \<notin> set k \<Longrightarrow> takeWhile (\<lambda>x. x \<noteq> c) (k @ c # s) = k"
  by (induction k) auto

lemma dropWhile_sep: "c \<notin> set k \<Longrightarrow> dropWhile (\<lambda>x. x \<noteq> c) (k @ c # s) = c # s"
  by (induction k) auto

text \<open>The text of the label loop without the accumulator.\<close>

fun label_text :: "string \<Rightarrow> (string \<times> string) list \<Rightarrow> string" where
  "label_text sep [] = []"
| "label_text sep ((k, v) # kvs) =
     sep @ k @ [CHR ''='', CHR 0x22] @ escape v @ [CHR 0x22] @ label_text '','' kvs"

lemma write_label_loop_eq:
  "write_label_loop sep w ks vs =
     (if length vs < length ks then None else Some (w @ label_text sep (zip ks vs)))"
  by (induction sep w ks vs rule: write_label_loop.induct) auto

lemma writeLabels_eq:
  "writeLabels w keys values =
     (if keys = [] then Some w
      else if length values < length keys then None
      else Some (w @ label_text ''{'' (zip keys values) @ ''}''))"
  by (simp add: writeLabels_def write_label_loop_eq)

lemma parse_pairs_text:
  assumes "kvs \<noteq> []" and "\<forall>k \<in> fst ` set kvs. CHR ''='' \<notin> set k" and "length kvs \<le> fuel"
  shows "parse_pairs fuel (tl (label_text [c] kvs) @ CHR ''}'' # r) = Some (kvs, r)"
  using assms
proof (induction kvs arbitrary: fuel c)
  case (Cons p kvs)
  obtain k v where p: "p = (k, v)" by fastforce
  obtain f where f: "fuel = Suc f" using Cons.prems(3) by (cases fuel) auto
  have k: "takeWhile (\<lambda>c. c \<noteq> CHR ''='') (k @ CHR ''='' # s) = k"
    "dropWhile (\<lambda>c. c \<noteq> CHR ''='') (k @ CHR ''='' # s) = CHR ''='' # s" for s
    using Cons.prems(2) p by (simp_all add: takeWhile_sep dropWhile_sep)
  show ?case
  proof (cases kvs)
    case Nil
    then show ?thesis by (simp add: p f k parse_quoted_escape Let_def)
  next
    case (Cons q kvs')
    have IH: "parse_pairs f (tl (label_text '','' kvs) @ CHR ''}'' # r) = Some (kvs, r)"
      using Cons.IH [of f] Cons.prems f Cons by auto
    have "label_text '','' kvs = CHR '','' # tl (label_text '','' kvs)"
      by (cases q) (simp add: Cons)
    then have "parse_quoted (escape v @ CHR 0x22 # label_text '','' kvs @ CHR ''}'' # r)
        = Some (v, CHR '','' # tl (label_text '','' kvs) @ CHR ''}'' # r)"
      by (simp add: parse_quoted_escape)
    with IH show ?thesis by (simp add: p f k Let_def)
  qed
qed simp

lemma auto_labels_zip:
  "length ks = length vs \<Longrightarrow>
   zip (ks @ [''group'', ''version'', ''kind'', ''name'', ''namespace'']) (vs @ [g, v, k, name, ns])
     = zip ks vs @ [(''group'', g), (''version'', v), (''kind'', k), (''name'', name), (''namespace'', ns)]"
  by simp

definition sample_labels ::
    "string list \<Rightarrow> string list \<Rightarrow> string \<Rightarrow> string \<Rightarrow> string \<Rightarrow> string \<Rightarrow> string \<Rightarrow> (string \<times> string) list" where
  "sample_labels ks vs g v k ns name = zip ks vs @
     [(''group'', g), (''version'', v), (''kind'', k), (''name'', name), (''namespace'', ns)]"

definition value_ok :: "metric_kind \<Rightarrow> float64 \<Rightarrow> bool" where
  "value_ok kind x \<longleftrightarrow> kind = MetricKindCounter \<longrightarrow> x \<noteq> NaN \<and> \<not> f64_less x f64_zero"

lemma validateValue_None: "validateValue x kind = None \<longleftrightarrow> value_ok kind x"
  by (auto simp: validateValue_def value_ok_def)

lemma validateValue_Some: "\<not> value_ok kind x \<Longrightarrow> \<exists>e. validateValue x kind = Some e"
  using validateValue_None [of x kind] by auto

lemma writeValue_eq:
  "writeValue w value kind =
     (case ParseFloat value of
        Inl e \<Rightarrow> (w @ '' '', Some (ErrParseValue value e))
      | Inr x \<Rightarrow> if value_ok kind x then (w @ '' '' @ format_f x @ [CHR 0x0A], None)
               else (w @ '' '', validateValue x kind))"
  by (auto simp: writeValue_def Let_def split: sum.split option.split dest: validateValue_None [THEN iffD1]
      simp flip: validateValue_None)

lemma writeMetricTo_eq:
  "writeMetricTo w g v k ns name value ks vs kind =
     (if length vs < length ks then None
      else Some (writeValue (w @ label_text ''{''
             (zip (ks @ [''group'', ''version'', ''kind'', ''name'', ''namespace'']) (vs @ [g, v, k, name, ns]))
           @ ''}'') value kind))"
  by (simp add: writeMetricTo_def appendAutoLabels_def writeLabels_eq)

lemma label_text_no_newline:
  "\<forall>k \<in> fst ` set kvs. CHR 0x0A \<notin> set k \<Longrightarrow> CHR 0x0A \<notin> set sep \<Longrightarrow> CHR 0x0A \<notin> set (label_text sep kvs)"
  by (induction sep kvs rule: label_text.induct) (auto simp: escape_no_newline)

lemma label_text_Cons: "kvs \<noteq> [] \<Longrightarrow> label_text [c] kvs = c # tl (label_text [c] kvs)"
  by (cases kvs) auto

lemma label_text_length: "length kvs \<le> length (label_text sep kvs)"
  by (induction sep kvs rule: label_text.induct) auto

lemma parse_line_text:
  assumes "kvs \<noteq> []" and "CHR ''{'' \<notin> set n" and "\<forall>k \<in> fst ` set kvs. CHR ''='' \<notin> set k"
  shows "parse_line (n @ label_text ''{'' kvs @ ''}'' @ '' '' @ t @ [CHR 0x0A]) = Some (n, kvs, t)"
proof -
  let ?r = "'' '' @ t @ [CHR 0x0A]"
  let ?body = "tl (label_text ''{'' kvs) @ CHR ''}'' # ?r"
  have line: "n @ label_text ''{'' kvs @ ''}'' @ ?r = n @ CHR ''{'' # ?body"
    using label_text_Cons [OF assms(1), of "CHR ''{''"] by simp
  have "length kvs \<le> length (CHR ''{'' # ?body)"
    using label_text_length [of kvs "''{''"] label_text_Cons [OF assms(1), of "CHR ''{''"]
    by (metis append_Cons length_append trans_le_add1)
  then have "parse_pairs (length (CHR ''{'' # ?body)) ?body = Some (kvs, ?r)"
    by (intro parse_pairs_text assms) 
  then show ?thesis
    unfolding parse_line_def line
    by (simp add: takeWhile_sep [OF assms(2)] dropWhile_sep [OF assms(2)] butlast_append Let_def
        del: parse_pairs.simps)
qed

section \<open>Properties\<close>

text \<open>C30: a sample whose value is acceptable is written as exactly one line, and the line says
  what was meant: reading it back as exposition format gives the metric name, every label with
  its unescaped value followed by the five identifying labels, and the formatted value.\<close>

theorem sample_line_roundtrip:
  assumes "length ks = length vs" and "CHR ''{'' \<notin> set n" and "CHR 0x0A \<notin> set n"
    and "\<forall>k \<in> set ks. CHR ''='' \<notin> set k \<and> CHR 0x0A \<notin> set k"
    and "ParseFloat value = Inr x" and "value_ok kind x"
  shows "\<exists>line. writeMetricTo (w @ n) g v k ns name value ks vs kind = Some (w @ line @ [CHR 0x0A], None)
     \<and> CHR 0x0A \<notin> set line
     \<and> parse_line (line @ [CHR 0x0A]) = Some (n, sample_labels ks vs g v k ns name, format_f x)"
proof -
  let ?kvs = "sample_labels ks vs g v k ns name"
  let ?line = "n @ label_text ''{'' ?kvs @ ''}'' @ '' '' @ format_f x"
  have keys: "fst ` set ?kvs \<subseteq> set ks \<union> {''group'', ''version'', ''kind'', ''name'', ''namespace''}"
    by (auto simp: sample_labels_def dest: set_zip_leftD)
  have "writeMetricTo (w @ n) g v k ns name value ks vs kind = Some (w @ ?line @ [CHR 0x0A], None)"
    using assms(1,5,6)
    by (simp add: writeMetricTo_eq writeValue_eq sample_labels_def)
  moreover have "CHR 0x0A \<notin> set ?line"
  proof -
    have "\<forall>k \<in> fst ` set ?kvs. CHR 0x0A \<notin> set k" using keys assms(4) by fastforce
    then show ?thesis using label_text_no_newline [of ?kvs "''{''"] assms(3) by simp
  qed
  moreover have "parse_line (?line @ [CHR 0x0A]) = Some (n, ?kvs, format_f x)"
  proof -
    have "\<forall>k \<in> fst ` set ?kvs. CHR ''='' \<notin> set k" using keys assms(4) by fastforce
    moreover have "?kvs \<noteq> []" by (simp add: sample_labels_def)
    ultimately show ?thesis using parse_line_text [of ?kvs n "format_f x"] assms(2) by simp
  qed
  ultimately show ?thesis by blast
qed

theorem sample_line_roundtrip_witness:
  "\<exists>line. writeMetricTo ''m'' ''g'' ''v1'' ''K'' ''ns'' ''o'' ''1'' [''a''] [[CHR 0x22]] MetricKindCounter
      = Some (line @ [CHR 0x0A], None)
     \<and> parse_line (line @ [CHR 0x0A]) = Some (''m'', [(''a'', [CHR 0x22]), (''group'', ''g''),
         (''version'', ''v1''), (''kind'', ''K''), (''name'', ''o''), (''namespace'', ''ns'')], ''1.000000'')"
proof -
  have p: "ParseFloat ''1'' = Inr f64_one"
    by (simp add: ParseFloat_digits is_digit_def digits_val_def digit_val_def f64_eval)
  have ok: "value_ok MetricKindCounter f64_one"
    by (simp add: value_ok_def f64_one_def f64_zero_def f64_val_def del: f64_less.simps)
  have f: "format_f f64_one = ''1.000000''"
    by (simp add: f64_one_def half_even_def pad6_0 dec_nat.simps Let_def)
  show ?thesis
    using sample_line_roundtrip [OF _ _ _ _ p ok, of "[''a'']" "[[CHR 0x22]]" "''m''" "[]" "''g''" "''v1''" "''K''" "''ns''" "''o''"]
    by (fastforce simp: f sample_labels_def)
qed

text \<open>Every outcome of writing a sample. Missing values panic; otherwise it succeeds exactly
  when the value is a float that the kind admits, so a counter is never written negative or
  NaN; and a failure leaves the unfinished line, labels and blank without value or line feed,
  in the builder for the caller to deal with.\<close>

theorem write_outcomes:
  "(writeMetricTo w g v k ns name value ks vs kind = None \<longleftrightarrow> length vs < length ks)
   \<and> (\<forall>w' e. writeMetricTo w g v k ns name value ks vs kind = Some (w', e) \<longrightarrow>
        (e = None \<longleftrightarrow> (\<exists>x. ParseFloat value = Inr x
              \<and> (kind = MetricKindCounter \<longrightarrow> x \<noteq> NaN \<and> \<not> f64_less x f64_zero)))
        \<and> (e \<noteq> None \<longrightarrow> w' = w @ label_text ''{'' (zip (ks @ [''group'', ''version'', ''kind'', ''name'', ''namespace''])
                                   (vs @ [g, v, k, name, ns])) @ ''} ''))"
  by (auto simp: writeMetricTo_eq writeValue_eq value_ok_def [symmetric] validateValue_None
      intro: validateValue_Some split: sum.splits if_splits)

theorem write_outcomes_witness:
  "\<exists>w'. writeMetricTo ''m'' ''g'' ''v1'' ''K'' ''ns'' ''o'' ''1'' [''a''] [''b''] MetricKindCounter = Some (w', None)"
proof -
  let ?w = "writeMetricTo ''m'' ''g'' ''v1'' ''K'' ''ns'' ''o'' ''1'' [''a''] [''b''] MetricKindCounter"
  note o = write_outcomes [of "''m''" "''g''" "''v1''" "''K''" "''ns''" "''o''" "''1''" "[''a'']" "[''b'']" MetricKindCounter]
  have p: "ParseFloat ''1'' = Inr f64_one"
    by (simp add: ParseFloat_digits is_digit_def digits_val_def digit_val_def f64_eval)
  have ok: "f64_one \<noteq> NaN" "\<not> f64_less f64_one f64_zero"
    by (simp_all add: f64_one_def f64_zero_def f64_val_def del: f64_less.simps)
  obtain r where r: "?w = Some r" using o [THEN conjunct1] by (cases ?w) simp_all
  obtain w' e where we: "r = (w', e)" by (cases r)
  have "e = None" using o [THEN conjunct2, rule_format, OF r [unfolded we]] p ok by blast
  with r we show ?thesis by simp
qed

end
