(* ===== verification/Family.thy ===== *)
theory Family
  imports Label_Sets Metric_Write
begin

text \<open>
  The sample half of \<open>internal/family.go\<close>: a metric family, the text it produces for one object,
  and the number of samples in it. A family record extends the family of the specification, as
  the Go struct embeds it. Here every text has builders of its own; that pooling
  them changes nothing is shown in \<open>Builder_Pool\<close>.
\<close>

record uobject =
  uo_Group :: string
  uo_Version :: string
  uo_Kind :: string
  uo_Namespace :: string
  uo_Name :: string
  uo_UID :: uid
  uo_Object :: object

record family = family_spec +
  fm_celCostLimit :: int64
  fm_celTimeout :: int
  fm_managedRMMNamespace :: string
  fm_managedRMMName :: string
  fm_createdAt :: int64
  fm_cutoff :: bool
  fm_starlarkResolver :: "starlark_resolver option"

definition kubeCustomResourcePrefix :: string where
  "kubeCustomResourcePrefix = ''kube_customresource_''"

definition SetCutoff :: "bool \<Rightarrow> family \<Rightarrow> family" where
  "SetCutoff cutoff f = f\<lparr>fm_cutoff := cutoff\<rparr>"

definition IsCutoff :: "family \<Rightarrow> bool" where
  "IsCutoff f = fm_cutoff f"

section \<open>Kind and headers\<close>

definition family_kind :: "family \<Rightarrow> metric_kind" where
  "family_kind f = (if HasSuffix (fs_Name f) ''_total'' then MetricKindCounter else MetricKindGauge)"

definition buildHeaders :: "family \<Rightarrow> string" where
  "buildHeaders f =
     ''# HELP '' @ kubeCustomResourcePrefix @ fs_Name f @ '' '' @ fs_Help f @ [CHR 0x0A]
     @ ''# TYPE '' @ kubeCustomResourcePrefix @ fs_Name f @ '' '' @ kind_string (family_kind f)"

definition generatePeripheralMetric :: "string \<Rightarrow> string \<Rightarrow> metric_kind \<Rightarrow> int64 \<Rightarrow> string" where
  "generatePeripheralMetric w familyName kind createdAt =
     (if kind = MetricKindCounter
      then
        (let createdSampleName = kubeCustomResourcePrefix @ TrimSuffix familyName ''_total'' @ ''_created'';
             createdValue = format_f (f64_div (f64_of_int64 createdAt) (f64_of_int 1000000000))
         in w @ ''# HELP '' @ createdSampleName @ '' Time at which '' @ kubeCustomResourcePrefix
              @ familyName @ '' was created.''
              @ [CHR 0x0A] @ ''# TYPE '' @ createdSampleName @ '' '' @ kind_string MetricKindCounter
              @ [CHR 0x0A] @ createdSampleName @ '' '' @ createdValue)
      else w)"

definition buildPeripheralHeader :: "family \<Rightarrow> string" where
  "buildPeripheralHeader f =
     (if family_kind f \<noteq> MetricKindCounter then []
      else generatePeripheralMetric [] (fs_Name f) (family_kind f) (fm_createdAt f))"

section \<open>Choosing the resolver\<close>

datatype resolver_error =
    ErrNoResolver string
  | ErrStarlarkConfig string
  | ErrUnknownResolver string

definition CELDefaultCostLimit :: int64 where "CELDefaultCostLimit = 100000"
definition CELDefaultTimeout :: int where "CELDefaultTimeout = 5"

definition family_resolver :: "family \<Rightarrow> resolver_type \<Rightarrow> resolver_error + resolver" where
  "family_resolver f inheritedResolver =
     (let r = (if inheritedResolver = ResolverTypeNone then fs_Resolver f else inheritedResolver)
      in case r of
           ResolverTypeNone \<Rightarrow> Inl (ErrNoResolver (fs_Name f))
         | ResolverTypeUnstructured \<Rightarrow> Inr UnstructuredResolver
         | ResolverTypeCEL \<Rightarrow>
             Inr (CELResolver (if fm_celCostLimit f = 0 then CELDefaultCostLimit else fm_celCostLimit f)
                    (if fm_celTimeout f = 0 then CELDefaultTimeout * 1000000000 else fm_celTimeout f))
         | ResolverTypeStarlark \<Rightarrow> Inl (ErrStarlarkConfig (fs_Name f))
         | ResolverTypeUnknown s \<Rightarrow> Inl (ErrUnknownResolver s))"

definition inheritMetricLabels :: "family \<Rightarrow> metric \<Rightarrow> label list" where
  "inheritMetricLabels f m = mt_Labels m @ fs_Labels f"

section \<open>Writing samples\<close>

text \<open>
  The closure \<open>writeMetric\<close>: its constants are the context, its captured variables (the builder,
  \<open>expandedValueIndex\<close> and \<open>sampleCount\<close>) the state.
\<close>

record sample_context =
  sx_name :: string
  sx_kind :: metric_kind
  sx_raw :: uobject
  sx_value :: string
  sx_expandedValues :: "string list"

record sample_state =
  sw_builder :: string
  sw_index :: nat
  sw_count :: int64

type_synonym write_result = "(sample_state \<times> write_error option) option"

definition write_metric ::
    "sample_context \<Rightarrow> string list \<Rightarrow> string list \<Rightarrow> sample_state \<Rightarrow> write_result" where
  "write_metric sx keys vals st =
     (let raw = sx_raw sx;
          currentValue = (if sw_index st < length (sx_expandedValues sx)
                          then sx_expandedValues sx ! sw_index st else sx_value sx)
      in map_option
           (\<lambda>(w, e). (\<lparr>sw_builder = w, sw_index = Suc (sw_index st), sw_count = sw_count st + 1\<rparr>, e))
           (writeMetricTo (sw_builder st @ kubeCustomResourcePrefix @ sx_name sx)
              (uo_Group raw) (uo_Version raw) (uo_Kind raw) (uo_Namespace raw) (uo_Name raw)
              currentValue keys vals (sx_kind sx)))"

text \<open>One sample per expanded value, with the same labels.\<close>

fun write_value_samples ::
    "sample_context \<Rightarrow> string list \<Rightarrow> string list \<Rightarrow> string list \<Rightarrow> sample_state \<Rightarrow> write_result" where
  "write_value_samples sx keys vals [] st = Some (st, None)"
| "write_value_samples sx keys vals (_ # evs) st =
     (case write_metric sx keys vals st of
        None \<Rightarrow> None
      | Some (st', Some e) \<Rightarrow> Some (st', Some e)
      | Some (st', None) \<Rightarrow> write_value_samples sx keys vals evs st')"

text \<open>The inner loop of \<open>writeExpandedSamples\<close> takes the head of every expanded list, if any.\<close>

fun pop_row :: "string list \<Rightarrow> expanded \<Rightarrow> string list \<Rightarrow> string list \<times> expanded" where
  "pop_row [] ex vals = (vals, ex)"
| "pop_row (k # ks) ex vals =
     (case gm_get [] ex k of
        [] \<Rightarrow> pop_row ks ex (vals @ [[]])
      | v # vs \<Rightarrow> pop_row ks (gm_put k vs ex) (vals @ [v]))"

fun write_rows ::
    "sample_context \<Rightarrow> string list \<Rightarrow> string list \<Rightarrow> nat \<Rightarrow> expanded \<Rightarrow> sample_state \<Rightarrow> write_result" where
  "write_rows sx keys vals 0 ex st = Some (st, None)"
| "write_rows sx keys vals (Suc n) ex st =
     (let expansionKeys = drop (length keys - length ex) keys;
          (row, ex) = pop_row expansionKeys ex vals
      in case write_metric sx keys row st of
           None \<Rightarrow> None
         | Some (st', Some e) \<Rightarrow> Some (st', Some e)
         | Some (st', None) \<Rightarrow> write_rows sx keys vals n ex st')"

definition series_to_generate :: "expanded \<Rightarrow> string list \<Rightarrow> nat" where
  "series_to_generate ex ks = fold (\<lambda>k n. if n < length (gm_get [] ex k) then length (gm_get [] ex k) else n) ks 0"

definition writeExpandedSamples ::
    "sample_context \<Rightarrow> string list \<Rightarrow> string list \<Rightarrow> expanded \<Rightarrow> sample_state \<Rightarrow> write_result" where
  "writeExpandedSamples sx keys vals ex st =
     (let ks = sort (map fst ex)
      in write_rows sx (keys @ ks) vals (series_to_generate ex ks) ex st)"

definition writeMetricSamplesWithCount ::
    "'a metric_lib_scheme \<Rightarrow> string \<Rightarrow> string \<Rightarrow> metric_kind \<Rightarrow> uobject \<Rightarrow> string list \<Rightarrow> string list
      \<Rightarrow> expanded \<Rightarrow> string \<Rightarrow> (string \<times> int64 \<times> write_error option) option" where
  "writeMetricSamplesWithCount lib w name kind raw keys vals ex value =
     (let (evs, ex) = extractAndSortExpandedMetricValues lib ex;
          sx = \<lparr>sx_name = name, sx_kind = kind, sx_raw = raw, sx_value = value, sx_expandedValues = evs\<rparr>;
          st = \<lparr>sw_builder = w, sw_index = 0, sw_count = 0\<rparr>
      in if ex = [] then
           (if evs = [] then
              map_option (\<lambda>(st, e). (sw_builder st, if e = None then sw_count st else 0, e))
                (write_metric sx keys vals st)
            else
              map_option (\<lambda>(st, e). (sw_builder st, sw_count st, e))
                (write_value_samples sx keys vals evs st))
         else
           map_option (\<lambda>(st, e). (sw_builder st, sw_count st, e))
             (writeExpandedSamples sx keys vals ex st))"

section \<open>The text of a family\<close>

text \<open>One iteration of the loop over the metrics: the family's builder and its sample count.\<close>

definition build_metric ::
    "'a metric_lib_scheme \<Rightarrow> family \<Rightarrow> uobject \<Rightarrow> metric \<Rightarrow> string \<times> int64 \<Rightarrow> (string \<times> int64) option" where
  "build_metric lib f raw m = (\<lambda>(familyRaw, sampleCount).
     (case family_resolver f (mt_Resolver m) of
        Inl _ \<Rightarrow> Some (familyRaw, sampleCount)
      | Inr r \<Rightarrow>
          (let res = (\<lambda>q. Resolve lib r q (uo_Object raw));
               (keys, vals, ex) = resolveLabels lib (inheritMetricLabels f m) res;
               (resolvedValue, ex) = resolveMetricValue res (mt_Value m) ex
           in case resolvedValue of
                ValueError \<Rightarrow> Some (familyRaw, sampleCount)
              | ValueSkip \<Rightarrow> Some (familyRaw, sampleCount)
              | ValueOK value \<Rightarrow>
                  map_option
                    (\<lambda>(metricRaw, samples, e).
                       if e \<noteq> None then (familyRaw, sampleCount)
                       else (familyRaw @ metricRaw, sampleCount + samples))
                    (writeMetricSamplesWithCount lib [] (fs_Name f) (family_kind f) raw keys vals ex value))))"

fun build_metrics ::
    "'a metric_lib_scheme \<Rightarrow> family \<Rightarrow> uobject \<Rightarrow> metric list \<Rightarrow> string \<times> int64 \<Rightarrow> (string \<times> int64) option" where
  "build_metrics lib f raw [] acc = Some acc"
| "build_metrics lib f raw (m # ms) acc =
     (case build_metric lib f raw m acc of None \<Rightarrow> None | Some acc' \<Rightarrow> build_metrics lib f raw ms acc')"

text \<open>The Starlark path. A sample that cannot be written is skipped, but not what it wrote.\<close>

definition write_starlark_sample ::
    "'a metric_lib_scheme \<Rightarrow> family \<Rightarrow> uobject \<Rightarrow> resolved_sample \<Rightarrow> string \<times> int64 \<Rightarrow> (string \<times> int64) option" where
  "write_starlark_sample lib f raw sample = (\<lambda>(w, sampleCount).
     (let (keys, parallel) = sortLabels lib (map (\<lambda>(k, _). sanitizeKey lib k) (rs_Labels sample))
                               [map snd (rs_Labels sample)];
          valueStr = format_f_shortest (rs_Value sample)
      in map_option (\<lambda>(w, e). (w, if e \<noteq> None then sampleCount else sampleCount + 1))
           (writeMetricTo (w @ kubeCustomResourcePrefix @ fs_Name f)
              (uo_Group raw) (uo_Version raw) (uo_Kind raw) (uo_Namespace raw) (uo_Name raw)
              valueStr keys (hd parallel) (family_kind f))))"

fun write_starlark_samples ::
    "'a metric_lib_scheme \<Rightarrow> family \<Rightarrow> uobject \<Rightarrow> resolved_sample list \<Rightarrow> string \<times> int64 \<Rightarrow> (string \<times> int64) option" where
  "write_starlark_samples lib f raw [] acc = Some acc"
| "write_starlark_samples lib f raw (s # ss) acc =
     (case write_starlark_sample lib f raw s acc of None \<Rightarrow> None
      | Some acc' \<Rightarrow> write_starlark_samples lib f raw ss acc')"

definition buildMetricStringFromStarlark ::
    "'a metric_lib_scheme \<Rightarrow> family \<Rightarrow> starlark_resolver \<Rightarrow> uobject \<Rightarrow> (string \<times> int64) option" where
  "buildMetricStringFromStarlark lib f sr raw =
     (case starlark_Resolve lib sr (uo_Object raw) of
        Inl _ \<Rightarrow> Some ([], 0)
      | Inr families \<Rightarrow>
          if families = [] then Some ([], 0)
          else write_starlark_samples lib f raw (concat (map rf_Samples families)) ([], 0))"

definition buildMetricString ::
    "'a metric_lib_scheme \<Rightarrow> family \<Rightarrow> uobject \<Rightarrow> (string \<times> int64) option" where
  "buildMetricString lib f raw =
     map_option (\<lambda>(metricStr, sampleCount). (if IsCutoff f then [] else metricStr, sampleCount))
       (case fm_starlarkResolver f of
          Some sr \<Rightarrow> buildMetricStringFromStarlark lib f sr raw
        | None \<Rightarrow> build_metrics lib f raw (fs_Metrics f) ([], 0))"

section \<open>What the samples are\<close>

text \<open>
  The specification of the sample writer: the table of samples of one metric, each with its
  label keys, label values and value, and the line each of them is written as.
\<close>

definition nth_or_empty :: "string list \<Rightarrow> nat \<Rightarrow> string" where
  "nth_or_empty vs i = (if i < length vs then vs ! i else [])"

definition sample_rows ::
    "string list \<Rightarrow> string list \<Rightarrow> string \<Rightarrow> string list \<Rightarrow> expanded
      \<Rightarrow> (string list \<times> string list \<times> string) list" where
  "sample_rows keys vals value evs ex =
     (if ex = [] then (if evs = [] then [(keys, vals, value)] else map (\<lambda>v. (keys, vals, v)) evs)
      else
        (let ks = sort (map fst ex); n = Max (set (map (\<lambda>k. length (gm_get [] ex k)) ks))
         in map (\<lambda>i. (keys @ ks, vals @ map (\<lambda>k. nth_or_empty (gm_get [] ex k) i) ks,
                     if i < length evs then evs ! i else value)) [0..<n]))"

definition value_accepted :: "metric_kind \<Rightarrow> string \<Rightarrow> bool" where
  "value_accepted kind value = (case ParseFloat value of Inl _ \<Rightarrow> False | Inr x \<Rightarrow> value_ok kind x)"

definition value_text :: "string \<Rightarrow> string" where
  "value_text value = (case ParseFloat value of Inl _ \<Rightarrow> [] | Inr x \<Rightarrow> format_f x)"

definition sample_line :: "string \<Rightarrow> uobject \<Rightarrow> string list \<times> string list \<times> string \<Rightarrow> string" where
  "sample_line name raw = (\<lambda>(ks, vs, value).
     kubeCustomResourcePrefix @ name
     @ label_text ''{'' (sample_labels ks vs (uo_Group raw) (uo_Version raw) (uo_Kind raw) (uo_Namespace raw) (uo_Name raw))
     @ ''} '' @ value_text value @ [CHR 0x0A])"

text \<open>All three writing loops are one sequence of writes.\<close>

fun write_seq :: "sample_context \<Rightarrow> (string list \<times> string list) list \<Rightarrow> sample_state \<Rightarrow> write_result" where
  "write_seq sx [] st = Some (st, None)"
| "write_seq sx ((keys, vals) # rows) st =
     (case write_metric sx keys vals st of
        None \<Rightarrow> None
      | Some (st', Some e) \<Rightarrow> Some (st', Some e)
      | Some (st', None) \<Rightarrow> write_seq sx rows st')"

lemma write_single_seq: "write_metric sx keys vals st = write_seq sx [(keys, vals)] st"
  by (auto split: option.splits)

lemma write_values_seq:
  "write_value_samples sx keys vals evs st = write_seq sx (map (\<lambda>_. (keys, vals)) evs) st"
  by (induction evs arbitrary: st) (auto split: option.splits)

lemma map_fst_put: "k \<in> fst ` set m \<Longrightarrow> map fst (gm_put k v m) = map fst m"
  by (induction m) auto

lemma pop_row_spec:
  assumes "distinct ks" and "set ks \<subseteq> fst ` set ex"
  shows "fst (pop_row ks ex vals) = vals @ map (\<lambda>k. nth_or_empty (gm_get [] ex k) 0) ks
    \<and> map fst (snd (pop_row ks ex vals)) = map fst ex
    \<and> (\<forall>k. gm_get [] (snd (pop_row ks ex vals)) k
          = (if k \<in> set ks then tl (gm_get [] ex k) else gm_get [] ex k))"
  using assms
proof (induction ks arbitrary: ex vals)
  case (Cons k ks)
  show ?case
  proof (cases "gm_get [] ex k")
    case Nil
    then show ?thesis using Cons.IH [of ex "vals @ [[]]"] Cons.prems by (auto simp: nth_or_empty_def)
  next
    case (Cons v vs)
    have keys: "map fst (gm_put k vs ex) = map fst ex" using Cons.prems by (intro map_fst_put) auto
    then have "set ks \<subseteq> fst ` set (gm_put k vs ex)" using Cons.prems(2) by auto
    from Cons.IH [OF _ this] show ?thesis
      using Cons Cons.prems keys by (auto simp: nth_or_empty_def map_eq_conv intro!: map_cong)
  qed
qed simp

lemma nth_or_empty_tl: "nth_or_empty (tl vs) i = nth_or_empty vs (Suc i)"
  by (cases vs) (simp_all add: nth_or_empty_def)

lemma write_rows_seq:
  assumes "distinct ks" and "set ks = fst ` set ex" and "length ks = length ex"
  shows "write_rows sx (keys @ ks) vals n ex st =
    write_seq sx (map (\<lambda>i. (keys @ ks, vals @ map (\<lambda>k. nth_or_empty (gm_get [] ex k) i) ks)) [0..<n]) st"
  using assms
proof (induction n arbitrary: ex st)
  case (Suc n)
  let ?p = "pop_row ks ex vals"
  have p: "fst ?p = vals @ map (\<lambda>k. nth_or_empty (gm_get [] ex k) 0) ks"
    and keys: "map fst (snd ?p) = map fst ex"
    and get: "\<And>k. gm_get [] (snd ?p) k = (if k \<in> set ks then tl (gm_get [] ex k) else gm_get [] ex k)"
    using pop_row_spec [of ks ex vals] Suc.prems by auto
  have "set ks = fst ` set (snd ?p)" "length ks = length (snd ?p)"
    using Suc.prems keys by (metis list.set_map, metis length_map)
  note IH = Suc.IH [OF Suc.prems(1) this]
  have rows: "map (\<lambda>k. nth_or_empty (gm_get [] (snd ?p) k) i) ks
      = map (\<lambda>k. nth_or_empty (gm_get [] ex k) (Suc i)) ks" for i
    by (auto simp: get nth_or_empty_tl)
  have upt: "[0..<Suc n] = 0 # map Suc [0..<n]" by (simp add: map_Suc_upt upt_conv_Cons)
  show ?case
    unfolding upt
    using Suc.prems IH p rows
    by (simp add: split_def comp_def split: option.split)
qed simp

lemma series_Max:
  assumes "ks \<noteq> []"
  shows "series_to_generate ex ks = Max (set (map (\<lambda>k. length (gm_get [] ex k)) ks))"
proof -
  have "fold (\<lambda>k n. if n < length (gm_get [] ex k) then length (gm_get [] ex k) else n) ks m
      = fold max (map (\<lambda>k. length (gm_get [] ex k)) ks) m" for m
    by (induction ks arbitrary: m) (auto simp: max_def not_less intro: arg_cong)
  then have "series_to_generate ex ks = fold max (map (\<lambda>k. length (gm_get [] ex k)) ks) 0"
    by (simp only: series_to_generate_def)
  also have "\<dots> = Max (set (map (\<lambda>k. length (gm_get [] ex k)) ks))"
    using assms by (cases ks) (simp_all add: Max.set_eq_fold [symmetric] del: Max_insert)
  finally show ?thesis .
qed

text \<open>The values the closure reads at positions \<open>i, i + 1, ...\<close>, and the outcome of a sequence.\<close>

definition value_at :: "sample_context \<Rightarrow> nat \<Rightarrow> string" where
  "value_at sx i = (if i < length (sx_expandedValues sx) then sx_expandedValues sx ! i else sx_value sx)"

definition seq_rows ::
    "sample_context \<Rightarrow> nat \<Rightarrow> (string list \<times> string list) list \<Rightarrow> (string list \<times> string list \<times> string) list" where
  "seq_rows sx i rows = map (\<lambda>(j, keys, vals). (keys, vals, value_at sx j)) (zip [i..<i + length rows] rows)"

lemma seq_rows_Cons: "seq_rows sx i ((keys, vals) # rows) = (keys, vals, value_at sx i) # seq_rows sx (Suc i) rows"
  by (simp add: seq_rows_def upt_conv_Cons del: upt_Suc)

lemma seq_rows_Nil [simp]: "seq_rows sx i [] = []"
  by (simp add: seq_rows_def)

lemma seq_rows_map_upt:
  "seq_rows sx 0 (map (\<lambda>i. (f i, g i)) [0..<n]) = map (\<lambda>i. (f i, g i, value_at sx i)) [0..<n]"
  by (simp add: seq_rows_def zip_map2 zip_same_conv_map)

lemma map_const_upt: "map (\<lambda>_. c) xs = map (\<lambda>_. c) [0..<length xs]"
  by (simp add: map_replicate_const)

lemma seq_rows_table:
  assumes "sx_value sx = value" and "sx_expandedValues sx = evs"
  shows "seq_rows sx 0
     (if ex = [] then (if evs = [] then [(keys, vals)] else map (\<lambda>_. (keys, vals)) evs)
      else (let ks = sort (map fst ex) in map (\<lambda>i. (keys @ ks, vals @ map (\<lambda>k. nth_or_empty (gm_get [] ex k) i) ks))
              [0..<series_to_generate ex ks]))
     = sample_rows keys vals value evs ex"
proof -
  consider "ex = []" "evs = []" | "ex = []" "evs \<noteq> []" | "ex \<noteq> []" by blast
  then show ?thesis
  proof cases
    case 1
    then show ?thesis using assms by (simp add: sample_rows_def seq_rows_def value_at_def)
  next
    case 2
    have "map (\<lambda>v. (keys, vals, v)) evs = map (\<lambda>i. (keys, vals, evs ! i)) [0..<length evs]"
      by (subst map_nth [symmetric, of evs]) (simp only: map_map comp_def)
    moreover have "seq_rows sx 0 (map (\<lambda>_. (keys, vals)) evs) = map (\<lambda>i. (keys, vals, value_at sx i)) [0..<length evs]"
      by (subst map_const_upt) (rule seq_rows_map_upt)
    ultimately show ?thesis using 2 assms by (simp add: sample_rows_def value_at_def)
  next
    case 3
    then have "sort (map fst ex) \<noteq> []" by (metis length_0_conv length_map length_sort)
    with 3 assms show ?thesis
      by (simp add: sample_rows_def Let_def seq_rows_map_upt value_at_def series_Max)
  qed
qed

lemma length_seq_rows: "length (seq_rows sx i rows) = length rows"
  by (simp add: seq_rows_def)

lemma write_metric_outcome:
  assumes "length vals = length keys"
  shows "\<exists>st e. write_metric sx keys vals st0 = Some (st, e)
     \<and> (e = None \<longleftrightarrow> value_accepted (sx_kind sx) (value_at sx (sw_index st0)))
     \<and> (e = None \<longrightarrow> sw_builder st = sw_builder st0
           @ sample_line (sx_name sx) (sx_raw sx) (keys, vals, value_at sx (sw_index st0))
         \<and> sw_index st = Suc (sw_index st0) \<and> sw_count st = sw_count st0 + 1)"
proof -
  let ?v = "value_at sx (sw_index st0)"
  have "write_metric sx keys vals st0 = map_option
      (\<lambda>(w, e). (\<lparr>sw_builder = w, sw_index = Suc (sw_index st0), sw_count = sw_count st0 + 1\<rparr>, e))
      (writeMetricTo (sw_builder st0 @ kubeCustomResourcePrefix @ sx_name sx)
         (uo_Group (sx_raw sx)) (uo_Version (sx_raw sx)) (uo_Kind (sx_raw sx)) (uo_Namespace (sx_raw sx))
         (uo_Name (sx_raw sx)) ?v keys vals (sx_kind sx))"
    by (simp add: write_metric_def value_at_def Let_def)
  then show ?thesis
    using assms validateValue_None [of _ "sx_kind sx"]
    by (auto simp: writeMetricTo_eq writeValue_eq sample_line_def sample_labels_def value_accepted_def
        value_text_def split: sum.split)
qed

lemma write_seq_outcome:
  assumes "\<forall>(ks, vs) \<in> set rows. length vs = length ks"
  shows "\<exists>st e. write_seq sx rows st0 = Some (st, e)
     \<and> (e = None \<longleftrightarrow> list_all (\<lambda>(_, _, v). value_accepted (sx_kind sx) v) (seq_rows sx (sw_index st0) rows))
     \<and> (e = None \<longrightarrow> sw_builder st = sw_builder st0
           @ concat (map (sample_line (sx_name sx) (sx_raw sx)) (seq_rows sx (sw_index st0) rows))
         \<and> sw_count st = sw_count st0 + of_nat (length rows))"
  using assms
proof (induction rows arbitrary: st0)
  case (Cons row rows)
  obtain ks vs where row: "row = (ks, vs)" by fastforce
  then obtain st e where w: "write_metric sx ks vs st0 = Some (st, e)"
    and e: "e = None \<longleftrightarrow> value_accepted (sx_kind sx) (value_at sx (sw_index st0))"
    and s: "e = None \<Longrightarrow> sw_builder st = sw_builder st0
           @ sample_line (sx_name sx) (sx_raw sx) (ks, vs, value_at sx (sw_index st0))
         \<and> sw_index st = Suc (sw_index st0) \<and> sw_count st = sw_count st0 + 1"
    using write_metric_outcome [of vs ks sx st0] Cons.prems by auto
  show ?case
  proof (cases e)
    case None
    then show ?thesis using Cons.IH [of st] Cons.prems w e s by (auto simp: row seq_rows_Cons)
  next
    case (Some a)
    then show ?thesis using w e by (simp add: row seq_rows_Cons)
  qed
qed simp

lemma sample_writer_outcome:
  assumes "length vals = length keys" and "gm_ok ex"
    and "extractAndSortExpandedMetricValues lib ex = (evs, ex')" and "gm_ok ex'"
  shows "\<exists>w' c e. writeMetricSamplesWithCount lib w name kind raw keys vals ex value = Some (w', c, e)
     \<and> (e = None \<longleftrightarrow> list_all (\<lambda>(_, _, v). value_accepted kind v) (sample_rows keys vals value evs ex'))
     \<and> (e = None \<longrightarrow> w' = w @ concat (map (sample_line name raw) (sample_rows keys vals value evs ex'))
          \<and> c = of_nat (length (sample_rows keys vals value evs ex')))"
proof -
  let ?sx = "\<lparr>sx_name = name, sx_kind = kind, sx_raw = raw, sx_value = value, sx_expandedValues = evs\<rparr>"
  let ?st = "\<lparr>sw_builder = w, sw_index = 0, sw_count = 0\<rparr>"
  define rows where "rows = (if ex' = [] then (if evs = [] then [(keys, vals)] else map (\<lambda>_. (keys, vals)) evs)
    else (let ks = sort (map fst ex') in map (\<lambda>i. (keys @ ks, vals @ map (\<lambda>k. nth_or_empty (gm_get [] ex' k) i) ks))
            [0..<series_to_generate ex' ks]))"
  have len: "\<forall>(ks, vs) \<in> set rows. length vs = length ks"
    using assms(1) by (auto simp: rows_def Let_def)
  have table: "seq_rows ?sx 0 rows = sample_rows keys vals value evs ex'"
    unfolding rows_def by (rule seq_rows_table) simp_all
  then have length: "length (sample_rows keys vals value evs ex') = length rows"
    by (metis length_seq_rows)
  have "distinct (sort (map fst ex'))" using assms(4) by (simp add: gm_ok_def)
  then have expanded: "writeExpandedSamples ?sx keys vals ex' ?st = write_seq ?sx rows ?st" if "ex' \<noteq> []"
    using that by (simp add: writeExpandedSamples_def rows_def Let_def write_rows_seq)
  obtain st e where seq: "write_seq ?sx rows ?st = Some (st, e)"
    and e: "e = None \<longleftrightarrow> list_all (\<lambda>(_, _, v). value_accepted kind v) (seq_rows ?sx 0 rows)"
    and ok: "e = None \<Longrightarrow> sw_builder st = w @ concat (map (sample_line name raw) (seq_rows ?sx 0 rows))
         \<and> sw_count st = of_nat (length rows)"
    using write_seq_outcome [OF len, of ?sx ?st] by auto
  have "writeMetricSamplesWithCount lib w name kind raw keys vals ex value
      = Some (sw_builder st, if ex' = [] \<and> evs = [] \<and> e \<noteq> None then 0 else sw_count st, e)"
    by (cases "ex' = []"; cases "evs = []")
      (use seq expanded in \<open>simp_all add: writeMetricSamplesWithCount_def assms(3) write_single_seq
         write_values_seq rows_def Let_def del: write_seq.simps\<close>)
  then show ?thesis using e ok table length by auto
qed

text \<open>
  C34: the sample writer writes the table of samples. With as many label values as keys it never
  panics; it fails exactly when some value of the table is not accepted; and when it succeeds it
  has appended one line per row, in order, and counted the rows. For expanded labels the table
  has as many rows as the longest list, shorter lists filled with empty strings, the label
  names sorted after the plain ones, and each row takes its own value where there is one.
\<close>

theorem sample_writer_spec:
  assumes "length vals = length keys" and "gm_ok ex"
    and "extractAndSortExpandedMetricValues lib ex = (evs, ex')" and "gm_ok ex'"
  shows "\<exists>w' c e. writeMetricSamplesWithCount lib w name kind raw keys vals ex value = Some (w', c, e)
     \<and> (e = None \<longleftrightarrow> list_all (\<lambda>(_, _, v). value_accepted kind v) (sample_rows keys vals value evs ex'))
     \<and> (e = None \<longrightarrow> w' = w @ concat (map (sample_line name raw) (sample_rows keys vals value evs ex'))
          \<and> c = of_nat (length (sample_rows keys vals value evs ex')))"
  using sample_writer_outcome [OF assms] .

definition demo_object :: uobject where
  "demo_object = \<lparr>uo_Group = ''g'', uo_Version = ''v1'', uo_Kind = ''K'', uo_Namespace = ''ns'',
     uo_Name = ''o'', uo_UID = ''u'', uo_Object = []\<rparr>"

lemma ParseFloat_1: "ParseFloat ''1'' = Inr f64_one"
  by (simp add: ParseFloat_digits is_digit_def digits_val_def digit_val_def f64_eval)

theorem sample_writer_spec_witness:
  "\<exists>w' c. writeMetricSamplesWithCount (demo_lib GNil) [] ''m'' MetricKindGauge demo_object
      [''a''] [''x''] [(''l'', [''p'', ''q''])] ''1'' = Some (w', c, None) \<and> c = 2"
  using sample_writer_spec [of "[''x'']" "[''a'']" "[(''l'', [''p'', ''q''])]" "demo_lib GNil" "[]" "[(''l'', [''p'', ''q''])]"
      "[]" "''m''" MetricKindGauge demo_object "''1''"]
  by (simp add: extractAndSortExpandedMetricValues_def sample_rows_def value_accepted_def ParseFloat_1 value_ok_def
      expandedValueSentinel_def Let_def anchor_key_def gm_get_def)

section \<open>What the text of a family is\<close>

lemma extract_keys:
  "extractAndSortExpandedMetricValues lib ex = (evs, ex')
     \<Longrightarrow> map fst ex' = map fst (gm_del expandedValueSentinel ex)"
  by (auto simp: extractAndSortExpandedMetricValues_def Let_def split_def split: if_splits)

lemma extract_ok:
  "extractAndSortExpandedMetricValues lib ex = (evs, ex') \<Longrightarrow> gm_ok ex \<Longrightarrow> gm_ok ex'"
  using extract_keys [of lib ex evs ex'] gm_ok_del [of ex expandedValueSentinel] by (simp add: gm_ok_def)

text \<open>The table of samples one metric of the family contributes for an object.\<close>

definition metric_rows ::
    "'a metric_lib_scheme \<Rightarrow> family \<Rightarrow> uobject \<Rightarrow> metric \<Rightarrow> (string list \<times> string list \<times> string) list" where
  "metric_rows lib f raw m =
     (case family_resolver f (mt_Resolver m) of
        Inl _ \<Rightarrow> []
      | Inr r \<Rightarrow>
          (let res = (\<lambda>q. Resolve lib r q (uo_Object raw));
               (keys, vals, ex) = resolveLabels lib (inheritMetricLabels f m) res;
               (resolvedValue, ex) = resolveMetricValue res (mt_Value m) ex
           in case resolvedValue of
                ValueOK value \<Rightarrow>
                  (let (evs, ex) = extractAndSortExpandedMetricValues lib ex;
                       rows = sample_rows keys vals value evs ex
                   in if list_all (\<lambda>(_, _, v). value_accepted (family_kind f) v) rows then rows else [])
              | _ \<Rightarrow> []))"

definition family_rows ::
    "'a metric_lib_scheme \<Rightarrow> family \<Rightarrow> uobject \<Rightarrow> (string list \<times> string list \<times> string) list" where
  "family_rows lib f raw = concat (map (metric_rows lib f raw) (fs_Metrics f))"

lemma resolve_labels_ok:
  assumes "index_sorter (SortIndices lib)" and "resolveLabels lib labels res = (ks, vs, ex)"
  shows "length vs = length ks" and "gm_ok ex"
proof -
  obtain ks' vs' ex' where fo: "fold (resolve_label lib res) labels ([], [], []) = (ks', vs', ex')"
    by (cases "fold (resolve_label lib res) labels ([], [], [])") auto
  note spec = resolve_labels_fold [OF fo, simplified]
  have len: "length vs' = length ks'" using spec(1,2) by simp
  show "length vs = length ks" "gm_ok ex"
    using assms(2) spec(5) by (auto simp: resolveLabels_def fo sortLabels_def len Let_def)
qed

lemma resolve_value_ok: "resolveMetricValue res q ex = (v, ex') \<Longrightarrow> gm_ok ex \<Longrightarrow> gm_ok ex'"
  by (auto simp: resolveMetricValue_def Let_def split: if_splits option.splits)

lemma build_metric_eq:
  assumes "index_sorter (SortIndices lib)"
  shows "build_metric lib f raw m (w, c) =
    Some (w @ concat (map (sample_line (fs_Name f) raw) (metric_rows lib f raw m)),
          c + of_nat (length (metric_rows lib f raw m)))"
proof (cases "family_resolver f (mt_Resolver m)")
  case (Inr r)
  let ?res = "\<lambda>q. Resolve lib r q (uo_Object raw)"
  obtain ks vs ex where l: "resolveLabels lib (inheritMetricLabels f m) ?res = (ks, vs, ex)"
    by (cases "resolveLabels lib (inheritMetricLabels f m) ?res") auto
  note ok = resolve_labels_ok [OF assms l]
  obtain rv ex1 where v: "resolveMetricValue ?res (mt_Value m) ex = (rv, ex1)" by fastforce
  obtain evs ex2 where x: "extractAndSortExpandedMetricValues lib ex1 = (evs, ex2)" by fastforce
  have ok1: "gm_ok ex1" using v ok(2) by (rule resolve_value_ok)
  show ?thesis
  proof (cases rv)
    case (ValueOK val)
    obtain w' c' e where "writeMetricSamplesWithCount lib [] (fs_Name f) (family_kind f) raw ks vs ex1 val = Some (w', c', e)"
      and "e = None \<longleftrightarrow> list_all (\<lambda>(_, _, v). value_accepted (family_kind f) v) (sample_rows ks vs val evs ex2)"
      and "e = None \<longrightarrow> w' = concat (map (sample_line (fs_Name f) raw) (sample_rows ks vs val evs ex2))
          \<and> c' = of_nat (length (sample_rows ks vs val evs ex2))"
      using sample_writer_outcome [OF ok(1) ok1 x extract_ok [OF x ok1], of "[]" "fs_Name f" "family_kind f" raw val]
      by auto
    then show ?thesis by (cases e) (auto simp: build_metric_def metric_rows_def Inr l v x ValueOK Let_def)
  qed (simp_all add: build_metric_def metric_rows_def Inr l v)
qed (simp add: build_metric_def metric_rows_def)

lemma build_metrics_eq:
  assumes "index_sorter (SortIndices lib)"
  shows "build_metrics lib f raw ms (w, c) =
    Some (w @ concat (map (sample_line (fs_Name f) raw) (concat (map (metric_rows lib f raw) ms))),
          c + of_nat (length (concat (map (metric_rows lib f raw) ms))))"
  by (induction ms arbitrary: w c) (simp_all add: build_metric_eq [OF assms])

text \<open>
  C2: the text and the cardinality of a family agree. For every object, a family without a
  script never panics; its text is one line per row of its sample table, in order, where each
  metric that cannot be resolved or has a value that cannot be written contributes none; the
  returned count is the number of rows; and a cut-off family has empty text and the same count.
\<close>

theorem family_text_spec:
  assumes "index_sorter (SortIndices lib)" and "fm_starlarkResolver f = None"
  shows "buildMetricString lib f raw =
    Some (if IsCutoff f then [] else concat (map (sample_line (fs_Name f) raw) (family_rows lib f raw)),
          of_nat (length (family_rows lib f raw)))"
  using build_metrics_eq [OF assms(1), of f raw "fs_Metrics f" "[]" 0]
  by (simp add: buildMetricString_def assms(2) family_rows_def)

definition demo_family :: "string \<Rightarrow> metric list \<Rightarrow> label list \<Rightarrow> family" where
  "demo_family name ms ls = \<lparr>fs_Name = name, fs_Help = ''h'', fs_Metrics = ms, fs_Starlark = None,
     fs_Resolver = ResolverTypeUnstructured, fs_Labels = ls, fs_CardinalityLimit = 0,
     fm_celCostLimit = 0, fm_celTimeout = 0, fm_managedRMMNamespace = [], fm_managedRMMName = [],
     fm_createdAt = 0, fm_cutoff = False, fm_starlarkResolver = None\<rparr>"

theorem family_text_spec_witness:
  "\<exists>s. buildMetricString (demo_lib (GInt 1))
      (demo_family ''m'' [\<lparr>mt_Labels = [], mt_Value = ''o.x'', mt_Resolver = ResolverTypeNone\<rparr>] [])
      demo_object = Some (s, of_nat (length (family_rows (demo_lib (GInt 1))
      (demo_family ''m'' [\<lparr>mt_Labels = [], mt_Value = ''o.x'', mt_Resolver = ResolverTypeNone\<rparr>] []) demo_object)))"
  using family_text_spec [OF demo_sorter, of "demo_family ''m'' [\<lparr>mt_Labels = [], mt_Value = ''o.x'', mt_Resolver = ResolverTypeNone\<rparr>] []" "GInt 1" demo_object]
  by (simp add: demo_family_def)

subsection \<open>Cutoff\<close>

lemma SetCutoff_simps [simp]:
  "fs_Name (SetCutoff b f) = fs_Name f" "fs_Metrics (SetCutoff b f) = fs_Metrics f"
  "fs_Labels (SetCutoff b f) = fs_Labels f" "fs_Resolver (SetCutoff b f) = fs_Resolver f"
  "fm_starlarkResolver (SetCutoff b f) = fm_starlarkResolver f" "IsCutoff (SetCutoff b f) = b"
  "family_kind (SetCutoff b f) = family_kind f"
  "inheritMetricLabels (SetCutoff b f) m = inheritMetricLabels f m"
  by (simp_all add: SetCutoff_def IsCutoff_def family_kind_def inheritMetricLabels_def)

lemma family_resolver_cutoff [simp]: "family_resolver (SetCutoff b f) r = family_resolver f r"
  by (simp add: family_resolver_def SetCutoff_def Let_def split: resolver_type.split)

lemma build_metric_cutoff [simp]: "build_metric lib (SetCutoff b f) = build_metric lib f"
  by (rule ext)+
    (simp add: build_metric_def Let_def split_def cong: sum.case_cong metric_value.case_cong)

lemma build_metrics_cutoff: "build_metrics lib (SetCutoff b f) raw ms acc = build_metrics lib f raw ms acc"
  by (induction ms arbitrary: acc) (simp_all split: option.split)

lemma write_starlark_cutoff:
  "write_starlark_samples lib (SetCutoff b f) raw ss acc = write_starlark_samples lib f raw ss acc"
  by (induction ss arbitrary: acc) (auto simp: write_starlark_sample_def split: option.split)

lemma buildMetricString_cutoff:
  "buildMetricString lib (SetCutoff True f) raw
     = map_option (\<lambda>(s, c). ([], c)) (buildMetricString lib (SetCutoff False f) raw)"
  by (auto simp: buildMetricString_def build_metrics_cutoff buildMetricStringFromStarlark_def
      write_starlark_cutoff option.map_comp comp_def split_def split: option.split sum.split)

subsection \<open>The number of samples\<close>

text \<open>The number of samples a family writes for an object, read off its rows or, for a script, off the
  samples the script returned: those with a value the kind of the family admits.\<close>

definition script_samples ::
    "'a metric_lib_scheme \<Rightarrow> starlark_resolver \<Rightarrow> uobject \<Rightarrow> resolved_sample list" where
  "script_samples lib sr raw =
     (case starlark_Resolve lib sr (uo_Object raw) of
        Inl _ \<Rightarrow> [] | Inr families \<Rightarrow> concat (map rf_Samples families))"

definition sample_count :: "'a metric_lib_scheme \<Rightarrow> family \<Rightarrow> uobject \<Rightarrow> nat" where
  "sample_count lib f raw =
     (case fm_starlarkResolver f of
        None \<Rightarrow> length (family_rows lib f raw)
      | Some sr \<Rightarrow>
          length (filter (\<lambda>s. value_accepted (family_kind f) (format_f_shortest (rs_Value s)))
            (script_samples lib sr raw)))"

lemma write_starlark_sample_count:
  assumes "index_sorter (SortIndices lib)"
  shows "\<exists>w'. write_starlark_sample lib f raw s (w, c)
    = Some (w', if value_accepted (family_kind f) (format_f_shortest (rs_Value s)) then c + 1 else c)"
  by (auto simp: write_starlark_sample_def sortLabels_def Let_def writeMetricTo_eq writeValue_eq
      value_accepted_def split_def split: sum.splits intro!: validateValue_Some)

lemma write_starlark_count:
  assumes "index_sorter (SortIndices lib)"
  shows "\<exists>w'. write_starlark_samples lib f raw ss (w, c) = Some (w', c + of_nat (length
    (filter (\<lambda>s. value_accepted (family_kind f) (format_f_shortest (rs_Value s))) ss)))"
proof (induction ss arbitrary: w c)
  case (Cons s ss)
  obtain w1 where "write_starlark_sample lib f raw s (w, c)
      = Some (w1, if value_accepted (family_kind f) (format_f_shortest (rs_Value s)) then c + 1 else c)"
    using write_starlark_sample_count [OF assms] by blast
  with Cons.IH [of w1 c] Cons.IH [of w1 "c + 1"] show ?case by (auto simp: algebra_simps)
qed simp

lemma buildMetricString_count:
  assumes "index_sorter (SortIndices lib)"
  shows "\<exists>s. buildMetricString lib f raw = Some (s, of_nat (sample_count lib f raw))"
proof (cases "fm_starlarkResolver f")
  case None
  then show ?thesis using build_metrics_eq [OF assms, of f raw "fs_Metrics f" "[]" 0]
    by (simp add: buildMetricString_def sample_count_def family_rows_def)
next
  case (Some sr)
  show ?thesis
  proof (cases "starlark_Resolve lib sr (uo_Object raw)")
    case (Inr families)
    obtain w where "write_starlark_samples lib f raw (concat (map rf_Samples families)) ([], 0)
        = Some (w, of_nat (sample_count lib f raw))"
      using write_starlark_count [OF assms, of f raw "concat (map rf_Samples families)" "[]" 0]
      by (auto simp: sample_count_def script_samples_def Some Inr)
    then show ?thesis
      by (auto simp: buildMetricString_def buildMetricStringFromStarlark_def Some Inr)
  qed (simp add: buildMetricString_def buildMetricStringFromStarlark_def sample_count_def script_samples_def Some)
qed

lemma metric_rows_cutoff: "metric_rows lib (SetCutoff b f) = metric_rows lib f"
  by (rule ext)+ (simp add: metric_rows_def Let_def split_def cong: sum.case_cong metric_value.case_cong)

lemma sample_count_cutoff [simp]: "sample_count lib (SetCutoff b f) raw = sample_count lib f raw"
  by (simp add: sample_count_def family_rows_def metric_rows_cutoff split: option.split)

subsection \<open>What a cutoff does\<close>

text \<open>
  Cutting a family off suppresses its text and nothing else. Whatever resolver it uses,
  the returned count of a cut-off family is the count it has when it is on, so cardinality
  tracking neither forgets a suppressed family nor lets it flap.
\<close>

theorem cutoff_suppresses_text_only:
  "buildMetricString lib (SetCutoff True f) raw
     = map_option (\<lambda>(s, c). ([], c)) (buildMetricString lib (SetCutoff False f) raw)"
  by (rule buildMetricString_cutoff)

subsection \<open>Samples a script cannot write\<close>

text \<open>
  The script path keeps what a failed sample wrote. A sample whose value the family's kind
  does not admit is not counted, but its name and labels stay in the text as an unfinished
  line: a blank at the end, neither value nor line feed, so the next sample continues it.
\<close>

theorem starlark_bad_sample_leaves_fragment:
  assumes "index_sorter (SortIndices lib)"
    and "\<not> value_accepted (family_kind f) (format_f_shortest (rs_Value s))"
  shows "\<exists>labels. write_starlark_sample lib f raw s (w, c)
     = Some (w @ kubeCustomResourcePrefix @ fs_Name f @ labels @ ''} '', c)"
proof -
  let ?keys = "map (\<lambda>(k, _). sanitizeKey lib k) (rs_Labels s)" and ?vals = "map snd (rs_Labels s)"
  obtain e where "validateValue x (family_kind f) = Some e"
    if "ParseFloat (format_f_shortest (rs_Value s)) = Inr x" for x
    using assms(2) validateValue_Some [of "family_kind f"]
    by (cases "ParseFloat (format_f_shortest (rs_Value s))") (auto simp: value_accepted_def)
  then show ?thesis
    using assms(2)
    by (auto simp: write_starlark_sample_def sortLabels_def Let_def writeMetricTo_eq writeValue_eq
        value_accepted_def split: sum.splits)
qed

theorem starlark_bad_sample_leaves_fragment_witness:
  "\<exists>labels. write_starlark_sample (demo_lib GNil) (demo_family ''x_total'' [] []) demo_object
      \<lparr>rs_Labels = [], rs_Value = NaN\<rparr> ([], 0)
     = Some (''kube_customresource_x_total'' @ labels @ ''} '', 0)"
proof -
  have "lower (CHR ''N'') = CHR ''n''" "lower (CHR ''a'') = CHR ''a''" by code_simp+
  then have "ParseFloat ''NaN'' = Inr NaN"
    by (simp add: ParseFloat_def read_special_def strip_sign_def Let_def)
  then have "\<not> value_accepted MetricKindCounter ''NaN''"
    by (simp add: value_accepted_def value_ok_def)
  moreover have "family_kind (demo_family ''x_total'' [] []) = MetricKindCounter"
    by (simp add: family_kind_def HasSuffix_def demo_family_def)
  ultimately show ?thesis
    using starlark_bad_sample_leaves_fragment [OF demo_sorter, of "demo_family ''x_total'' [] []"
        "\<lparr>rs_Labels = [], rs_Value = NaN\<rparr>" GNil demo_object "[]" 0]
    by (simp add: demo_family_def kubeCustomResourcePrefix_def)
qed

subsection \<open>Composite labels without a list\<close>

text \<open>
  A composite label that holds no list silences its metric. When some label resolves to a
  map (or to an empty list) and no label of the metric holds indexed values, an entry of the
  expanded set exists but is empty, and a scalar value then yields no sample at all, although
  the map's entries were resolved to labels.
\<close>

theorem listless_composite_label_silences_metric:
  assumes "index_sorter (SortIndices lib)" and "family_resolver f (mt_Resolver m) = Inr r"
    and "res = (\<lambda>q. Resolve lib r q (uo_Object raw))"
    and "l \<in> set (inheritMetricLabels f m)" and "\<not> label_scalar res l"
    and "\<forall>l \<in> set (inheritMetricLabels f m). \<not> label_scalar res l \<longrightarrow>
          collectIndexedResolvedValues (res (lb_Value l)) = []"
    and "map_of (res (mt_Value m)) (mt_Value m) = Some v"
    and "\<forall>l \<in> set (inheritMetricLabels f m). sanitizeKey lib (lb_Name l) \<notin> {[], expandedValueSentinel}"
  shows "build_metric lib f raw m (w, c) = Some (w, c)"
proof -
  let ?labels = "inheritMetricLabels f m"
  obtain ks vs ex where lab: "resolveLabels lib ?labels res = (ks, vs, ex)"
    by (cases "resolveLabels lib ?labels res") auto
  obtain ks' vs' ex' where fo: "fold (resolve_label lib res) ?labels ([], [], []) = (ks', vs', ex')"
    by (cases "fold (resolve_label lib res) ?labels ([], [], [])") auto
  have ex: "ex' = ex" using lab by (auto simp: resolveLabels_def fo sortLabels_def Let_def)
  note spec = resolve_labels_fold [OF fo, simplified, unfolded ex]
  have empty: "gm_get [] ex s = []" for s
    unfolding spec(3) using assms(6) by (auto simp: label_expansion_def)
  have keys: "fst ` set ex = (\<lambda>l. sanitizeKey lib (lb_Name l)) ` {l \<in> set ?labels. \<not> label_scalar res l}"
    by (rule spec(4))
  have ne: "ex \<noteq> []" using assms(4,5) keys by force
  have nosent: "expandedValueSentinel \<notin> fst ` set ex" and noempty: "[] \<notin> fst ` set ex"
    using assms(8) unfolding keys by force+
  have del: "gm_del expandedValueSentinel ex = ex" by (rule gm_del_absent [OF nosent])
  obtain evs ex2 where x: "extractAndSortExpandedMetricValues lib ex = (evs, ex2)" by fastforce
  have "gm_ok ex" using spec(5) by simp
  note facts = cosort_facts [OF assms(1) this noempty x refl refl, unfolded del]
  have fsts: "map fst ex2 = map fst ex" using facts by blast
  then have ne2: "ex2 \<noteq> []" using ne by (metis map_is_Nil_conv)
  have keys2: "fst ` set ex2 = fst ` set ex" using fsts by (metis list.set_map)
  have "gm_get [] ex2 k = []" if "k \<in> fst ` set ex" for k
  proof (cases "ex \<noteq> [] \<and> length (gm_get [] ex expandedValueSentinel) = length (gm_get [] ex (Min (fst ` set ex)))")
    case True
    from facts [THEN conjunct2, unfolded if_P [OF True]]
    obtain idx where idx: "mset idx = mset [0..<length (gm_get [] ex expandedValueSentinel)]"
      and all: "\<forall>k. k \<in> fst ` set ex \<longrightarrow> gm_get [] ex2 k =
          (if length (gm_get [] ex k) = length (gm_get [] ex expandedValueSentinel)
           then apply_idx idx (gm_get [] ex k) else gm_get [] ex k)"
      by (elim exE conjE) (rule that)
    have "idx = []" using idx by (simp add: empty)
    with all [rule_format, OF that]
    show ?thesis by (simp add: empty apply_idx_def)
  next
    case False
    then have "ex2 = ex" using facts [THEN conjunct2, unfolded if_not_P [OF False]] by blast
    then show ?thesis by (simp add: empty)
  qed
  then have lens: "map (\<lambda>k. length (gm_get [] ex2 k)) (sort (map fst ex2)) = map (\<lambda>_. 0) (sort (map fst ex2))"
    using keys2 by (intro map_cong refl) simp
  have "sort (map fst ex2) \<noteq> []" using ne2 by (metis length_0_conv length_map length_sort)
  then have "set (map (\<lambda>k. length (gm_get [] ex2 k)) (sort (map fst ex2))) = {0}"
    unfolding lens by (simp add: image_constant_conv ne2)
  then have rows: "sample_rows ks vs v evs ex2 = []"
    by (simp add: sample_rows_def ne2 Let_def)
  have "res (mt_Value m) \<noteq> []" using assms(7) by auto
  then have "resolveMetricValue res (mt_Value m) ex = (ValueOK v, ex)"
    using assms(7) by (simp add: resolveMetricValue_def Let_def)
  then have "metric_rows lib f raw m = []"
    using lab x rows by (simp add: metric_rows_def assms(2,3) Let_def)
  then show ?thesis by (simp add: build_metric_eq [OF assms(1)])
qed

theorem listless_composite_label_silences_metric_witness:
  "let lib = (demo_lib GNil)\<lparr>cel_eval := (\<lambda>_ _ q _.
         if q = ''o.labels'' then CELResult (CELMapNative [(''app'', GString ''x'')])
         else CELResult (CELScalar (GInt 1)))\<rparr>;
       m = \<lparr>mt_Labels = [\<lparr>lb_Name = ''_labels'', lb_Value = ''o.labels''\<rparr>], mt_Value = ''1'',
            mt_Resolver = ResolverTypeCEL\<rparr>
   in build_metric lib (demo_family ''m'' [] []) demo_object m ([], 0) = Some ([], 0)"
proof -
  let ?lib = "(demo_lib GNil)\<lparr>cel_eval := (\<lambda>_ _ q _.
         if q = ''o.labels'' then CELResult (CELMapNative [(''app'', GString ''x'')])
         else CELResult (CELScalar (GInt 1)))\<rparr>"
  let ?l = "\<lparr>lb_Name = ''_labels'', lb_Value = ''o.labels''\<rparr>"
  let ?m = "\<lparr>mt_Labels = [?l], mt_Value = ''1'', mt_Resolver = ResolverTypeCEL\<rparr>"
  let ?f = "demo_family ''m'' [] []"
  let ?r = "CELResolver CELDefaultCostLimit (CELDefaultTimeout * 1000000000)"
  let ?res = "\<lambda>q. Resolve ?lib ?r q (uo_Object demo_object)"
  have r: "family_resolver ?f (mt_Resolver ?m) = Inr ?r"
    by (simp add: family_resolver_def demo_family_def)
  have labels: "inheritMetricLabels ?f ?m = [?l]" by (simp add: inheritMetricLabels_def demo_family_def)
  have l: "?res ''o.labels'' = [(''app'', ''x'')]"
    by (simp add: cel_Resolve_def processResult_def)
  have v: "?res ''1'' = [(''1'', format_v (GInt 1))]"
    by (simp add: cel_Resolve_def processResult_def)
  have "key_index (length [(''app'', ''x'')]) ''app'' = None"
    by (simp add: key_index_def LastIndexByte_def)
  then have c: "collectIndexedResolvedValues [(''app'', ''x'')] = []"
    by (simp add: collectIndexedResolvedValues_def stage_values_def)
  have "list_all ascii ''_labels''" by (simp add: ascii_def byte_in_def)
  then have s: "sanitizeKey ?lib ''_labels'' = ''_labels''"
    by (simp add: sanitizeKey_def replace_non_word_def runes_ascii demo_lib_def word_char_def is_letter_def byte_in_def)
  have "index_sorter (SortIndices ?lib)" using demo_sorter [of GNil] by simp
  then show ?thesis
    unfolding Let_def
    by (rule listless_composite_label_silences_metric [OF _ r refl, where l = ?l and v = "format_v (GInt 1)"])
      (simp_all add: labels label_scalar_def l v c s expandedValueSentinel_def del: Resolve.simps)
qed

end
