(* ===== verification/Ledger.thy ===== *)
theory Ledger
  imports Go_Base
begin

text \<open>
  The contract the cardinality components share: a running total over keyed contributions.
  \<open>CardinalityTracker\<close> keeps one for its store total and one per family, keyed by the UID of
  the object; \<open>GlobalCardinalityManager\<close> keeps one keyed by the UID of the monitor. A provider
  promises that \<open>put\<close> replaces the contribution of a key, \<open>del\<close> removes it, and that each
  changes the running total by exactly the difference. What clients rely on is proved once,
  for any sequence of operations: the total is the sum of the contributions that are present,
  reprocessing a key never counts it twice, and a delete forgets it.
\<close>

datatype ('u, 'v) ledger_op = LPut 'u 'v | LDel 'u

fun ledger_ref :: "('u, 'v) ledger_op \<Rightarrow> ('u, 'v) gomap \<Rightarrow> ('u, 'v) gomap" where
  "ledger_ref (LPut u v) m = gm_put u v m"
| "ledger_ref (LDel u) m = gm_del u m"

fun op_ok :: "('v \<Rightarrow> bool) \<Rightarrow> ('u, 'v) ledger_op \<Rightarrow> bool" where
  "op_ok ok (LPut u v) = ok v"
| "op_ok ok (LDel u) = True"

locale ledger =
  fixes entries :: "'s \<Rightarrow> ('u, 'v) gomap"
    and weight :: "'v \<Rightarrow> 'w::ab_group_add"
    and total :: "'s \<Rightarrow> 'w"
    and put :: "'u \<Rightarrow> 'v \<Rightarrow> 's \<Rightarrow> 's"
    and del :: "'u \<Rightarrow> 's \<Rightarrow> 's"
    and ok :: "'v \<Rightarrow> bool"
    and inv :: "'s \<Rightarrow> bool"
  assumes keys_ok: "inv s \<Longrightarrow> gm_ok (entries s)"
    and inv_put: "inv s \<Longrightarrow> ok v \<Longrightarrow> inv (put u v s)"
    and inv_del: "inv s \<Longrightarrow> inv (del u s)"
    and entries_put: "inv s \<Longrightarrow> ok v \<Longrightarrow> entries (put u v s) = gm_put u v (entries s)"
    and entries_del: "inv s \<Longrightarrow> entries (del u s) = gm_del u (entries s)"
    and total_put: "inv s \<Longrightarrow> ok v \<Longrightarrow> total (put u v s) =
      total s - (case map_of (entries s) u of None \<Rightarrow> 0 | Some w \<Rightarrow> weight w) + weight v"
    and total_del: "inv s \<Longrightarrow> total (del u s) =
      total s - (case map_of (entries s) u of None \<Rightarrow> 0 | Some w \<Rightarrow> weight w)"
begin

definition balanced :: "'s \<Rightarrow> bool" where
  "balanced s \<longleftrightarrow> inv s \<and> total s = gm_sum weight (entries s)"

fun app :: "('u, 'v) ledger_op \<Rightarrow> 's \<Rightarrow> 's" where
  "app (LPut u v) s = put u v s"
| "app (LDel u) s = del u s"

lemma balanced_put: "balanced s \<Longrightarrow> ok v \<Longrightarrow> balanced (put u v s)"
  using keys_ok by (simp add: balanced_def inv_put entries_put total_put gm_sum_put)

lemma balanced_del: "balanced s \<Longrightarrow> balanced (del u s)"
  using keys_ok by (simp add: balanced_def inv_del entries_del total_del gm_sum_del)

lemma balanced_run:
  "balanced s \<Longrightarrow> list_all (op_ok ok) ops \<Longrightarrow> balanced (fold app ops s)"
proof (induction ops arbitrary: s)
  case (Cons a ops)
  then show ?case by (cases a) (auto intro: balanced_put balanced_del)
qed simp

lemma entries_run:
  "balanced s \<Longrightarrow> list_all (op_ok ok) ops \<Longrightarrow>
   entries (fold app ops s) = fold ledger_ref ops (entries s)"
proof (induction ops arbitrary: s)
  case (Cons a ops)
  then show ?case
    by (cases a)
      (auto simp: entries_put entries_del balanced_def [of s] balanced_put balanced_del
        dest: Cons.IH [OF balanced_put] Cons.IH [OF balanced_del])
qed simp

text \<open>The total after any run is the sum of the contributions of the reference run.\<close>

lemma total_run:
  assumes "balanced s" and "list_all (op_ok ok) ops"
  shows "total (fold app ops s) = gm_sum weight (fold ledger_ref ops (entries s))"
  using balanced_run [OF assms] entries_run [OF assms] by (simp add: balanced_def)

lemma put_twice:
  assumes "balanced s" and "ok v" and "ok v'"
  shows "total (put u v (put u v' s)) = total (put u v s)"
  using total_run [OF assms(1), of "[LPut u v', LPut u v]"] total_run [OF assms(1), of "[LPut u v]"]
    assms by simp

lemma del_put:
  assumes "balanced s" and "ok v"
  shows "total (del u (put u v s)) = total (del u s)"
  using total_run [OF assms(1), of "[LPut u v, LDel u]"] total_run [OF assms(1), of "[LDel u]"]
    assms by simp

end

end
