(* ===== verification/Cardinality_Tracker.thy ===== *)
theory Cardinality_Tracker
  imports Ledger Go_Float
begin

text \<open>
  \<open>internal/cardinality.go\<close>: the per-store cardinality tracker. The state is the Go struct
  field by field (the mutex is left out: every method holds it for its whole body, so each
  method is one atomic step), and each method is one definition.
\<close>

section \<open>Violations\<close>

datatype threshold_level =
  ThresholdLevelFamily | ThresholdLevelStore | ThresholdLevelResource | ThresholdLevelGlobal

datatype violation_severity = SeverityWarning | SeverityCutoff

text \<open>A cutoff is the more severe of the two.\<close>

instantiation violation_severity :: linorder
begin

definition less_eq_violation_severity :: "violation_severity \<Rightarrow> violation_severity \<Rightarrow> bool" where
  "less_eq_violation_severity a b \<longleftrightarrow> a = SeverityWarning \<or> b = SeverityCutoff"

definition less_violation_severity :: "violation_severity \<Rightarrow> violation_severity \<Rightarrow> bool" where
  "less_violation_severity a b \<longleftrightarrow> a = SeverityWarning \<and> b = SeverityCutoff"

instance
  by standard (auto simp: less_eq_violation_severity_def less_violation_severity_def
      intro: violation_severity.exhaust)

end

record threshold_violation =
  v_Level :: threshold_level
  v_Name :: string
  v_Current :: int64
  v_Threshold :: int64
  v_Severity :: violation_severity
  v_StoreName :: string
  v_RMMName :: string
  v_RMMNamespace :: string

text \<open>The composite literals of the source set the first five fields.\<close>

definition violation ::
    "threshold_level \<Rightarrow> string \<Rightarrow> int64 \<Rightarrow> int64 \<Rightarrow> violation_severity \<Rightarrow> threshold_violation" where
  "violation l n c t s = \<lparr>v_Level = l, v_Name = n, v_Current = c, v_Threshold = t, v_Severity = s,
     v_StoreName = [], v_RMMName = [], v_RMMNamespace = []\<rparr>"

section \<open>The tracker\<close>

record cardinality_tracker =
  ct_perFamily :: "(string, int64) gomap"
  ct_perObject :: "(uid, (string, int64) gomap) gomap"
  ct_storeTotal :: int64
  ct_cutoffFamilies :: "(string, bool) gomap"
  ct_storeThreshold :: int64
  ct_familyThreshold :: "(string, int64) gomap"
  ct_warningRatio :: float64

definition NewCardinalityTracker :: "int64 \<Rightarrow> float64 \<Rightarrow> cardinality_tracker" where
  "NewCardinalityTracker storeThreshold warningRatio =
     \<lparr>ct_perFamily = [], ct_perObject = [], ct_storeTotal = 0, ct_cutoffFamilies = [],
      ct_storeThreshold = storeThreshold, ct_familyThreshold = [],
      ct_warningRatio = warningRatio\<rparr>"

definition SetFamilyThreshold :: "string \<Rightarrow> int64 \<Rightarrow> cardinality_tracker \<Rightarrow> cardinality_tracker" where
  "SetFamilyThreshold familyName threshold ct =
     ct\<lparr>ct_familyThreshold := gm_put familyName threshold (ct_familyThreshold ct)\<rparr>"

text \<open>The two loops of \<open>Update\<close> and \<open>Delete\<close> over the counts of one object.\<close>

fun subtract_counts ::
    "(string, int64) gomap \<Rightarrow> (string, int64) gomap \<Rightarrow> int64 \<Rightarrow> (string, int64) gomap \<times> int64" where
  "subtract_counts [] pf t = (pf, t)"
| "subtract_counts ((family, n) # cs) pf t =
     subtract_counts cs (gm_put family (gm_get 0 pf family - n) pf) (t - n)"

fun add_counts ::
    "(string, int64) gomap \<Rightarrow> (string, int64) gomap \<Rightarrow> int64 \<Rightarrow> (string, int64) gomap \<times> int64" where
  "add_counts [] pf t = (pf, t)"
| "add_counts ((family, n) # cs) pf t =
     add_counts cs (gm_put family (gm_get 0 pf family + n) pf) (t + n)"

definition ct_Update ::
    "uid \<Rightarrow> (string, int64) gomap \<Rightarrow> cardinality_tracker \<Rightarrow> cardinality_tracker" where
  "ct_Update uid perFamilyCounts ct =
     (let (pf, t) = (case map_of (ct_perObject ct) uid of
            Some oldCounts \<Rightarrow> subtract_counts oldCounts (ct_perFamily ct) (ct_storeTotal ct)
          | None \<Rightarrow> (ct_perFamily ct, ct_storeTotal ct));
          po = gm_put uid perFamilyCounts (ct_perObject ct);
          (pf, t) = add_counts perFamilyCounts pf t
      in ct\<lparr>ct_perFamily := pf, ct_perObject := po, ct_storeTotal := t\<rparr>)"

definition ct_Delete :: "uid \<Rightarrow> cardinality_tracker \<Rightarrow> cardinality_tracker" where
  "ct_Delete uid ct =
     (case map_of (ct_perObject ct) uid of
        Some counts \<Rightarrow>
          (let (pf, t) = subtract_counts counts (ct_perFamily ct) (ct_storeTotal ct)
           in ct\<lparr>ct_perFamily := pf, ct_storeTotal := t, ct_perObject := gm_del uid (ct_perObject ct)\<rparr>)
      | None \<Rightarrow> ct)"

definition GetStoreTotal :: "cardinality_tracker \<Rightarrow> int64" where
  "GetStoreTotal ct = ct_storeTotal ct"

definition GetFamilyCardinality :: "cardinality_tracker \<Rightarrow> string \<Rightarrow> int64" where
  "GetFamilyCardinality ct familyName = gm_get 0 (ct_perFamily ct) familyName"

definition GetAllFamilyCardinalities :: "cardinality_tracker \<Rightarrow> (string, int64) gomap" where
  "GetAllFamilyCardinalities ct = ct_perFamily ct"

text \<open>The body of the loop of \<open>CheckThresholds\<close> over \<open>perFamily\<close>: one family.\<close>

definition check_family ::
    "cardinality_tracker \<Rightarrow> string \<times> int64 \<Rightarrow> (string, bool) gomap \<times> threshold_violation list
      \<Rightarrow> (string, bool) gomap \<times> threshold_violation list" where
  "check_family ct = (\<lambda>(family, count) (cf, vs).
     (case map_of (ct_familyThreshold ct) family of
        None \<Rightarrow> (cf, vs)
      | Some threshold \<Rightarrow>
          if threshold \<le>s 0 then (cf, vs)
          else
            (let ratio = f64_ratio count threshold
             in if f64_less f64_one ratio
                then (gm_put family True cf,
                      vs @ [violation ThresholdLevelFamily family count threshold SeverityCutoff])
                else if f64_leq (ct_warningRatio ct) ratio
                then (gm_put family False cf,
                      vs @ [violation ThresholdLevelFamily family count threshold SeverityWarning])
                else (gm_put family False cf, vs))))"

text \<open>The store-level check that follows the loop.\<close>

definition check_store ::
    "cardinality_tracker \<Rightarrow> (string, bool) gomap \<times> threshold_violation list
      \<Rightarrow> (string, bool) gomap \<times> threshold_violation list" where
  "check_store ct = (\<lambda>(cf, vs).
     if 0 <s ct_storeThreshold ct
     then
       (let ratio = f64_ratio (ct_storeTotal ct) (ct_storeThreshold ct)
        in if f64_less f64_one ratio
           then (fold (\<lambda>(family, _). gm_put family True) (ct_perFamily ct) cf,
                 vs @ [violation ThresholdLevelStore ''store'' (ct_storeTotal ct)
                         (ct_storeThreshold ct) SeverityCutoff])
           else if f64_leq (ct_warningRatio ct) ratio
           then (cf, vs @ [violation ThresholdLevelStore ''store'' (ct_storeTotal ct)
                         (ct_storeThreshold ct) SeverityWarning])
           else (cf, vs))
     else (cf, vs))"

definition ct_CheckThresholds ::
    "cardinality_tracker \<Rightarrow> threshold_violation list \<times> cardinality_tracker" where
  "ct_CheckThresholds ct =
     (let (cf, vs) = check_store ct
            (fold (check_family ct) (ct_perFamily ct) (ct_cutoffFamilies ct, []))
      in (vs, ct\<lparr>ct_cutoffFamilies := cf\<rparr>))"

definition IsFamilyCutoff :: "cardinality_tracker \<Rightarrow> string \<Rightarrow> bool" where
  "IsFamilyCutoff ct familyName = gm_get False (ct_cutoffFamilies ct) familyName"

definition SetFamilyCutoff :: "string \<Rightarrow> bool \<Rightarrow> cardinality_tracker \<Rightarrow> cardinality_tracker" where
  "SetFamilyCutoff familyName cutoff ct =
     ct\<lparr>ct_cutoffFamilies := gm_put familyName cutoff (ct_cutoffFamilies ct)\<rparr>"

definition GetCutoffFamilies :: "cardinality_tracker \<Rightarrow> string list" where
  "GetCutoffFamilies ct = map fst (filter snd (ct_cutoffFamilies ct))"

definition ct_Reset :: "cardinality_tracker \<Rightarrow> cardinality_tracker" where
  "ct_Reset ct = ct\<lparr>ct_perFamily := [], ct_perObject := [], ct_storeTotal := 0,
     ct_cutoffFamilies := []\<rparr>"

definition GetStoreThreshold :: "cardinality_tracker \<Rightarrow> int64" where
  "GetStoreThreshold ct = ct_storeThreshold ct"

definition GetFamilyThreshold :: "cardinality_tracker \<Rightarrow> string \<Rightarrow> int64" where
  "GetFamilyThreshold ct familyName = gm_get 0 (ct_familyThreshold ct) familyName"

definition GetAllFamilyThresholds :: "cardinality_tracker \<Rightarrow> (string, int64) gomap" where
  "GetAllFamilyThresholds ct = ct_familyThreshold ct"

section \<open>The bookkeeping loops\<close>

lemma subtract_counts_total: "snd (subtract_counts cs pf t) = t - gm_sum (\<lambda>n. n) cs"
  by (induction cs pf t rule: subtract_counts.induct) (auto simp: algebra_simps)

lemma add_counts_total: "snd (add_counts cs pf t) = t + gm_sum (\<lambda>n. n) cs"
  by (induction cs pf t rule: add_counts.induct) (auto simp: algebra_simps)

lemma subtract_counts_get:
  "gm_ok cs \<Longrightarrow> gm_get 0 (fst (subtract_counts cs pf t)) f = gm_get 0 pf f - gm_get 0 cs f"
  by (induction cs pf t rule: subtract_counts.induct)
    (auto simp: gm_get_absent map_of_None_keys)

lemma add_counts_get:
  "gm_ok cs \<Longrightarrow> gm_get 0 (fst (add_counts cs pf t)) f = gm_get 0 pf f + gm_get 0 cs f"
  by (induction cs pf t rule: add_counts.induct)
    (auto simp: gm_get_absent map_of_None_keys)

lemma subtract_counts_ok: "gm_ok pf \<Longrightarrow> gm_ok (fst (subtract_counts cs pf t))"
  by (induction cs pf t rule: subtract_counts.induct) auto

lemma add_counts_ok: "gm_ok pf \<Longrightarrow> gm_ok (fst (add_counts cs pf t))"
  by (induction cs pf t rule: add_counts.induct) auto

lemma subtract_counts_keys:
  "fst ` set (fst (subtract_counts cs pf t)) = fst ` set pf \<union> fst ` set cs"
  by (induction cs pf t rule: subtract_counts.induct) auto

lemma add_counts_keys: "fst ` set (fst (add_counts cs pf t)) = fst ` set pf \<union> fst ` set cs"
  by (induction cs pf t rule: add_counts.induct) auto

lemmas counts_simps = subtract_counts_total add_counts_total subtract_counts_get add_counts_get
  subtract_counts_ok add_counts_ok subtract_counts_keys add_counts_keys

section \<open>The tracker is a ledger, for its store total and for each family\<close>

text \<open>Every map of the state is a map.\<close>

definition ct_ok :: "cardinality_tracker \<Rightarrow> bool" where
  "ct_ok ct \<longleftrightarrow> gm_ok (ct_perFamily ct) \<and> gm_ok (ct_perObject ct)
     \<and> list_all (\<lambda>p. gm_ok (snd p)) (ct_perObject ct)"

lemma ct_ok_obj: "ct_ok ct \<Longrightarrow> map_of (ct_perObject ct) u = Some cs \<Longrightarrow> gm_ok cs"
  by (fastforce simp: ct_ok_def list_all_iff dest: map_of_SomeD)

lemma list_all_put:
  "list_all (\<lambda>p. P (snd p)) m \<Longrightarrow> P v \<Longrightarrow> list_all (\<lambda>p. P (snd p)) (gm_put k v m)"
  by (induction m) auto

lemma list_all_del: "list_all P m \<Longrightarrow> list_all P (gm_del k m)"
  by (auto simp: list_all_iff AList.delete_eq)

lemma ct_Update_fields [simp]:
  "ct_perObject (ct_Update u cs ct) = gm_put u cs (ct_perObject ct)"
  "ct_cutoffFamilies (ct_Update u cs ct) = ct_cutoffFamilies ct"
  "ct_storeThreshold (ct_Update u cs ct) = ct_storeThreshold ct"
  "ct_familyThreshold (ct_Update u cs ct) = ct_familyThreshold ct"
  "ct_warningRatio (ct_Update u cs ct) = ct_warningRatio ct"
  by (simp_all add: ct_Update_def Let_def split: prod.splits)

lemma ct_Delete_fields [simp]:
  "ct_perObject (ct_Delete u ct) = gm_del u (ct_perObject ct)"
  "ct_cutoffFamilies (ct_Delete u ct) = ct_cutoffFamilies ct"
  "ct_storeThreshold (ct_Delete u ct) = ct_storeThreshold ct"
  "ct_familyThreshold (ct_Delete u ct) = ct_familyThreshold ct"
  "ct_warningRatio (ct_Delete u ct) = ct_warningRatio ct"
  by (auto simp: ct_Delete_def Let_def gm_del_absent map_of_eq_None_iff
      split: prod.splits option.splits)

lemma ct_Update_total:
  "ct_storeTotal (ct_Update u cs ct) = ct_storeTotal ct
     - (case map_of (ct_perObject ct) u of None \<Rightarrow> 0 | Some old \<Rightarrow> gm_sum (\<lambda>n. n) old)
     + gm_sum (\<lambda>n. n) cs"
  using subtract_counts_total add_counts_total
  by (auto simp: ct_Update_def Let_def split: prod.splits option.splits)
    (metis snd_conv)+

lemma ct_Delete_total:
  "ct_storeTotal (ct_Delete u ct) = ct_storeTotal ct
     - (case map_of (ct_perObject ct) u of None \<Rightarrow> 0 | Some old \<Rightarrow> gm_sum (\<lambda>n. n) old)"
  using subtract_counts_total
  by (auto simp: ct_Delete_def Let_def split: prod.splits option.splits) (metis snd_conv)

lemma ct_Update_family:
  assumes "ct_ok ct" and "gm_ok cs"
  shows "GetFamilyCardinality (ct_Update u cs ct) f = GetFamilyCardinality ct f
     - (case map_of (ct_perObject ct) u of None \<Rightarrow> 0 | Some old \<Rightarrow> gm_get 0 old f)
     + gm_get 0 cs f"
  using assms ct_ok_obj [OF assms(1)]
  by (auto simp: ct_Update_def GetFamilyCardinality_def Let_def split_def counts_simps
      split: option.splits)

lemma ct_Delete_family:
  assumes "ct_ok ct"
  shows "GetFamilyCardinality (ct_Delete u ct) f = GetFamilyCardinality ct f
     - (case map_of (ct_perObject ct) u of None \<Rightarrow> 0 | Some old \<Rightarrow> gm_get 0 old f)"
  using ct_ok_obj [OF assms]
  by (auto simp: ct_Delete_def GetFamilyCardinality_def Let_def split_def counts_simps
      split: option.splits)

lemma ct_ok_Update: "ct_ok ct \<Longrightarrow> gm_ok cs \<Longrightarrow> ct_ok (ct_Update u cs ct)"
  by (auto simp: ct_ok_def list_all_put ct_Update_def Let_def split_def counts_simps
      split: option.splits)

lemma ct_ok_Delete: "ct_ok ct \<Longrightarrow> ct_ok (ct_Delete u ct)"
  by (auto simp: ct_ok_def list_all_del ct_Delete_def Let_def split_def counts_simps
      split: option.splits)

interpretation ct_store: ledger ct_perObject "gm_sum (\<lambda>n. n)" ct_storeTotal ct_Update ct_Delete gm_ok ct_ok
  by unfold_locales (simp_all add: ct_ok_Update ct_ok_Delete ct_Update_total ct_Delete_total,
      simp add: ct_ok_def)

interpretation ct_fam: ledger ct_perObject "\<lambda>cs. gm_get 0 cs f" "\<lambda>ct. GetFamilyCardinality ct f"
    ct_Update ct_Delete gm_ok ct_ok
  for f
  by unfold_locales (simp_all add: ct_ok_Update ct_ok_Delete ct_Update_family ct_Delete_family,
      simp add: ct_ok_def)

text \<open>The invariant of the tracker: both kinds of totals are balanced, for every family.\<close>

definition ct_inv :: "cardinality_tracker \<Rightarrow> bool" where
  "ct_inv ct \<longleftrightarrow> ct_ok ct
     \<and> GetStoreTotal ct = gm_sum (gm_sum (\<lambda>n. n)) (ct_perObject ct)
     \<and> (\<forall>f. GetFamilyCardinality ct f = gm_sum (\<lambda>cs. gm_get 0 cs f) (ct_perObject ct))"

lemma ct_inv_balanced:
  "ct_inv ct \<longleftrightarrow> ct_store.balanced ct \<and> (\<forall>f. ct_fam.balanced f ct)"
  by (auto simp: ct_inv_def ct_store.balanced_def ct_fam.balanced_def GetStoreTotal_def)

section \<open>What CheckThresholds decides\<close>

text \<open>The violation one family contributes, and whether it has a threshold at all.\<close>

definition family_limited :: "cardinality_tracker \<Rightarrow> string \<Rightarrow> bool" where
  "family_limited ct f \<longleftrightarrow> 0 <s GetFamilyThreshold ct f"

definition family_violations :: "cardinality_tracker \<Rightarrow> string \<times> int64 \<Rightarrow> threshold_violation list" where
  "family_violations ct p = snd (check_family ct p ([], []))"

definition store_exceeded :: "cardinality_tracker \<Rightarrow> bool" where
  "store_exceeded ct \<longleftrightarrow> 0 <s ct_storeThreshold ct
     \<and> f64_less f64_one (f64_ratio (ct_storeTotal ct) (ct_storeThreshold ct))"

lemma check_family_split:
  "check_family ct (f, n) (cf, vs) =
     (if family_limited ct f
      then gm_put f (f64_less f64_one (f64_ratio n (GetFamilyThreshold ct f))) cf else cf,
      vs @ family_violations ct (f, n))"
  by (auto simp: check_family_def family_violations_def family_limited_def GetFamilyThreshold_def
      gm_get_def Let_def word_sless_alt word_sle_eq split: option.splits)

lemma check_families_violations:
  "snd (fold (check_family ct) pf (cf, vs)) = vs @ concat (map (family_violations ct) pf)"
  by (induction pf arbitrary: cf vs) (auto simp: check_family_split)

lemma check_families_cutoff:
  "gm_ok pf \<Longrightarrow>
   gm_get False (fst (fold (check_family ct) pf (cf, vs))) f =
     (case map_of pf f of
        Some n \<Rightarrow> (if family_limited ct f then f64_less f64_one (f64_ratio n (GetFamilyThreshold ct f))
                  else gm_get False cf f)
      | None \<Rightarrow> gm_get False cf f)"
  by (induction pf arbitrary: cf vs)
    (auto simp: check_family_split map_of_None_keys split: option.splits)

lemma cut_all_get:
  "gm_get False (fold (\<lambda>p. gm_put (fst p) True) pf cf) f
     \<longleftrightarrow> f \<in> fst ` set pf \<or> gm_get False cf f"
  by (induction pf arbitrary: cf) (auto split: if_splits)

definition store_violations :: "cardinality_tracker \<Rightarrow> threshold_violation list" where
  "store_violations ct = snd (check_store ct ([], []))"

lemma check_store_fst:
  "fst (check_store ct (cf, vs)) =
     (if store_exceeded ct then fold (\<lambda>p. gm_put (fst p) True) (ct_perFamily ct) cf else cf)"
  by (auto simp: check_store_def store_exceeded_def Let_def split_def)

lemma check_store_snd: "snd (check_store ct (cf, vs)) = vs @ store_violations ct"
  by (auto simp: check_store_def store_violations_def Let_def)

lemma check_keeps [simp]:
  "ct_perFamily (snd (ct_CheckThresholds ct)) = ct_perFamily ct"
  "ct_perObject (snd (ct_CheckThresholds ct)) = ct_perObject ct"
  "ct_storeTotal (snd (ct_CheckThresholds ct)) = ct_storeTotal ct"
  "ct_storeThreshold (snd (ct_CheckThresholds ct)) = ct_storeThreshold ct"
  "ct_familyThreshold (snd (ct_CheckThresholds ct)) = ct_familyThreshold ct"
  "ct_warningRatio (snd (ct_CheckThresholds ct)) = ct_warningRatio ct"
  by (simp_all add: ct_CheckThresholds_def Let_def split_def)

lemma check_cutoff_iff:
  assumes "gm_ok (ct_perFamily ct)"
  shows "IsFamilyCutoff (snd (ct_CheckThresholds ct)) f \<longleftrightarrow>
    (case map_of (ct_perFamily ct) f of
       Some n \<Rightarrow> store_exceeded ct \<or>
         (if family_limited ct f then f64_less f64_one (f64_ratio n (GetFamilyThreshold ct f))
          else IsFamilyCutoff ct f)
     | None \<Rightarrow> IsFamilyCutoff ct f)"
proof -
  obtain cf vs where fo: "fold (check_family ct) (ct_perFamily ct) (ct_cutoffFamilies ct, []) = (cf, vs)"
    by fastforce
  have "gm_get False cf f = (case map_of (ct_perFamily ct) f of
       Some n \<Rightarrow> (if family_limited ct f then f64_less f64_one (f64_ratio n (GetFamilyThreshold ct f))
                  else gm_get False (ct_cutoffFamilies ct) f)
     | None \<Rightarrow> gm_get False (ct_cutoffFamilies ct) f)"
    using check_families_cutoff [OF assms, of ct "ct_cutoffFamilies ct" "[]" f] by (simp add: fo)
  then show ?thesis
    by (auto simp: IsFamilyCutoff_def ct_CheckThresholds_def Let_def split_def fo
        check_store_fst cut_all_get keys_iff split: option.splits)
qed

lemma check_violations:
  "fst (ct_CheckThresholds ct) =
     concat (map (family_violations ct) (ct_perFamily ct)) @ store_violations ct"
proof -
  obtain cf vs where fo: "fold (check_family ct) (ct_perFamily ct) (ct_cutoffFamilies ct, []) = (cf, vs)"
    by fastforce
  have "vs = concat (map (family_violations ct) (ct_perFamily ct))"
    using check_families_violations [of ct "ct_perFamily ct" "ct_cutoffFamilies ct" "[]"]
    by (simp add: fo)
  then show ?thesis
    by (simp add: ct_CheckThresholds_def Let_def split_def fo check_store_snd)
qed

section \<open>Runs of the tracker\<close>

text \<open>
  The mutating methods as events. An update carries the counts of one object, a Go map, so
  its keys are distinct: \<open>top_ok\<close>.
\<close>

datatype tracker_op =
    TUpdate uid "(string, int64) gomap"
  | TDelete uid
  | TCheck
  | TSetFamilyThreshold string int64
  | TSetFamilyCutoff string bool
  | TReset

fun tracker_step :: "tracker_op \<Rightarrow> cardinality_tracker \<Rightarrow> cardinality_tracker" where
  "tracker_step (TUpdate u cs) ct = ct_Update u cs ct"
| "tracker_step (TDelete u) ct = ct_Delete u ct"
| "tracker_step TCheck ct = snd (ct_CheckThresholds ct)"
| "tracker_step (TSetFamilyThreshold f t) ct = SetFamilyThreshold f t ct"
| "tracker_step (TSetFamilyCutoff f b) ct = SetFamilyCutoff f b ct"
| "tracker_step TReset ct = ct_Reset ct"

fun top_ok :: "tracker_op \<Rightarrow> bool" where
  "top_ok (TUpdate u cs) = gm_ok cs"
| "top_ok _ = True"

text \<open>The abstract state: which counts each live object contributes.\<close>

fun tracker_spec :: "tracker_op \<Rightarrow> (uid, (string, int64) gomap) gomap
      \<Rightarrow> (uid, (string, int64) gomap) gomap" where
  "tracker_spec (TUpdate u cs) m = gm_put u cs m"
| "tracker_spec (TDelete u) m = gm_del u m"
| "tracker_spec TReset m = []"
| "tracker_spec _ m = m"

abbreviation tracker_run :: "tracker_op list \<Rightarrow> cardinality_tracker \<Rightarrow> cardinality_tracker" where
  "tracker_run \<equiv> fold tracker_step"

lemma ct_inv_New: "ct_inv (NewCardinalityTracker st wr)"
  by (simp add: ct_inv_def ct_ok_def NewCardinalityTracker_def GetStoreTotal_def
      GetFamilyCardinality_def)

lemma ct_inv_cong:
  assumes "ct_inv ct" and "ct_perFamily ct' = ct_perFamily ct"
    and "ct_perObject ct' = ct_perObject ct" and "ct_storeTotal ct' = ct_storeTotal ct"
  shows "ct_inv ct'"
  using assms by (simp add: ct_inv_def ct_ok_def GetStoreTotal_def GetFamilyCardinality_def)

lemma ct_inv_step:
  assumes "ct_inv ct" and "top_ok a"
  shows "ct_inv (tracker_step a ct)"
proof (cases a)
  case (TUpdate u cs)
  with assms show ?thesis
    by (auto simp: ct_inv_balanced intro: ct_store.balanced_put ct_fam.balanced_put)
next
  case (TDelete u)
  with assms show ?thesis
    by (auto simp: ct_inv_balanced intro: ct_store.balanced_del ct_fam.balanced_del)
next
  case TReset
  then show ?thesis
    by (simp add: ct_inv_def ct_ok_def ct_Reset_def GetStoreTotal_def GetFamilyCardinality_def)
qed (use assms in \<open>auto intro: ct_inv_cong simp: SetFamilyThreshold_def SetFamilyCutoff_def\<close>)

lemma tracker_step_spec: "ct_perObject (tracker_step a ct) = tracker_spec a (ct_perObject ct)"
  by (cases a) (auto simp: SetFamilyThreshold_def SetFamilyCutoff_def ct_Reset_def)

lemma ct_inv_run: "ct_inv ct \<Longrightarrow> list_all top_ok ops \<Longrightarrow> ct_inv (tracker_run ops ct)"
  by (induction ops arbitrary: ct) (auto intro: ct_inv_step)

lemma tracker_run_spec:
  "ct_perObject (tracker_run ops ct) = fold tracker_spec ops (ct_perObject ct)"
  by (induction ops arbitrary: ct) (simp_all add: tracker_step_spec)

subsection \<open>The totals are the sums over the live objects\<close>

text \<open>C1: after any sequence of updates, deletes, checks and resets on a new tracker, the
  contributions kept are exactly those of the last update of each object not deleted since,
  the store total is their sum, and every family's cardinality is the sum of that family's
  counts: nothing is counted twice and nothing is left behind.\<close>

theorem tracker_totals_refine:
  assumes "list_all top_ok ops"
  shows "let ct = tracker_run ops (NewCardinalityTracker st wr); live = fold tracker_spec ops []
         in ct_perObject ct = live
          \<and> GetStoreTotal ct = gm_sum (gm_sum (\<lambda>n. n)) live
          \<and> (\<forall>f. GetFamilyCardinality ct f = gm_sum (\<lambda>cs. gm_get 0 cs f) live)"
proof -
  have "ct_perObject (NewCardinalityTracker st wr) = []" by (simp add: NewCardinalityTracker_def)
  with ct_inv_run [OF ct_inv_New assms, of st wr] show ?thesis
    by (simp add: ct_inv_def tracker_run_spec Let_def)
qed

theorem tracker_totals_refine_witness:
  "GetStoreTotal (tracker_run [TUpdate ''a'' [(''f'', 2)], TUpdate ''b'' [(''f'', 3)], TCheck,
      TUpdate ''a'' [(''f'', 5), (''g'', 1)], TDelete ''b''] (NewCardinalityTracker 10 f64_0_8)) = 6"
  using tracker_totals_refine [of "[TUpdate ''a'' [(''f'', 2)], TUpdate ''b'' [(''f'', 3)], TCheck,
      TUpdate ''a'' [(''f'', 5), (''g'', 1)], TDelete ''b'']" 10 f64_0_8]
  by (simp add: Let_def)

text \<open>C6: the store total is the exact number of samples. If every count stored is
  non-negative and the true sum is below \<open>2 ^ 63\<close>, the wrapping \<open>int64\<close> bookkeeping of any run
  reads back as the integer sum over the live objects.\<close>

theorem tracker_total_exact:
  assumes "list_all top_ok ops"
    and "live = fold tracker_spec ops []"
    and "\<forall>cs \<in> snd ` set live. \<forall>n \<in> snd ` set cs. 0 \<le> sint n"
    and "gm_sum (gm_sum sint) live < 2 ^ 63"
  shows "sint (GetStoreTotal (tracker_run ops (NewCardinalityTracker st wr))) = gm_sum (gm_sum sint) live"
proof -
  have "sint (gm_sum (gm_sum (\<lambda>n. n)) live) = gm_sum (gm_sum sint) live"
    by (rule sint_gm_sum) (use assms(3,4) in \<open>auto intro!: gm_sum_nonneg sint_gm_sum\<close>)
  with tracker_totals_refine [OF assms(1), of st wr] show ?thesis
    by (simp add: Let_def assms(2))
qed

theorem tracker_total_exact_witness:
  "sint (GetStoreTotal (tracker_run [TUpdate ''a'' [(''f'', 5), (''g'', 1)], TUpdate ''a'' [(''f'', 2)]]
      (NewCardinalityTracker 10 f64_0_8))) = 2"
  using tracker_total_exact [of "[TUpdate ''a'' [(''f'', 5), (''g'', 1)], TUpdate ''a'' [(''f'', 2)]]"
      "[(''a'', [(''f'', 2)])]" 10 f64_0_8]
  by simp

text \<open>Reprocessing an object replaces its contribution. Whatever an earlier update of the
  same object stored, the totals after the next one do not depend on it, so an informer relist
  leaves them unchanged.\<close>

theorem relist_idempotent:
  assumes "ct_inv ct" and "gm_ok cs" and "gm_ok cs'"
  shows "GetStoreTotal (ct_Update u cs (ct_Update u cs' ct)) = GetStoreTotal (ct_Update u cs ct)
    \<and> (\<forall>f. GetFamilyCardinality (ct_Update u cs (ct_Update u cs' ct)) f
          = GetFamilyCardinality (ct_Update u cs ct) f)"
  using assms ct_store.put_twice [of ct cs cs' u] ct_fam.put_twice [of _ ct cs cs' u]
  by (simp add: ct_inv_balanced GetStoreTotal_def)

theorem relist_idempotent_witness:
  "GetStoreTotal (ct_Update ''a'' [(''f'', 2)] (ct_Update ''a'' [(''f'', 9)] (NewCardinalityTracker 0 f64_0_8)))
   = GetStoreTotal (ct_Update ''a'' [(''f'', 2)] (NewCardinalityTracker 0 f64_0_8))"
  using relist_idempotent [of "NewCardinalityTracker 0 f64_0_8" "[(''f'', 2)]" "[(''f'', 9)]" "''a''"]
  by (simp add: ct_inv_New)

section \<open>The cutoff decision\<close>

lemma cutoff_exact:
  assumes "gm_ok (ct_perFamily ct)" and "map_of (ct_perFamily ct) f = Some n"
    and "0 < sint (GetFamilyThreshold ct f)" and "sint (GetFamilyThreshold ct f) \<le> 2 ^ 53"
    and "sint n \<le> 2 ^ 53" and "sint (GetStoreTotal ct) \<le> 2 ^ 53"
    and "sint (GetStoreThreshold ct) \<le> 0
       \<or> sint (GetStoreTotal ct) \<le> sint (GetStoreThreshold ct) \<and> sint (GetStoreThreshold ct) \<le> 2 ^ 53"
  shows "IsFamilyCutoff (snd (ct_CheckThresholds ct)) f \<longleftrightarrow> sint (GetFamilyThreshold ct f) < sint n"
proof -
  have "\<not> store_exceeded ct"
    using assms(6,7) f64_ratio_exceeds [of "ct_storeTotal ct" "ct_storeThreshold ct"]
    by (auto simp: store_exceeded_def word_sless_alt GetStoreTotal_def GetStoreThreshold_def)
  with assms show ?thesis
    by (simp add: check_cutoff_iff family_limited_def word_sless_alt f64_ratio_exceeds)
qed

text \<open>C7: up to \<open>2 ^ 53\<close> the floating-point tests of the source decide exactly. After a check a
  family the tracker has counts of is cut off if the store has a positive limit and holds more;
  otherwise, if it has a positive threshold of its own, exactly when its count is strictly above
  it, so that it recovers, whatever its state was; and a family without a threshold, in a store
  within its limit, keeps the state it had. A family without counts keeps its state too.\<close>

theorem check_family_cutoff_exact:
  assumes "gm_ok (ct_perFamily ct)"
    and "sint (GetFamilyThreshold ct f) \<le> 2 ^ 53" and "sint (GetFamilyCardinality ct f) \<le> 2 ^ 53"
    and "sint (GetStoreThreshold ct) \<le> 2 ^ 53" and "sint (GetStoreTotal ct) \<le> 2 ^ 53"
  shows "IsFamilyCutoff (snd (ct_CheckThresholds ct)) f \<longleftrightarrow>
    (if f \<notin> fst ` set (ct_perFamily ct) then IsFamilyCutoff ct f
     else if 0 < sint (GetStoreThreshold ct) \<and> sint (GetStoreThreshold ct) < sint (GetStoreTotal ct) then True
     else if 0 < sint (GetFamilyThreshold ct f) then sint (GetFamilyThreshold ct f) < sint (GetFamilyCardinality ct f)
     else IsFamilyCutoff ct f)"
proof -
  have store: "store_exceeded ct \<longleftrightarrow>
      0 < sint (GetStoreThreshold ct) \<and> sint (GetStoreThreshold ct) < sint (GetStoreTotal ct)"
    using assms(4,5) f64_ratio_exceeds [of "ct_storeTotal ct" "ct_storeThreshold ct"]
    by (auto simp: store_exceeded_def word_sless_alt GetStoreTotal_def GetStoreThreshold_def)
  show ?thesis
  proof (cases "map_of (ct_perFamily ct) f")
    case None
    then show ?thesis by (simp add: check_cutoff_iff [OF assms(1)] keys_iff)
  next
    case (Some n)
    then have "GetFamilyCardinality ct f = n" by (simp add: GetFamilyCardinality_def gm_get_def)
    with Some store assms(2,3) show ?thesis
      by (auto simp: check_cutoff_iff [OF assms(1)] keys_iff family_limited_def word_sless_alt f64_ratio_exceeds)
  qed
qed

text \<open>A family below its own threshold in a store over its limit, and one that is above its
  threshold in a store within its limit while a second one has recovered.\<close>

theorem check_family_cutoff_exact_witness:
  "IsFamilyCutoff (snd (ct_CheckThresholds (SetFamilyThreshold ''f'' 5
     (ct_Update ''a'' [(''f'', 2)] (NewCardinalityTracker 1 f64_0_8))))) ''f''
   \<and> IsFamilyCutoff (snd (ct_CheckThresholds (SetFamilyThreshold ''f'' 1
     (ct_Update ''a'' [(''f'', 2)] (NewCardinalityTracker 10 f64_0_8))))) ''f''
   \<and> \<not> IsFamilyCutoff (snd (ct_CheckThresholds (SetFamilyCutoff ''f'' True (SetFamilyThreshold ''f'' 2
     (ct_Update ''a'' [(''f'', 2)] (NewCardinalityTracker 10 f64_0_8)))))) ''f''"
proof -
  let ?u = "\<lambda>limit t. SetFamilyThreshold ''f'' t (ct_Update ''a'' [(''f'', 2)] (NewCardinalityTracker limit f64_0_8))"
  have fields: "ct_perFamily (?u limit t) = [(''f'', 2)]" "GetFamilyThreshold (?u limit t) ''f'' = t"
    "GetFamilyCardinality (?u limit t) ''f'' = 2" "GetStoreTotal (?u limit t) = 2" "GetStoreThreshold (?u limit t) = limit"
    for limit t
    by (simp_all add: SetFamilyThreshold_def ct_Update_def NewCardinalityTracker_def GetFamilyThreshold_def
        GetFamilyCardinality_def GetStoreTotal_def GetStoreThreshold_def)
  have cutoff: "ct_perFamily (SetFamilyCutoff g c ct) = ct_perFamily ct"
    "GetFamilyThreshold (SetFamilyCutoff g c ct) = GetFamilyThreshold ct"
    "GetFamilyCardinality (SetFamilyCutoff g c ct) = GetFamilyCardinality ct"
    "GetStoreTotal (SetFamilyCutoff g c ct) = GetStoreTotal ct" "GetStoreThreshold (SetFamilyCutoff g c ct) = GetStoreThreshold ct"
    for g c ct
    by (simp_all add: fun_eq_iff SetFamilyCutoff_def GetFamilyThreshold_def GetFamilyCardinality_def
        GetStoreTotal_def GetStoreThreshold_def)
  show ?thesis
    by (intro conjI) (subst check_family_cutoff_exact; simp only: cutoff fields; simp)+
qed

subsection \<open>Which violations are reported\<close>

lemma family_violations_eq:
  "family_violations ct (f, n) =
     (if family_limited ct f then
        (if f64_less f64_one (f64_ratio n (GetFamilyThreshold ct f))
         then [violation ThresholdLevelFamily f n (GetFamilyThreshold ct f) SeverityCutoff]
         else if f64_leq (ct_warningRatio ct) (f64_ratio n (GetFamilyThreshold ct f))
         then [violation ThresholdLevelFamily f n (GetFamilyThreshold ct f) SeverityWarning]
         else [])
      else [])"
  by (auto simp: check_family_def family_violations_def family_limited_def GetFamilyThreshold_def
      gm_get_def Let_def word_sless_alt word_sle_eq split: option.splits)

lemma store_violations_eq:
  "store_violations ct =
     (if 0 <s ct_storeThreshold ct then
        (if store_exceeded ct
         then [violation ThresholdLevelStore ''store'' (ct_storeTotal ct) (ct_storeThreshold ct) SeverityCutoff]
         else if f64_leq (ct_warningRatio ct) (f64_ratio (ct_storeTotal ct) (ct_storeThreshold ct))
         then [violation ThresholdLevelStore ''store'' (ct_storeTotal ct) (ct_storeThreshold ct) SeverityWarning]
         else [])
      else [])"
  by (auto simp: check_store_def store_violations_def store_exceeded_def Let_def)

lemma violation_simps [simp]:
  "v_Level (violation l n c t s) = l" "v_Name (violation l n c t s) = n"
  "v_Current (violation l n c t s) = c" "v_Threshold (violation l n c t s) = t"
  "v_Severity (violation l n c t s) = s"
  by (simp_all add: violation_def)

lemma cutoff_in_family_violations:
  "v \<in> set (family_violations ct (f, n)) \<and> v_Severity v = SeverityCutoff \<longleftrightarrow>
     v = violation ThresholdLevelFamily f n (GetFamilyThreshold ct f) SeverityCutoff
     \<and> family_limited ct f \<and> f64_less f64_one (f64_ratio n (GetFamilyThreshold ct f))"
  by (auto simp: family_violations_eq)

text \<open>The reported violations are exact. The cutoff violations of the family level are
  exactly those of the tracked families whose own positive threshold is strictly below their
  count, each with that count and threshold.\<close>

theorem check_reports_cutoffs_exactly:
  assumes "gm_ok (ct_perFamily ct)"
    and "\<forall>n \<in> snd ` set (ct_perFamily ct). sint n \<le> 2 ^ 53"
    and "\<forall>t \<in> snd ` set (ct_familyThreshold ct). sint t \<le> 2 ^ 53"
  shows "{v \<in> set (fst (ct_CheckThresholds ct)). v_Level v = ThresholdLevelFamily \<and> v_Severity v = SeverityCutoff}
     = {violation ThresholdLevelFamily f n t SeverityCutoff | f n t.
          map_of (ct_perFamily ct) f = Some n \<and> GetFamilyThreshold ct f = t
          \<and> 0 < sint t \<and> sint t < sint n}" (is "?L = ?R")
proof -
  have limit: "sint (GetFamilyThreshold ct f) \<le> 2 ^ 53" for f
    using assms(3) by (force simp: GetFamilyThreshold_def gm_get_def split: option.splits dest: map_of_SomeD)
  have exact: "f64_less f64_one (f64_ratio n (GetFamilyThreshold ct f))
      \<longleftrightarrow> sint (GetFamilyThreshold ct f) < sint n"
    if "map_of (ct_perFamily ct) f = Some n" "family_limited ct f" for f n
  proof (rule f64_ratio_exceeds)
    have "n \<in> snd ` set (ct_perFamily ct)" using that(1) by (force dest: map_of_SomeD)
    then show "sint n \<le> 2 ^ 53" using assms(2) by blast
  qed (use that limit in \<open>auto simp: family_limited_def word_sless_alt\<close>)
  have "?L = {v. \<exists>p \<in> set (ct_perFamily ct). v \<in> set (family_violations ct p) \<and> v_Severity v = SeverityCutoff}"
    by (auto simp: check_violations store_violations_eq family_violations_eq split: if_splits)
  also have "\<dots> = {v. \<exists>f n. map_of (ct_perFamily ct) f = Some n
      \<and> v \<in> set (family_violations ct (f, n)) \<and> v_Severity v = SeverityCutoff}"
    using map_of_gm_mem [OF assms(1)] map_of_SomeD [of "ct_perFamily ct"] by fast
  also have "\<dots> = ?R"
    by (intro Collect_cong ex_cong1 conj_cong refl)
      (auto simp: cutoff_in_family_violations exact family_limited_def word_sless_alt)
  finally show ?thesis .
qed

theorem check_reports_cutoffs_exactly_witness:
  "violation ThresholdLevelFamily ''f'' 2 1 SeverityCutoff
     \<in> set (fst (ct_CheckThresholds (SetFamilyThreshold ''f'' 1
            (ct_Update ''a'' [(''f'', 2)] (NewCardinalityTracker 0 f64_0_8)))))"
proof -
  let ?ct = "SetFamilyThreshold ''f'' 1 (ct_Update ''a'' [(''f'', 2)] (NewCardinalityTracker 0 f64_0_8))"
  have fields: "ct_perFamily ?ct = [(''f'', 2)]" "ct_familyThreshold ?ct = [(''f'', 1)]"
    by (simp_all add: SetFamilyThreshold_def ct_Update_def NewCardinalityTracker_def)
  have "violation ThresholdLevelFamily ''f'' 2 1 SeverityCutoff
      \<in> {v \<in> set (fst (ct_CheckThresholds ?ct)). v_Level v = ThresholdLevelFamily \<and> v_Severity v = SeverityCutoff}"
    by (subst check_reports_cutoffs_exactly) (simp_all add: fields GetFamilyThreshold_def)
  then show ?thesis by blast
qed

subsection \<open>Iteration order and repetition\<close>

lemma check_cong:
  assumes "ct_familyThreshold ct' = ct_familyThreshold ct" and "ct_warningRatio ct' = ct_warningRatio ct"
    and "ct_storeTotal ct' = ct_storeTotal ct" and "ct_storeThreshold ct' = ct_storeThreshold ct"
  shows "family_violations ct' = family_violations ct" "store_violations ct' = store_violations ct"
    "store_exceeded ct' = store_exceeded ct" "family_limited ct' f = family_limited ct f"
    "GetFamilyThreshold ct' f = GetFamilyThreshold ct f"
  using assms
  by (auto simp: fun_eq_iff family_violations_eq store_violations_eq store_exceeded_def
      family_limited_def GetFamilyThreshold_def)

text \<open>\<open>CheckThresholds\<close> ranges over a Go map, whose order is not fixed. Two runs over the
  same map in different orders report the same violations, as a multiset, and leave the same
  families cut off.\<close>

theorem check_order_independent:
  assumes "gm_same (ct_perFamily ct) pf"
  shows "mset (fst (ct_CheckThresholds ct)) = mset (fst (ct_CheckThresholds (ct\<lparr>ct_perFamily := pf\<rparr>)))
    \<and> (\<forall>f. IsFamilyCutoff (snd (ct_CheckThresholds ct)) f
         = IsFamilyCutoff (snd (ct_CheckThresholds (ct\<lparr>ct_perFamily := pf\<rparr>))) f)"
proof -
  let ?ct = "ct\<lparr>ct_perFamily := pf\<rparr>"
  note cong = check_cong [of ?ct ct, simplified]
  have "mset (concat (map (family_violations ct) (ct_perFamily ct)))
      = mset (concat (map (family_violations ct) pf))"
    using assms by (auto simp: gm_same_def mset_concat)
      (metis mset_map sum_mset_sum_list)
  moreover have "IsFamilyCutoff ?ct f = IsFamilyCutoff ct f" for f
    by (simp add: IsFamilyCutoff_def)
  moreover have "gm_ok (ct_perFamily ct)" "gm_ok pf" using assms by (auto simp: gm_same_def)
  ultimately show ?thesis
    using gm_same_map_of [OF assms]
    by (simp add: check_violations check_cutoff_iff cong split: option.splits)
qed

theorem check_order_independent_witness:
  "let ct = SetFamilyThreshold ''f'' 1 (ct_Update ''a'' [(''f'', 2), (''g'', 1)] (NewCardinalityTracker 0 f64_0_8))
   in mset (fst (ct_CheckThresholds ct))
      = mset (fst (ct_CheckThresholds (ct\<lparr>ct_perFamily := [(''g'', 1), (''f'', 2)]\<rparr>)))"
  unfolding Let_def
  by (rule check_order_independent [THEN conjunct1])
    (simp add: gm_same_def SetFamilyThreshold_def ct_Update_def NewCardinalityTracker_def)

text \<open>Checking twice is checking once: with no update in between, a second check reports
  the same violations and changes no cutoff, which is what the status update relies on when it
  runs the check again.\<close>

theorem check_idempotent:
  assumes "gm_ok (ct_perFamily ct)"
  shows "fst (ct_CheckThresholds (snd (ct_CheckThresholds ct))) = fst (ct_CheckThresholds ct)
    \<and> (\<forall>f. IsFamilyCutoff (snd (ct_CheckThresholds (snd (ct_CheckThresholds ct)))) f
          = IsFamilyCutoff (snd (ct_CheckThresholds ct)) f)"
proof -
  let ?ct = "snd (ct_CheckThresholds ct)"
  note cong = check_cong [of ?ct ct, simplified]
  show ?thesis
    using check_cutoff_iff [OF assms] check_cutoff_iff [of ?ct] assms
    by (auto simp: check_violations cong split: option.splits)
qed

theorem check_idempotent_witness:
  "let ct = SetFamilyThreshold ''f'' 1 (ct_Update ''a'' [(''f'', 2)] (NewCardinalityTracker 0 f64_0_8))
   in fst (ct_CheckThresholds (snd (ct_CheckThresholds ct))) = fst (ct_CheckThresholds ct)"
  unfolding Let_def
  by (rule check_idempotent [THEN conjunct1])
    (simp add: SetFamilyThreshold_def ct_Update_def NewCardinalityTracker_def)

subsection \<open>Recovery\<close>

fun processing_op :: "tracker_op \<Rightarrow> bool" where
  "processing_op (TUpdate u cs) = gm_ok cs"
| "processing_op (TDelete u) = True"
| "processing_op TCheck = True"
| "processing_op _ = False"

lemma processing_top_ok: "processing_op a \<Longrightarrow> top_ok a"
  by (cases a) auto

lemma processing_step:
  assumes "processing_op a" and "ct_inv ct" and "\<not> family_limited ct f" and "IsFamilyCutoff ct f"
  shows "\<not> family_limited (tracker_step a ct) f \<and> IsFamilyCutoff (tracker_step a ct) f"
proof (cases a)
  case TCheck
  have "gm_ok (ct_perFamily ct)" using assms(2) by (simp add: ct_inv_def ct_ok_def)
  then show ?thesis
    using TCheck assms by (auto simp: check_cutoff_iff check_cong(4) [of "snd (ct_CheckThresholds ct)" ct]
        split: option.splits)
qed (use assms in \<open>auto simp: IsFamilyCutoff_def family_limited_def GetFamilyThreshold_def\<close>)

text \<open>C33: a cutoff imposed by the store limit on a family without a threshold of its own is
  permanent. Whatever objects are updated or deleted afterwards, and however small the store
  becomes, no later check lifts it: the loop of \<open>CheckThresholds\<close> skips such a family and the
  store-level branch only ever sets the flag.\<close>

theorem store_cutoff_sticks:
  assumes "ct_inv ct" and "\<not> 0 <s GetFamilyThreshold ct f" and "IsFamilyCutoff ct f"
    and "list_all processing_op ops"
  shows "IsFamilyCutoff (tracker_run ops ct) f"
proof -
  have "ct_inv ct \<Longrightarrow> \<not> family_limited ct f \<Longrightarrow> IsFamilyCutoff ct f \<Longrightarrow> list_all processing_op ops
      \<Longrightarrow> IsFamilyCutoff (tracker_run ops ct) f"
  proof (induction ops arbitrary: ct)
    case (Cons a ops)
    then have "ct_inv (tracker_step a ct)" by (simp add: ct_inv_step processing_top_ok)
    with Cons show ?case using processing_step [of a ct f] by simp
  qed simp
  with assms show ?thesis by (simp add: family_limited_def)
qed

theorem store_cutoff_sticks_witness:
  "let ct = snd (ct_CheckThresholds (ct_Update ''a'' [(''f'', 2)] (NewCardinalityTracker 1 f64_0_8)))
   in IsFamilyCutoff (tracker_run [TDelete ''a'', TCheck] ct) ''f''
      \<and> GetStoreTotal (tracker_run [TDelete ''a'', TCheck] ct) = 0"
proof -
  let ?before = "ct_Update ''a'' [(''f'', 2)] (NewCardinalityTracker 1 f64_0_8)"
  let ?ct = "snd (ct_CheckThresholds ?before)"
  have inv: "ct_inv ?ct"
    using ct_inv_run [OF ct_inv_New, of "[TUpdate ''a'' [(''f'', 2)], TCheck]" 1 f64_0_8] by simp
  have fields: "ct_perFamily ?before = [(''f'', 2)]" "GetFamilyThreshold ?ct ''f'' = 0"
    "ct_storeTotal ?before = 2" "ct_storeThreshold ?before = 1"
    by (simp_all add: ct_Update_def NewCardinalityTracker_def GetFamilyThreshold_def)
  have "store_exceeded ?before"
    using f64_ratio_exceeds [of 2 1]
    by (simp add: store_exceeded_def ct_Update_total NewCardinalityTracker_def word_sless_alt)
  then have "IsFamilyCutoff ?ct ''f''"
    by (simp add: check_cutoff_iff fields)
  then have "IsFamilyCutoff (tracker_run [TDelete ''a'', TCheck] ?ct) ''f''"
    by (intro store_cutoff_sticks inv) (simp_all add: fields)
  moreover have "GetStoreTotal (tracker_run [TDelete ''a'', TCheck] ?ct) = 0"
    by (simp add: GetStoreTotal_def ct_Delete_total fields ct_Update_def NewCardinalityTracker_def)
  ultimately show ?thesis by (simp add: Let_def)
qed

text \<open>The bound of the exact decision is sharp. One sample above a threshold of \<open>2 ^ 53\<close>
  rounds to a ratio of one: the check reports no cutoff and leaves the family on, although its
  count is strictly above its limit.\<close>

theorem check_misses_beyond_2_53:
  "let ct = SetFamilyThreshold ''f'' 9007199254740992
         (ct_Update ''a'' [(''f'', 9007199254740993)] (NewCardinalityTracker 0 f64_0_8));
       (vs, ct') = ct_CheckThresholds ct
   in GetFamilyThreshold ct ''f'' <s GetFamilyCardinality ct ''f''
      \<and> map v_Severity vs = [SeverityWarning] \<and> \<not> IsFamilyCutoff ct' ''f''"
proof -
  let ?ct = "SetFamilyThreshold ''f'' 9007199254740992
         (ct_Update ''a'' [(''f'', 9007199254740993)] (NewCardinalityTracker 0 f64_0_8))"
  have fields: "ct_perFamily ?ct = [(''f'', 9007199254740993)]"
    "GetFamilyThreshold ?ct ''f'' = 9007199254740992" "ct_storeThreshold ?ct = 0"
    "ct_warningRatio ?ct = f64_0_8"
    by (simp_all add: SetFamilyThreshold_def ct_Update_def NewCardinalityTracker_def GetFamilyThreshold_def)
  have count: "GetFamilyCardinality ?ct ''f'' = 9007199254740993"
    by (simp add: GetFamilyCardinality_def fields)
  have less: "\<not> f64_less f64_one (f64_ratio 9007199254740993 9007199254740992)"
    and leq: "f64_leq f64_0_8 (f64_ratio 9007199254740993 9007199254740992)"
    by (simp_all add: f64_eval)
  have lim: "family_limited ?ct ''f''" by (simp add: family_limited_def fields word_sless_alt)
  have no_store: "\<not> store_exceeded ?ct" by (simp add: store_exceeded_def fields)
  have "fst (ct_CheckThresholds ?ct) = [violation ThresholdLevelFamily ''f'' 9007199254740993
      9007199254740992 SeverityWarning]"
    by (simp add: check_violations fields family_violations_eq store_violations_eq lim less leq)
  moreover have "\<not> IsFamilyCutoff (snd (ct_CheckThresholds ?ct)) ''f''"
    by (simp add: check_cutoff_iff fields lim less no_store)
  ultimately show ?thesis
    by (simp add: Let_def split_def fields count word_sless_alt)
qed

end
