(* ===== verification/Metric_Store.thy ===== *)
theory Metric_Store
  imports Family Cardinality_Tracker
begin

text \<open>
  \<open>internal/store.go\<close> and the building of a store in \<open>internal/builder.go\<close>. The store is the
  struct without logger and mutex: every method holds the mutex for its whole body, so a method
  is one step. The families are reached by pointer from their store alone, so updating them is
  updating the store. An operation is \<open>None\<close> when it panics; its boolean says whether it
  returned an error. The conversion of an object to unstructured form
  (\<open>runtime.DefaultUnstructuredConverter\<close>) may fail: the object is an option.
\<close>

record store =
  so_metrics :: "(uid, string list) gomap"
  so_headers :: "string list"
  so_celCostLimit :: int64
  so_celTimeout :: int
  so_cardinalityTracker :: "cardinality_tracker option"
  so_synced :: bool
  so_Group :: string
  so_Version :: string
  so_Kind :: string
  so_Families :: "family list"
  so_Resolver :: resolver_type
  so_Labels :: "label list"

definition newStore ::
    "string list \<Rightarrow> family list \<Rightarrow> resolver_type \<Rightarrow> label list \<Rightarrow> int64 \<Rightarrow> int \<Rightarrow> store" where
  "newStore headers families resolver labels celCostLimit celTimeout =
     \<lparr>so_metrics = [], so_headers = headers, so_celCostLimit = celCostLimit,
      so_celTimeout = celTimeout, so_cardinalityTracker = None, so_synced = False,
      so_Group = [], so_Version = [], so_Kind = [], so_Families = families,
      so_Resolver = resolver, so_Labels = labels\<rparr>"

section \<open>Generating the metrics of an object\<close>

definition inheritFamilyConfiguration :: "store \<Rightarrow> family \<Rightarrow> family" where
  "inheritFamilyConfiguration s f =
     (let f = (if fs_Resolver f = ResolverTypeNone then f\<lparr>fs_Resolver := so_Resolver s\<rparr> else f)
      in f\<lparr>fs_Labels := fs_Labels f @ so_Labels s\<rparr>)"

record metrics_with_cardinality =
  mc_metrics :: "string list"
  mc_perFamily :: "(string, int64) gomap"

text \<open>The loop over the families: the updated families, the texts and the counts so far.\<close>

fun generate_loop ::
    "'a metric_lib_scheme \<Rightarrow> store \<Rightarrow> uobject \<Rightarrow> family list \<Rightarrow> (string, int64) gomap
      \<Rightarrow> (family list \<times> string list \<times> (string, int64) gomap) option" where
  "generate_loop lib s obj [] perFamily = Some ([], [], perFamily)"
| "generate_loop lib s obj (f # fs) perFamily =
     (let f = inheritFamilyConfiguration s f in
      case buildMetricString lib f obj of
        None \<Rightarrow> None
      | Some (metricStr, sampleCount) \<Rightarrow>
          map_option (\<lambda>(fs, ms, pf). (f # fs, metricStr # ms, pf))
            (generate_loop lib s obj fs (gm_put (fs_Name f) sampleCount perFamily)))"

definition generateMetricsForObject ::
    "'a metric_lib_scheme \<Rightarrow> uobject \<Rightarrow> store \<Rightarrow> (metrics_with_cardinality \<times> store) option" where
  "generateMetricsForObject lib obj s =
     map_option (\<lambda>(fs, ms, pf). (\<lparr>mc_metrics = ms, mc_perFamily = pf\<rparr>, s\<lparr>so_Families := fs\<rparr>))
       (generate_loop lib s obj (so_Families s) [])"

section \<open>The operations of the reflector\<close>

definition checkAndApplyThresholds :: "store \<Rightarrow> threshold_violation list \<times> store" where
  "checkAndApplyThresholds s =
     (case so_cardinalityTracker s of
        None \<Rightarrow> ([], s)
      | Some ct \<Rightarrow>
          (let (violations, ct) = ct_CheckThresholds ct
           in (violations,
               s\<lparr>so_cardinalityTracker := Some ct,
                 so_Families := map (\<lambda>f. SetCutoff (IsFamilyCutoff ct (fs_Name f)) f) (so_Families s)\<rparr>)))"

definition store_Add ::
    "'a metric_lib_scheme \<Rightarrow> uobject option \<Rightarrow> store \<Rightarrow> (store \<times> bool) option" where
  "store_Add lib objectI s =
     (case objectI of
        None \<Rightarrow> Some (s, True)
      | Some obj \<Rightarrow>
          map_option
            (\<lambda>(result, s).
               let s = s\<lparr>so_metrics := gm_put (uo_UID obj) (mc_metrics result) (so_metrics s)\<rparr>;
                   s = (case so_cardinalityTracker s of
                          None \<Rightarrow> s
                        | Some ct \<Rightarrow>
                            snd (checkAndApplyThresholds
                              (s\<lparr>so_cardinalityTracker := Some (ct_Update (uo_UID obj) (mc_perFamily result) ct)\<rparr>)))
               in (s, False))
            (generateMetricsForObject lib obj s))"

definition store_Update ::
    "'a metric_lib_scheme \<Rightarrow> uobject option \<Rightarrow> store \<Rightarrow> (store \<times> bool) option" where
  "store_Update lib objectI s = store_Add lib objectI s"

text \<open>\<open>Delete\<close> reads only the UID; the accessor may fail.\<close>

definition store_Delete :: "uid option \<Rightarrow> store \<Rightarrow> store \<times> bool" where
  "store_Delete objectI s =
     (case objectI of
        None \<Rightarrow> (s, True)
      | Some uid \<Rightarrow>
          (let s = s\<lparr>so_metrics := gm_del uid (so_metrics s)\<rparr>
           in (case so_cardinalityTracker s of
                 None \<Rightarrow> s
               | Some ct \<Rightarrow>
                   snd (checkAndApplyThresholds (s\<lparr>so_cardinalityTracker := Some (ct_Delete uid ct)\<rparr>)),
               False)))"

fun add_items :: "'a metric_lib_scheme \<Rightarrow> uobject option list \<Rightarrow> store \<Rightarrow> store option" where
  "add_items lib [] s = Some s"
| "add_items lib (item # rest) s =
     (case store_Add lib item s of None \<Rightarrow> None | Some (s', _) \<Rightarrow> add_items lib rest s')"

definition store_Replace :: "'a metric_lib_scheme \<Rightarrow> uobject option list \<Rightarrow> store \<Rightarrow> store option" where
  "store_Replace lib items s = map_option (\<lambda>s. s\<lparr>so_synced := True\<rparr>) (add_items lib items s)"

definition IsSynced :: "store \<Rightarrow> bool" where
  "IsSynced s = so_synced s"

definition GetStoreIdentifier :: "store \<Rightarrow> string" where
  "GetStoreIdentifier s = so_Group s @ ''/'' @ so_Version s @ ''/'' @ so_Kind s"

definition SetCardinalityTracker :: "cardinality_tracker \<Rightarrow> store \<Rightarrow> store" where
  "SetCardinalityTracker ct s = s\<lparr>so_cardinalityTracker := Some ct\<rparr>"

section \<open>Building a store\<close>

text \<open>The link-time stamp if it is a number of seconds, otherwise the clock, as nanoseconds.\<close>

definition nowTime :: "string \<Rightarrow> int64 \<Rightarrow> int64" where
  "nowTime CreatedAtEpoch now =
     (if CreatedAtEpoch \<noteq> []
      then (case Atoi CreatedAtEpoch of Some epoch \<Rightarrow> word_of_int (epoch * 1000000000) | None \<Rightarrow> now)
      else now)"

definition buildMetricHeaders :: "family list \<Rightarrow> string list" where
  "buildMetricHeaders families = map buildHeaders families"

definition buildStore ::
    "int64 \<Rightarrow> string \<Rightarrow> string \<Rightarrow> string \<Rightarrow> family list \<Rightarrow> resolver_type \<Rightarrow> label list \<Rightarrow> int64 \<Rightarrow> int
      \<Rightarrow> string \<Rightarrow> string \<Rightarrow> int64 \<Rightarrow> float64 \<Rightarrow> store" where
  "buildStore familyCreatedAt grp version kind metricFamilies resolver labels celCostLimit celTimeout
       namespace name storeCardinalityLimit warningRatio =
     (let families = map (\<lambda>f. f\<lparr>fm_createdAt := familyCreatedAt, fm_celCostLimit := celCostLimit,
             fm_celTimeout := celTimeout, fm_managedRMMNamespace := namespace, fm_managedRMMName := name\<rparr>)
             metricFamilies;
          headers = buildMetricHeaders families;
          s = newStore headers families resolver labels celCostLimit celTimeout;
          s = s\<lparr>so_Group := grp, so_Version := version, so_Kind := kind\<rparr>;
          ct = fold (\<lambda>f ct. if 0 <s fs_CardinalityLimit f
                 then SetFamilyThreshold (fs_Name f) (fs_CardinalityLimit f) ct else ct)
               families (NewCardinalityTracker storeCardinalityLimit warningRatio)
      in SetCardinalityTracker ct s)"

section \<open>Lemmas\<close>

lemma inherit_simps [simp]:
  "fs_Name (inheritFamilyConfiguration s f) = fs_Name f"
  "fs_Metrics (inheritFamilyConfiguration s f) = fs_Metrics f"
  "fm_starlarkResolver (inheritFamilyConfiguration s f) = fm_starlarkResolver f"
  "IsCutoff (inheritFamilyConfiguration s f) = IsCutoff f"
  "fs_Labels (inheritFamilyConfiguration s f) = fs_Labels f @ so_Labels s"
  "fs_Resolver (inheritFamilyConfiguration s f) =
     (if fs_Resolver f = ResolverTypeNone then so_Resolver s else fs_Resolver f)"
  "family_kind (inheritFamilyConfiguration s f) = family_kind f"
  by (simp_all add: inheritFamilyConfiguration_def Let_def IsCutoff_def family_kind_def)

text \<open>The script path never panics either: keys and values of a sample have one length.\<close>

lemma write_starlark_some:
  assumes "index_sorter (SortIndices lib)"
  shows "\<exists>r. write_starlark_samples lib f raw ss acc = Some r"
proof (induction ss arbitrary: acc)
  case (Cons s ss)
  have "\<exists>acc'. write_starlark_sample lib f raw s acc = Some acc'"
    by (cases acc) (simp add: write_starlark_sample_def sortLabels_def Let_def writeMetricTo_eq split_def)
  then show ?case using Cons.IH by auto
qed simp

lemma buildMetricString_some:
  assumes "index_sorter (SortIndices lib)"
  shows "\<exists>s c. buildMetricString lib f raw = Some (s, c)"
proof (cases "fm_starlarkResolver f")
  case None
  then show ?thesis using build_metrics_eq [OF assms, of f raw "fs_Metrics f" "[]" 0]
    by (simp add: buildMetricString_def)
next
  case (Some sr)
  have "\<exists>r. buildMetricStringFromStarlark lib f sr raw = Some r"
    using write_starlark_some [OF assms] by (simp add: buildMetricStringFromStarlark_def split: sum.split)
  then show ?thesis by (auto simp: buildMetricString_def Some)
qed

text \<open>What one object contributes: the texts in the order of the families, the count per name.\<close>

definition object_counts :: "'a metric_lib_scheme \<Rightarrow> uobject \<Rightarrow> family list \<Rightarrow> (string, int64) gomap" where
  "object_counts lib obj fs =
     fold (\<lambda>f. gm_put (fs_Name f) (snd (the (buildMetricString lib f obj)))) fs []"

definition object_texts :: "'a metric_lib_scheme \<Rightarrow> uobject \<Rightarrow> family list \<Rightarrow> string list" where
  "object_texts lib obj fs = map (\<lambda>f. fst (the (buildMetricString lib f obj))) fs"

lemma generate_loop_eq:
  assumes "index_sorter (SortIndices lib)"
  shows "generate_loop lib s obj fs pf =
    (let fs' = map (inheritFamilyConfiguration s) fs
     in Some (fs', object_texts lib obj fs',
              fold (\<lambda>f. gm_put (fs_Name f) (snd (the (buildMetricString lib f obj)))) fs' pf))"
proof (induction fs arbitrary: pf)
  case (Cons f fs)
  obtain t c where "buildMetricString lib (inheritFamilyConfiguration s f) obj = Some (t, c)"
    using buildMetricString_some [OF assms] by blast
  with Cons show ?case by (simp add: Let_def object_texts_def)
qed (simp add: object_texts_def Let_def)

abbreviation inherited :: "store \<Rightarrow> family list" where
  "inherited s \<equiv> map (inheritFamilyConfiguration s) (so_Families s)"

lemma generate_eq:
  assumes "index_sorter (SortIndices lib)"
  shows "generateMetricsForObject lib obj s =
    Some (\<lparr>mc_metrics = object_texts lib obj (inherited s), mc_perFamily = object_counts lib obj (inherited s)\<rparr>,
          s\<lparr>so_Families := inherited s\<rparr>)"
  by (simp add: generateMetricsForObject_def generate_loop_eq [OF assms] object_counts_def Let_def)

lemma object_counts_ok [simp]: "gm_ok (object_counts lib obj fs)"
proof -
  have "gm_ok m \<Longrightarrow> gm_ok (fold (\<lambda>f. gm_put (g f) (h f)) fs m)" for m :: "(string, int64) gomap" and g h
    by (induction fs arbitrary: m) auto
  then show ?thesis by (simp add: object_counts_def)
qed

text \<open>The tracker after an operation, and the families with the flags it decides.\<close>

definition with_cutoffs :: "cardinality_tracker \<Rightarrow> family list \<Rightarrow> family list" where
  "with_cutoffs ct fs = map (\<lambda>f. SetCutoff (IsFamilyCutoff ct (fs_Name f)) f) fs"

lemma store_Add_eq:
  assumes "index_sorter (SortIndices lib)" and "so_cardinalityTracker s = Some ct"
    and "ct' = snd (ct_CheckThresholds (ct_Update (uo_UID obj) (object_counts lib obj (inherited s)) ct))"
  shows "store_Add lib (Some obj) s =
    Some (s\<lparr>so_Families := with_cutoffs ct' (inherited s),
            so_metrics := gm_put (uo_UID obj) (object_texts lib obj (inherited s)) (so_metrics s),
            so_cardinalityTracker := Some ct'\<rparr>, False)"
  by (simp add: store_Add_def generate_eq [OF assms(1)] assms(2,3) checkAndApplyThresholds_def
      with_cutoffs_def Let_def split_def)

lemma store_Delete_eq:
  assumes "so_cardinalityTracker s = Some ct"
    and "ct' = snd (ct_CheckThresholds (ct_Delete uid ct))"
  shows "store_Delete (Some uid) s =
    (s\<lparr>so_metrics := gm_del uid (so_metrics s), so_Families := with_cutoffs ct' (so_Families s),
       so_cardinalityTracker := Some ct'\<rparr>, False)"
  by (simp add: store_Delete_def assms checkAndApplyThresholds_def with_cutoffs_def Let_def split_def)

section \<open>Runs of the reflector\<close>

datatype store_event =
    EvAdd uobject
  | EvUpdate uobject
  | EvDelete uid
  | EvReplace "uobject list"

fun store_step :: "'a metric_lib_scheme \<Rightarrow> store_event \<Rightarrow> store \<Rightarrow> store option" where
  "store_step lib (EvAdd obj) s = map_option fst (store_Add lib (Some obj) s)"
| "store_step lib (EvUpdate obj) s = map_option fst (store_Update lib (Some obj) s)"
| "store_step lib (EvDelete uid) s = Some (fst (store_Delete (Some uid) s))"
| "store_step lib (EvReplace objs) s = store_Replace lib (map Some objs) s"

fun store_run :: "'a metric_lib_scheme \<Rightarrow> store_event list \<Rightarrow> store \<Rightarrow> store option" where
  "store_run lib [] s = Some s"
| "store_run lib (e # es) s = (case store_step lib e s of None \<Rightarrow> None | Some s' \<Rightarrow> store_run lib es s')"

text \<open>
  The invariant: the cached texts and the tracker know the same objects, every object has one
  text per family and one count per family name, the tracker's totals are the sums of those
  counts, and every family carries the cutoff flag the tracker decided for its name.
\<close>

definition store_inv :: "store \<Rightarrow> bool" where
  "store_inv s \<longleftrightarrow> (\<exists>ct. so_cardinalityTracker s = Some ct \<and> ct_inv ct
     \<and> gm_ok (so_metrics s) \<and> fst ` set (so_metrics s) = fst ` set (ct_perObject ct)
     \<and> (\<forall>ts \<in> snd ` set (so_metrics s). length ts = length (so_Families s))
     \<and> (\<forall>cs \<in> snd ` set (ct_perObject ct). fst ` set cs = fs_Name ` set (so_Families s))
     \<and> (\<forall>f \<in> set (so_Families s). IsCutoff f = IsFamilyCutoff ct (fs_Name f)))"

text \<open>The same without the flags, which the status goroutine sets without holding the mutex.\<close>

definition store_data :: "store \<Rightarrow> bool" where
  "store_data s \<longleftrightarrow> (\<exists>ct. so_cardinalityTracker s = Some ct \<and> ct_inv ct
     \<and> gm_ok (so_metrics s) \<and> fst ` set (so_metrics s) = fst ` set (ct_perObject ct)
     \<and> (\<forall>ts \<in> snd ` set (so_metrics s). length ts = length (so_Families s))
     \<and> (\<forall>cs \<in> snd ` set (ct_perObject ct). fst ` set cs = fs_Name ` set (so_Families s)))"

lemma store_inv_data: "store_inv s \<Longrightarrow> store_data s"
  by (auto simp: store_inv_def store_data_def)

lemma with_cutoffs_simps [simp]:
  "length (with_cutoffs ct fs) = length fs" "fs_Name ` set (with_cutoffs ct fs) = fs_Name ` set fs"
  "f \<in> set (with_cutoffs ct fs) \<Longrightarrow> IsCutoff f = IsFamilyCutoff ct (fs_Name f)"
  by (auto simp: with_cutoffs_def image_image)

lemma inherited_names [simp]: "fs_Name ` set (inherited s) = fs_Name ` set (so_Families s)"
  by (simp add: image_image)

lemma object_counts_keys: "fst ` set (object_counts lib obj fs) = fs_Name ` set fs"
proof -
  have "fst ` set (fold (\<lambda>f. gm_put (fs_Name f) (h f)) fs m) = fst ` set m \<union> fs_Name ` set fs"
    for m :: "(string, int64) gomap" and h
    by (induction fs arbitrary: m) auto
  then show ?thesis by (simp add: object_counts_def)
qed

lemma snd_set_put: "snd ` set (gm_put k v m) \<subseteq> insert v (snd ` set m)"
  by (induction m) auto

lemma snd_set_del: "snd ` set (gm_del k m) \<subseteq> snd ` set m"
  by (auto simp: AList.delete_eq)

lemma ball_put: "\<forall>v \<in> snd ` set m. P v \<Longrightarrow> P w \<Longrightarrow> \<forall>v \<in> snd ` set (gm_put k w m). P v"
  using snd_set_put [of k w m] by blast

lemma ball_del: "\<forall>v \<in> snd ` set m. P v \<Longrightarrow> \<forall>v \<in> snd ` set (gm_del k m). P v"
  using snd_set_del [of k m] by blast

lemma store_invI:
  assumes "so_cardinalityTracker s = Some ct" and "ct_inv ct" and "gm_ok (so_metrics s)"
    and "fst ` set (so_metrics s) = fst ` set (ct_perObject ct)"
    and "\<forall>ts \<in> snd ` set (so_metrics s). length ts = length (so_Families s)"
    and "\<forall>cs \<in> snd ` set (ct_perObject ct). fst ` set cs = fs_Name ` set (so_Families s)"
    and "so_Families s = with_cutoffs ct fs"
  shows "store_inv s"
  unfolding store_inv_def
  by (intro exI [of _ ct] conjI assms(1-6)) (simp add: assms(7))

lemma store_dataE:
  assumes "store_data s"
  obtains ct where "so_cardinalityTracker s = Some ct" and "ct_inv ct" and "gm_ok (so_metrics s)"
    and "fst ` set (so_metrics s) = fst ` set (ct_perObject ct)"
    and "\<forall>ts \<in> snd ` set (so_metrics s). length ts = length (so_Families s)"
    and "\<forall>cs \<in> snd ` set (ct_perObject ct). fst ` set cs = fs_Name ` set (so_Families s)"
  using assms unfolding store_data_def by (elim exE conjE) (rule that)

lemma store_invE:
  assumes "store_inv s"
  obtains ct where "so_cardinalityTracker s = Some ct" and "ct_inv ct" and "gm_ok (so_metrics s)"
    and "fst ` set (so_metrics s) = fst ` set (ct_perObject ct)"
    and "\<forall>ts \<in> snd ` set (so_metrics s). length ts = length (so_Families s)"
    and "\<forall>cs \<in> snd ` set (ct_perObject ct). fst ` set cs = fs_Name ` set (so_Families s)"
    and "\<forall>f \<in> set (so_Families s). IsCutoff f = IsFamilyCutoff ct (fs_Name f)"
  using assms unfolding store_inv_def by (elim exE conjE) (rule that)

lemma keys_del: "fst ` set (gm_del k m) = fst ` set m - {k}"
  by (auto simp: AList.delete_eq)

text \<open>An event needs the data only, and sets every flag again.\<close>

lemma store_data_Add:
  assumes "index_sorter (SortIndices lib)" and "store_data s"
  shows "\<exists>s'. store_Add lib (Some obj) s = Some (s', False) \<and> store_inv s'
     \<and> fst ` set (so_metrics s') = insert (uo_UID obj) (fst ` set (so_metrics s))"
proof -
  obtain ct where ct: "so_cardinalityTracker s = Some ct" "ct_inv ct" "gm_ok (so_metrics s)"
      "fst ` set (so_metrics s) = fst ` set (ct_perObject ct)"
      "\<forall>ts \<in> snd ` set (so_metrics s). length ts = length (so_Families s)"
      "\<forall>cs \<in> snd ` set (ct_perObject ct). fst ` set cs = fs_Name ` set (so_Families s)"
    using assms(2) by (rule store_dataE)
  let ?cs = "object_counts lib obj (inherited s)" and ?ts = "object_texts lib obj (inherited s)"
  define ct' where "ct' = snd (ct_CheckThresholds (ct_Update (uo_UID obj) ?cs ct))"
  have inv: "ct_inv ct'"
    using ct_inv_run [OF ct(2), of "[TUpdate (uo_UID obj) ?cs, TCheck]"] by (simp add: ct'_def)
  have po: "ct_perObject ct' = gm_put (uo_UID obj) ?cs (ct_perObject ct)" by (simp add: ct'_def)
  have cs: "\<forall>cs \<in> snd ` set (ct_perObject ct'). fst ` set cs = fs_Name ` set (so_Families s)"
    unfolding po by (rule ball_put [OF ct(6)]) (simp add: object_counts_keys image_image)
  have ts: "\<forall>ts \<in> snd ` set (gm_put (uo_UID obj) ?ts (so_metrics s)). length ts = length (so_Families s)"
    by (rule ball_put [OF ct(5)]) (simp add: object_texts_def)
  let ?s' = "s\<lparr>so_Families := with_cutoffs ct' (inherited s),
      so_metrics := gm_put (uo_UID obj) ?ts (so_metrics s), so_cardinalityTracker := Some ct'\<rparr>"
  have "store_Add lib (Some obj) s = Some (?s', False)"
    by (rule store_Add_eq [OF assms(1) ct(1)]) (simp add: ct'_def)
  moreover have "store_inv ?s'"
    by (rule store_invI [where fs = "inherited s", OF _ inv])
      (use cs ts ct(3,4) in \<open>simp_all add: po image_image\<close>)
  ultimately show ?thesis by simp
qed

lemma store_data_Delete:
  assumes "store_data s"
  shows "store_inv (fst (store_Delete (Some uid) s))
     \<and> fst ` set (so_metrics (fst (store_Delete (Some uid) s))) = fst ` set (so_metrics s) - {uid}"
proof -
  obtain ct where ct: "so_cardinalityTracker s = Some ct" "ct_inv ct" "gm_ok (so_metrics s)"
      "fst ` set (so_metrics s) = fst ` set (ct_perObject ct)"
      "\<forall>ts \<in> snd ` set (so_metrics s). length ts = length (so_Families s)"
      "\<forall>cs \<in> snd ` set (ct_perObject ct). fst ` set cs = fs_Name ` set (so_Families s)"
    using assms by (rule store_dataE)
  define ct' where "ct' = snd (ct_CheckThresholds (ct_Delete uid ct))"
  have inv: "ct_inv ct'"
    using ct_inv_run [OF ct(2), of "[TDelete uid, TCheck]"] by (simp add: ct'_def)
  have po: "ct_perObject ct' = gm_del uid (ct_perObject ct)" by (simp add: ct'_def)
  have cs: "\<forall>cs \<in> snd ` set (ct_perObject ct'). fst ` set cs = fs_Name ` set (so_Families s)"
    unfolding po by (rule ball_del [OF ct(6)])
  have ts: "\<forall>ts \<in> snd ` set (gm_del uid (so_metrics s)). length ts = length (so_Families s)"
    by (rule ball_del [OF ct(5)])
  let ?s' = "s\<lparr>so_metrics := gm_del uid (so_metrics s), so_Families := with_cutoffs ct' (so_Families s),
       so_cardinalityTracker := Some ct'\<rparr>"
  have "store_inv ?s'"
    by (rule store_invI [where fs = "so_Families s", OF _ inv])
      (use cs ts ct(3,4) in \<open>simp_all add: po keys_del\<close>)
  then show ?thesis by (simp add: store_Delete_eq [OF ct(1) ct'_def] keys_del)
qed

lemmas store_inv_Add = store_data_Add [OF _ store_inv_data]
lemmas store_inv_Delete = store_data_Delete [OF store_inv_data]

lemma store_inv_items:
  assumes "index_sorter (SortIndices lib)" and "store_inv s"
  shows "\<exists>s'. add_items lib (map Some objs) s = Some s' \<and> store_inv s'
     \<and> fst ` set (so_metrics s') = uo_UID ` set objs \<union> fst ` set (so_metrics s)"
  using assms(2)
proof (induction objs arbitrary: s)
  case (Cons obj objs)
  obtain s1 where "store_Add lib (Some obj) s = Some (s1, False)" "store_inv s1"
    "fst ` set (so_metrics s1) = insert (uo_UID obj) (fst ` set (so_metrics s))"
    using store_inv_Add [OF assms(1) Cons.prems] by blast
  with Cons.IH [of s1] show ?case by auto
qed simp

text \<open>The objects known after an event.\<close>

fun event_uids :: "store_event \<Rightarrow> uid set \<Rightarrow> uid set" where
  "event_uids (EvAdd obj) us = insert (uo_UID obj) us"
| "event_uids (EvUpdate obj) us = insert (uo_UID obj) us"
| "event_uids (EvDelete uid) us = us - {uid}"
| "event_uids (EvReplace objs) us = uo_UID ` set objs \<union> us"

lemma store_inv_step:
  assumes "index_sorter (SortIndices lib)" and "store_inv s"
  shows "\<exists>s'. store_step lib e s = Some s' \<and> store_inv s'
     \<and> fst ` set (so_metrics s') = event_uids e (fst ` set (so_metrics s))"
proof (cases e)
  case (EvAdd obj)
  then show ?thesis using store_inv_Add [OF assms, of obj] by auto
next
  case (EvUpdate obj)
  then show ?thesis using store_inv_Add [OF assms, of obj] by (auto simp: store_Update_def)
next
  case (EvDelete uid)
  then show ?thesis using store_inv_Delete [OF assms(2), of uid] by auto
next
  case (EvReplace objs)
  obtain s' where "add_items lib (map Some objs) s = Some s'" "store_inv s'"
    "fst ` set (so_metrics s') = uo_UID ` set objs \<union> fst ` set (so_metrics s)"
    using store_inv_items [OF assms, of objs] by blast
  then show ?thesis by (simp add: EvReplace store_Replace_def store_inv_def)
qed

lemma store_data_step:
  assumes "index_sorter (SortIndices lib)" and "store_data s" and "store_step lib e s = Some s'"
  shows "store_data s'"
proof (cases e)
  case (EvAdd obj)
  then show ?thesis using store_data_Add [OF assms(1,2), of obj] assms(3) store_inv_data by auto
next
  case (EvUpdate obj)
  then show ?thesis using store_data_Add [OF assms(1,2), of obj] assms(3) store_inv_data by (auto simp: store_Update_def)
next
  case (EvDelete uid)
  then show ?thesis using store_data_Delete [OF assms(2), of uid] assms(3) store_inv_data by auto
next
  case (EvReplace objs)
  have "store_data s'" if "add_items lib (map Some objs) s = Some s'" "store_data s" for s s'
    using that
  proof (induction objs arbitrary: s)
    case (Cons obj objs)
    obtain s1 where "store_Add lib (Some obj) s = Some (s1, False)" "store_inv s1"
      using store_data_Add [OF assms(1) Cons.prems(2)] by blast
    with Cons show ?case by (auto dest: store_inv_data)
  qed simp
  then show ?thesis using assms(2,3) by (auto simp: EvReplace store_Replace_def store_data_def)
qed

lemma store_inv_run:
  assumes "index_sorter (SortIndices lib)" and "store_inv s"
  shows "\<exists>s'. store_run lib es s = Some s' \<and> store_inv s'
     \<and> fst ` set (so_metrics s') = fold event_uids es (fst ` set (so_metrics s))"
  using assms(2)
proof (induction es arbitrary: s)
  case (Cons e es)
  obtain s1 where "store_step lib e s = Some s1" "store_inv s1"
    "fst ` set (so_metrics s1) = event_uids e (fst ` set (so_metrics s))"
    using store_inv_step [OF assms(1) Cons.prems] by blast
  with Cons.IH [of s1] show ?case by simp
qed simp

section \<open>Properties\<close>

lemma thresholds_fold_fields:
  "ct_perFamily (fold (\<lambda>f ct. if 0 <s fs_CardinalityLimit f
       then SetFamilyThreshold (fs_Name f) (fs_CardinalityLimit f) ct else ct) fs ct) = ct_perFamily ct
   \<and> ct_perObject (fold (\<lambda>f ct. if 0 <s fs_CardinalityLimit f
       then SetFamilyThreshold (fs_Name f) (fs_CardinalityLimit f) ct else ct) fs ct) = ct_perObject ct
   \<and> ct_storeTotal (fold (\<lambda>f ct. if 0 <s fs_CardinalityLimit f
       then SetFamilyThreshold (fs_Name f) (fs_CardinalityLimit f) ct else ct) fs ct) = ct_storeTotal ct
   \<and> ct_cutoffFamilies (fold (\<lambda>f ct. if 0 <s fs_CardinalityLimit f
       then SetFamilyThreshold (fs_Name f) (fs_CardinalityLimit f) ct else ct) fs ct) = ct_cutoffFamilies ct"
  for fs :: "family list"
  by (induction fs arbitrary: ct) (simp_all add: SetFamilyThreshold_def)

lemma buildStore_fields:
  "so_metrics (buildStore t g v k fs r ls cl ct ns n lm wr) = []"
  "\<exists>tr. so_cardinalityTracker (buildStore t g v k fs r ls cl ct ns n lm wr) = Some tr
     \<and> ct_inv tr \<and> ct_perObject tr = [] \<and> ct_cutoffFamilies tr = []"
  "\<forall>f \<in> set fs. \<not> fm_cutoff f \<Longrightarrow> f' \<in> set (so_Families (buildStore t g v k fs r ls cl ct ns n lm wr))
     \<Longrightarrow> \<not> IsCutoff f'"
  using thresholds_fold_fields ct_inv_cong [OF ct_inv_New]
  by (auto simp: buildStore_def newStore_def SetCardinalityTracker_def Let_def NewCardinalityTracker_def IsCutoff_def)

lemma store_inv_build:
  assumes "\<forall>f \<in> set fs. \<not> fm_cutoff f"
  shows "store_inv (buildStore t g v k fs r ls cl ct ns n lm wr)"
proof -
  let ?s = "buildStore t g v k fs r ls cl ct ns n lm wr"
  obtain tr where tr: "so_cardinalityTracker ?s = Some tr" "ct_inv tr" "ct_perObject tr = []" "ct_cutoffFamilies tr = []"
    using buildStore_fields(2) by blast
  have "\<forall>f \<in> set (so_Families ?s). IsCutoff f = IsFamilyCutoff tr (fs_Name f)"
    using buildStore_fields(3) [OF assms] by (auto simp: IsFamilyCutoff_def tr(4))
  with tr buildStore_fields(1) [of t g v k fs r ls cl ct ns n lm wr] show ?thesis
    by (auto simp: store_inv_def)
qed

lemma inherited_cutoff: "SetCutoff b (inheritFamilyConfiguration s f) = inheritFamilyConfiguration s (SetCutoff b f)"
  by (simp add: SetCutoff_def inheritFamilyConfiguration_def Let_def)

text \<open>
  Enforcement is soft. When an object is added, each family's cached text is decided by the
  cutoff flag it had before: empty if the family was cut off, otherwise the full text, even if
  this object is the one that exceeds a limit; the count stored for the object is the true count
  in both cases.
\<close>

theorem add_is_soft:
  assumes "index_sorter (SortIndices lib)" and "store_inv s" and "i < length (so_Families s)"
    and "store_Add lib (Some obj) s = Some (s', e)"
    and "buildMetricString lib (SetCutoff False (inheritFamilyConfiguration s (so_Families s ! i))) obj = Some (txt, c)"
  shows "\<not> e \<and> gm_get [] (so_metrics s') (uo_UID obj) ! i = (if IsCutoff (so_Families s ! i) then [] else txt)
     \<and> snd (the (buildMetricString lib (inheritFamilyConfiguration s (so_Families s ! i)) obj)) = c"
proof -
  let ?f = "inheritFamilyConfiguration s (so_Families s ! i)"
  obtain ct where ct: "so_cardinalityTracker s = Some ct" using assms(2) by (auto simp: store_inv_def)
  have texts: "gm_get [] (so_metrics s') (uo_UID obj) ! i = fst (the (buildMetricString lib ?f obj))" and "\<not> e"
    using assms(3,4) store_Add_eq [OF assms(1) ct refl, of obj] by (auto simp: object_texts_def)
  have f: "?f = SetCutoff (IsCutoff ?f) (SetCutoff False ?f)"
    by (simp add: SetCutoff_def IsCutoff_def)
  have "buildMetricString lib ?f obj = Some (if IsCutoff ?f then [] else txt, c)"
  proof (cases "IsCutoff ?f")
    case True
    then have "?f = SetCutoff True ?f" using f by (simp add: SetCutoff_def)
    then have "buildMetricString lib ?f obj = map_option (\<lambda>(s, c). ([], c)) (buildMetricString lib (SetCutoff False ?f) obj)"
      using buildMetricString_cutoff [of lib ?f obj] by metis
    then show ?thesis using True assms(5) by simp
  next
    case False
    then have "?f = SetCutoff False ?f" using f by (simp add: SetCutoff_def)
    then show ?thesis using False assms(5) by simp
  qed
  with texts \<open>\<not> e\<close> show ?thesis by simp
qed

definition demo_store :: store where
  "demo_store = buildStore 0 ''g'' ''v1'' ''K'' [demo_family ''m'' [] []] ResolverTypeCEL
     [\<lparr>lb_Name = ''env'', lb_Value = ''prod''\<rparr>] 0 0 ''ns'' ''n'' 10 f64_0_8"

lemma demo_store_inv: "store_inv demo_store"
  unfolding demo_store_def by (rule store_inv_build) (simp add: demo_family_def)

theorem add_is_soft_witness:
  "\<exists>s' e txt c. store_Add (demo_lib GNil) (Some demo_object) demo_store = Some (s', e)
     \<and> buildMetricString (demo_lib GNil) (SetCutoff False (inheritFamilyConfiguration demo_store (so_Families demo_store ! 0)))
         demo_object = Some (txt, c)
     \<and> \<not> e \<and> gm_get [] (so_metrics s') ''u'' ! 0 = txt"
proof -
  obtain s' where a: "store_Add (demo_lib GNil) (Some demo_object) demo_store = Some (s', False)"
    using store_inv_Add [OF demo_sorter demo_store_inv] by blast
  obtain tx c where b: "buildMetricString (demo_lib GNil)
      (SetCutoff False (inheritFamilyConfiguration demo_store (so_Families demo_store ! 0))) demo_object = Some (tx, c)"
    using buildMetricString_some [OF demo_sorter] by blast
  have n: "0 < length (so_Families demo_store)" and ic: "\<not> IsCutoff (so_Families demo_store ! 0)"
    by (simp_all add: demo_store_def buildStore_def newStore_def SetCardinalityTracker_def Let_def
        demo_family_def IsCutoff_def)
  from add_is_soft [OF demo_sorter demo_store_inv n a b] a b ic show ?thesis
    by (auto simp: demo_object_def)
qed

subsection \<open>Inheritance\<close>

definition first_resolver :: "resolver_type list \<Rightarrow> resolver_type" where
  "first_resolver rs = (case filter (\<lambda>r. r \<noteq> ResolverTypeNone) rs of [] \<Rightarrow> ResolverTypeNone | r # _ \<Rightarrow> r)"

text \<open>
  The resolver of a metric is the metric's own, else its family's, else the store's. After
  a family has inherited the configuration of its store, resolving with the metric's setting is
  resolving with the first of the three that is set.
\<close>

theorem resolver_precedence:
  "family_resolver (inheritFamilyConfiguration s f) r
     = family_resolver (f\<lparr>fs_Resolver := ResolverTypeNone\<rparr>) (first_resolver [r, fs_Resolver f, so_Resolver s])"
  by (simp add: family_resolver_def inheritFamilyConfiguration_def first_resolver_def Let_def
      split: resolver_type.split)

lemma with_cutoffs_nth: "i < length fs \<Longrightarrow> fs_Labels (with_cutoffs ct fs ! i) = fs_Labels (fs ! i)"
  by (simp add: with_cutoffs_def)

lemma store_Add_labels:
  assumes "store_Add lib (Some obj) s = Some (s', e)" and "index_sorter (SortIndices lib)"
  shows "length (so_Families s') = length (so_Families s) \<and> so_Labels s' = so_Labels s
    \<and> (\<forall>i < length (so_Families s). fs_Labels (so_Families s' ! i) = fs_Labels (so_Families s ! i) @ so_Labels s)"
proof (cases "so_cardinalityTracker s")
  case None
  with assms(1) show ?thesis
    by (auto simp: store_Add_def generate_eq [OF assms(2)] Let_def)
next
  case (Some ct)
  from assms(1) store_Add_eq [OF assms(2) Some refl, of obj] show ?thesis
    by (auto simp: with_cutoffs_nth)
qed

text \<open>
  Inherited labels accumulate. Processing an object appends the store's labels to every
  family once more, so after \<open>n\<close> objects a family carries its own labels followed by \<open>n\<close> copies
  of the store's, and every later sample is written with each store label \<open>n + 1\<close> times.
\<close>

theorem store_labels_accumulate:
  assumes "index_sorter (SortIndices lib)" and "add_items lib (map Some objs) s = Some s'"
    and "i < length (so_Families s)"
  shows "fs_Labels (so_Families s' ! i)
     = fs_Labels (so_Families s ! i) @ concat (replicate (length objs) (so_Labels s))"
proof -
  have "add_items lib (map Some objs) s = Some s' \<Longrightarrow> i < length (so_Families s) \<Longrightarrow>
      fs_Labels (so_Families s' ! i) = fs_Labels (so_Families s ! i) @ concat (replicate (length objs) (so_Labels s))"
  proof (induction objs arbitrary: s)
    case (Cons obj objs)
    obtain s1 e where a: "store_Add lib (Some obj) s = Some (s1, e)"
      using Cons.prems(1) by (auto split: option.splits)
    note l = store_Add_labels [OF a assms(1)]
    have "fs_Labels (so_Families s' ! i) = fs_Labels (so_Families s1 ! i) @ concat (replicate (length objs) (so_Labels s1))"
      by (rule Cons.IH) (use Cons.prems a l in auto)
    with l Cons.prems(2) show ?case by simp
  qed simp
  with assms(2,3) show ?thesis by blast
qed

theorem store_labels_accumulate_witness:
  "\<exists>s'. add_items (demo_lib GNil) [Some demo_object, Some demo_object] demo_store = Some s'
     \<and> map lb_Name (fs_Labels (so_Families s' ! 0)) = [''env'', ''env'']"
proof -
  obtain s' where a: "add_items (demo_lib GNil) (map Some [demo_object, demo_object]) demo_store = Some s'"
    using store_inv_items [OF demo_sorter demo_store_inv] by blast
  have d: "0 < length (so_Families demo_store)" "fs_Labels (so_Families demo_store ! 0) = []"
    "map lb_Name (so_Labels demo_store) = [''env'']"
    by (simp_all add: demo_store_def buildStore_def newStore_def SetCardinalityTracker_def Let_def demo_family_def)
  from store_labels_accumulate [OF demo_sorter a d(1)] a d show ?thesis by auto
qed

subsection \<open>Relisting\<close>

lemma store_Add_other:
  assumes "store_Add lib (Some obj) s = Some (s', e)" and "index_sorter (SortIndices lib)" and "uo_UID obj \<noteq> u"
  shows "map_of (so_metrics s') u = map_of (so_metrics s) u"
proof (cases "so_cardinalityTracker s")
  case None
  with assms show ?thesis by (auto simp: store_Add_def generate_eq [OF assms(2)] Let_def)
next
  case (Some ct)
  from assms store_Add_eq [OF assms(2) Some refl, of obj] show ?thesis by auto
qed

text \<open>
  C36: a relist only adds. \<open>Replace\<close> is the reflector's "the list is now exactly this", but
  an object of the store that is missing from the list keeps its cached text unchanged: its
  samples go on being served after a relist that no longer contains it.
\<close>

theorem replace_keeps_missing_objects:
  assumes "index_sorter (SortIndices lib)" and "store_Replace lib (map Some objs) s = Some s'"
    and "u \<notin> uo_UID ` set objs"
  shows "map_of (so_metrics s') u = map_of (so_metrics s) u \<and> IsSynced s'"
proof -
  have "add_items lib (map Some objs) s = Some s1 \<Longrightarrow> u \<notin> uo_UID ` set objs \<Longrightarrow>
      map_of (so_metrics s1) u = map_of (so_metrics s) u" for s1
  proof (induction objs arbitrary: s)
    case (Cons obj objs)
    obtain s2 e where a: "store_Add lib (Some obj) s = Some (s2, e)"
      using Cons.prems(1) by (auto split: option.splits)
    have "map_of (so_metrics s2) u = map_of (so_metrics s) u"
      by (rule store_Add_other [OF a assms(1)]) (use Cons.prems in auto)
    with Cons.IH [of s2] Cons.prems a show ?case by auto
  qed simp
  with assms(2,3) show ?thesis by (auto simp: store_Replace_def IsSynced_def)
qed

theorem replace_keeps_missing_objects_witness:
  "\<exists>s s'. store_Add (demo_lib GNil) (Some demo_object) demo_store = Some (s, False)
     \<and> store_Replace (demo_lib GNil) [] s = Some s' \<and> map_of (so_metrics s') ''u'' \<noteq> None"
proof -
  obtain s where a: "store_Add (demo_lib GNil) (Some demo_object) demo_store = Some (s, False)" "store_inv s"
      "fst ` set (so_metrics s) = insert ''u'' (fst ` set (so_metrics demo_store))"
    using store_inv_Add [OF demo_sorter [of GNil] demo_store_inv, where obj = demo_object]
    by (fastforce simp: demo_object_def)
  obtain s' where r: "store_Replace (demo_lib GNil) (map Some []) s = Some s'"
    by (simp add: store_Replace_def)
  have "map_of (so_metrics s) ''u'' \<noteq> None" using a(3) by (metis insertI1 keys_iff)
  with replace_keeps_missing_objects [OF demo_sorter r, of "''u''"] a(1) r show ?thesis by auto
qed

end
