(* ===== verification/Go_Glob.thy ===== *)
theory Go_Glob
  imports Metric_Util
begin

text \<open>
  \<open>filepath.Match\<close> of the Go standard library on Unix, which the discovery code uses to match
  group, version, kind and resource patterns. A result \<open>None\<close> is \<open>ErrBadPattern\<close>. The functions
  are those of the library: \<open>scanChunk\<close> splits off an optional run of stars and the text up to
  the next star, \<open>matchChunk\<close> matches such a text at the head of the name, and \<open>Match\<close> takes the
  leftmost position where it matches, without backtracking. \<open>glob\<close> is the reference: a star
  matches any sequence. \<open>Match_glob\<close> proves that for patterns of literals and stars, and names
  without a path separator, the greedy search decides the reference.
\<close>

section \<open>The code of the library\<close>

definition rune_code :: "string \<Rightarrow> nat" where
  "rune_code s =
     (case map of_char (take (rune_width s) s) of
        [a] \<Rightarrow> if a < 128 then a else 65533
      | [a, b] \<Rightarrow> (a - 192) * 64 + (b - 128)
      | [a, b, c] \<Rightarrow> (a - 224) * 4096 + (b - 128) * 64 + (c - 128)
      | [a, b, c, d] \<Rightarrow> (a - 240) * 262144 + (b - 128) * 4096 + (c - 128) * 64 + (d - 128)
      | _ \<Rightarrow> 65533)"

definition getEsc :: "string \<Rightarrow> (nat \<times> string) option" where
  "getEsc chunk =
     (case chunk of
        [] \<Rightarrow> None
      | c # cs \<Rightarrow>
          if c = CHR ''-'' \<or> c = CHR '']'' then None
          else
            (let chunk = (if c = CHR 0x5C then cs else chunk) in
             if chunk = [] then None
             else if rune_code chunk = 65533 \<and> rune_width chunk = 1 then None
             else (let nchunk = drop (rune_width chunk) chunk
                   in if nchunk = [] then None else Some (rune_code chunk, nchunk))))"

lemma getEsc_shorter: "getEsc chunk = Some (r, rest) \<Longrightarrow> length rest < length chunk"
  using rune_width_pos by (auto simp: getEsc_def Let_def split: list.splits if_splits)

function class_loop :: "nat \<Rightarrow> bool \<Rightarrow> bool \<Rightarrow> string \<Rightarrow> (bool \<times> string) option" where
  "class_loop r seen m chunk =
     (if seen \<and> chunk \<noteq> [] \<and> hd chunk = CHR '']'' then Some (m, tl chunk)
      else (case getEsc chunk of
          None \<Rightarrow> None
        | Some (lo, chunk') \<Rightarrow>
            if hd chunk' = CHR ''-''
            then (case getEsc (tl chunk') of
                None \<Rightarrow> None
              | Some (hi, chunk'') \<Rightarrow> class_loop r True (m \<or> lo \<le> r \<and> r \<le> hi) chunk'')
            else class_loop r True (m \<or> lo = r) chunk'))"
  by auto
termination
  by (relation "measure (\<lambda>(_, _, _, chunk). length chunk)") (auto dest!: getEsc_shorter)

declare class_loop.simps [simp del]

lemma class_loop_shorter: "class_loop r seen m chunk = Some (m', rest) \<Longrightarrow> length rest < length chunk"
proof (induction r seen m chunk rule: class_loop.induct)
  case (1 r seen m chunk)
  show ?case
  proof (cases "seen \<and> chunk \<noteq> [] \<and> hd chunk = CHR '']''")
    case True
    with 1(3) show ?thesis by (subst (asm) class_loop.simps) (auto simp: neq_Nil_conv)
  next
    case False
    with 1(3) obtain lo c1 where c1: "getEsc chunk = Some (lo, c1)"
      by (auto simp: class_loop.simps [of r seen m chunk] split: option.splits)
    note len = getEsc_shorter [OF c1]
    show ?thesis
    proof (cases "hd c1 = CHR ''-''")
      case True
      with 1(3) False c1 obtain hi c2 where c2: "getEsc (tl c1) = Some (hi, c2)"
          "class_loop r True (m \<or> lo \<le> r \<and> r \<le> hi) c2 = Some (m', rest)"
        by (auto simp: class_loop.simps [of r seen m chunk] split: option.splits)
      from 1(1) [OF False c1 refl True c2(1) refl c2(2)] getEsc_shorter [OF c2(1)] len show ?thesis by simp
    next
      case no: False
      with 1(3) False c1 have "class_loop r True (m \<or> lo = r) c1 = Some (m', rest)"
        by (auto simp: class_loop.simps [of r seen m chunk])
      from 1(2) [OF False c1 refl no this] len show ?thesis by simp
    qed
  qed
qed

text \<open>\<open>failed\<close> says that the name no longer matches and only the syntax is still checked.\<close>

function match_chunk :: "bool \<Rightarrow> string \<Rightarrow> string \<Rightarrow> string option option" where
  "match_chunk failed [] s = Some (if failed then None else Some s)"
| "match_chunk failed (c # cs) s =
     (let failed = (failed \<or> s = []) in
      if c = CHR ''['' then
        (let r = rune_code s;
             negated = (cs \<noteq> [] \<and> hd cs = CHR ''^'')
         in case class_loop r False False (if negated then tl cs else cs) of
              None \<Rightarrow> None
            | Some (m, rest) \<Rightarrow> match_chunk (failed \<or> m = negated) rest (drop (rune_width s) s))
      else if c = CHR ''?'' then match_chunk (failed \<or> hd s = CHR ''/'') cs (drop (rune_width s) s)
      else if c = CHR 0x5C then
        (case cs of [] \<Rightarrow> None | d # ds \<Rightarrow> match_chunk (failed \<or> d \<noteq> hd s) ds (tl s))
      else match_chunk (failed \<or> c \<noteq> hd s) cs (tl s))"
  by pat_completeness auto
termination
  by (relation "measure (\<lambda>(_, chunk, _). length chunk)")
    (auto dest!: class_loop_shorter split: if_splits)

fun scan_body :: "bool \<Rightarrow> string \<Rightarrow> string \<times> string" where
  "scan_body inrange [] = ([], [])"
| "scan_body inrange (c # p) =
     (if c = CHR 0x5C then
        (case p of
           [] \<Rightarrow> ([c], [])
         | d # p' \<Rightarrow> (case scan_body inrange p' of (a, b) \<Rightarrow> (c # d # a, b)))
      else if c = CHR ''*'' \<and> \<not> inrange then ([], c # p)
      else (case scan_body (if c = CHR ''['' then True else if c = CHR '']'' then False else inrange) p of
              (a, b) \<Rightarrow> (c # a, b)))"

definition scanChunk :: "string \<Rightarrow> bool \<times> string \<times> string" where
  "scanChunk p = (p \<noteq> [] \<and> hd p = CHR ''*'', scan_body False (dropWhile (\<lambda>c. c = CHR ''*'') p))"

lemma scan_body_append: "scan_body inrange p = (a, b) \<Longrightarrow> p = a @ b"
  by (induction inrange p arbitrary: a b rule: scan_body.induct)
    (auto split: if_splits list.splits prod.splits)

lemma scan_body_progress: "scan_body False p = (a, b) \<Longrightarrow> p \<noteq> [] \<Longrightarrow> hd p \<noteq> CHR ''*'' \<Longrightarrow> a \<noteq> []"
  by (cases p) (auto split: if_splits list.splits prod.splits)

lemma scanChunk_shorter:
  assumes "scanChunk p = (star, chunk, rest)" and "p \<noteq> []"
  shows "length rest < length p"
proof -
  let ?q = "dropWhile (\<lambda>c. c = CHR ''*'') p"
  have q: "scan_body False ?q = (chunk, rest)" and star: "star \<longleftrightarrow> hd p = CHR ''*''"
    using assms by (auto simp: scanChunk_def)
  have split: "?q = chunk @ rest" using scan_body_append [OF q] .
  show ?thesis
  proof (cases "hd p = CHR ''*''")
    case True
    then have "length ?q < length p" using assms(2) by (cases p) (auto simp: length_dropWhile_le le_imp_less_Suc)
    with split show ?thesis by simp
  next
    case False
    then have "?q = p" using assms(2) by (cases p) auto
    with scan_body_progress [OF q] False assms(2) have "chunk \<noteq> []" by simp
    with split \<open>?q = p\<close> show ?thesis by (cases chunk) simp_all
  qed
qed

text \<open>The inner loop of a star: skip bytes, never a separator, until the chunk matches.\<close>

fun star_search :: "string \<Rightarrow> bool \<Rightarrow> string \<Rightarrow> string option option" where
  "star_search chunk final [] = Some None"
| "star_search chunk final (c # name) =
     (if c = CHR ''/'' then Some None
      else (case match_chunk False chunk name of
          None \<Rightarrow> None
        | Some None \<Rightarrow> star_search chunk final name
        | Some (Some t) \<Rightarrow> if final \<and> t \<noteq> [] then star_search chunk final name else Some (Some t)))"

text \<open>Before reporting a mismatch, the rest of the pattern is checked.\<close>

function check_rest :: "string \<Rightarrow> bool option" where
  "check_rest p =
     (if p = [] then Some False
      else (case scanChunk p of (_, chunk, rest) \<Rightarrow>
        (case match_chunk False chunk [] of None \<Rightarrow> None | Some _ \<Rightarrow> check_rest rest)))"
  by auto
termination by (relation "measure length") (auto dest: scanChunk_shorter [OF sym])

declare check_rest.simps [simp del]

function Match :: "string \<Rightarrow> string \<Rightarrow> bool option" where
  "Match pattern name =
     (if pattern = [] then Some (name = [])
      else (case scanChunk pattern of (star, chunk, rest) \<Rightarrow>
        if star \<and> chunk = [] then Some (CHR ''/'' \<notin> set name)
        else (case match_chunk False chunk name of
            None \<Rightarrow> None
          | Some here \<Rightarrow>
              if here \<noteq> None \<and> (the here = [] \<or> rest \<noteq> []) then Match rest (the here)
              else if star
              then (case star_search chunk (rest = []) name of
                  None \<Rightarrow> None
                | Some (Some t) \<Rightarrow> Match rest t
                | Some None \<Rightarrow> check_rest rest)
              else check_rest rest)))"
  by auto
termination by (relation "measure (\<lambda>(pattern, _). length pattern)") (auto dest: scanChunk_shorter [OF sym])

declare Match.simps [simp del]

section \<open>The reference\<close>

fun glob :: "string \<Rightarrow> string \<Rightarrow> bool" where
  "glob [] s \<longleftrightarrow> s = []"
| "glob (c # p) s \<longleftrightarrow>
     (if c = CHR ''*'' then (\<exists>k \<in> {..length s}. glob p (drop k s))
      else (case s of [] \<Rightarrow> False | d # s \<Rightarrow> c = d \<and> glob p s))"

definition plain_pattern :: "string \<Rightarrow> bool" where
  "plain_pattern p \<longleftrightarrow> CHR ''?'' \<notin> set p \<and> CHR ''['' \<notin> set p \<and> CHR 0x5C \<notin> set p"

lemma plain_append [simp]: "plain_pattern (p @ q) \<longleftrightarrow> plain_pattern p \<and> plain_pattern q"
  by (auto simp: plain_pattern_def)

lemma match_chunk_failed: "plain_pattern chunk \<Longrightarrow> match_chunk True chunk s = Some None"
  by (induction True chunk s rule: match_chunk.induct) (auto simp: plain_pattern_def Let_def)

lemma match_chunk_plain:
  "plain_pattern chunk \<Longrightarrow> match_chunk False chunk s =
     Some (if \<exists>t. s = chunk @ t then Some (drop (length chunk) s) else None)"
proof (induction chunk arbitrary: s)
  case (Cons c cs)
  then have cs: "plain_pattern cs" and c: "c \<noteq> CHR ''?''" "c \<noteq> CHR ''[''" "c \<noteq> CHR 0x5C"
    by (auto simp: plain_pattern_def)
  show ?case
  proof (cases "s \<noteq> [] \<and> hd s = c")
    case True
    then show ?thesis by (cases s) (simp_all add: c Cons.IH [OF cs])
  next
    case False
    then have "match_chunk False (c # cs) s = Some None"
      by (cases s) (auto simp: c match_chunk_failed [OF cs])
    with False show ?thesis by (cases s) auto
  qed
qed simp

lemma scan_body_plain:
  "plain_pattern p \<Longrightarrow> scan_body False p = (takeWhile (\<lambda>c. c \<noteq> CHR ''*'') p, dropWhile (\<lambda>c. c \<noteq> CHR ''*'') p)"
  by (induction p) (auto simp: plain_pattern_def)

lemma glob_star: "glob (CHR ''*'' # p) s \<longleftrightarrow> (\<exists>k \<in> {..length s}. glob p (drop k s))"
  by simp

lemma glob_stars: "glob (CHR ''*'' # CHR ''*'' # p) s \<longleftrightarrow> glob (CHR ''*'' # p) s"
proof
  assume "glob (CHR ''*'' # CHR ''*'' # p) s"
  then obtain k j where "k \<le> length s" "j \<le> length s - k" "glob p (drop j (drop k s))" by auto
  then show "glob (CHR ''*'' # p) s" by (auto intro!: bexI [of _ "j + k"])
next
  assume "glob (CHR ''*'' # p) s"
  then show "glob (CHR ''*'' # CHR ''*'' # p) s"
    unfolding glob_star [of "CHR ''*'' # p"] by (intro bexI [of _ 0]) (simp_all only: drop_0 atMost_iff le0)
qed

lemma glob_drop_stars:
  "hd p = CHR ''*'' \<Longrightarrow> p \<noteq> [] \<Longrightarrow> glob p s \<longleftrightarrow> glob (CHR ''*'' # dropWhile (\<lambda>c. c = CHR ''*'') p) s"
proof (induction p arbitrary: s)
  case (Cons c p)
  show ?case
  proof (cases "p \<noteq> [] \<and> hd p = CHR ''*''")
    case True
    then obtain p' where "p = CHR ''*'' # p'" by (cases p) auto
    with Cons glob_stars [of p' s] show ?thesis by simp
  next
    case False
    then have "dropWhile (\<lambda>c. c = CHR ''*'') p = p" by (cases p) auto
    with Cons.prems show ?thesis by simp
  qed
qed simp

lemma glob_literal:
  "CHR ''*'' \<notin> set c \<Longrightarrow> glob (c @ p) s \<longleftrightarrow> (\<exists>t. s = c @ t \<and> glob p t)"
proof (induction c arbitrary: s)
  case (Cons a c)
  then show ?case by (cases s) auto
qed simp

text \<open>A pattern that starts with a star absorbs any prefix, which is why the leftmost match of
  a chunk loses nothing.\<close>

lemma glob_absorb: "hd p = CHR ''*'' \<Longrightarrow> p \<noteq> [] \<Longrightarrow> glob p t \<Longrightarrow> glob p (u @ t)"
proof -
  assume p: "hd p = CHR ''*''" "p \<noteq> []" and "glob p t"
  then obtain q where q: "p = CHR ''*'' # q" by (cases p) auto
  with \<open>glob p t\<close> obtain k where "k \<le> length t" "glob q (drop k t)" by auto
  then show ?thesis unfolding q glob_star by (intro bexI [of _ "length u + k"]) auto
qed

text \<open>What the search finds: the leftmost position at which the chunk matches, and for the last
  chunk the only one that exhausts the name.\<close>

lemma star_search_plain:
  assumes "plain_pattern chunk" and "CHR ''/'' \<notin> set name"
  shows "\<exists>r. star_search chunk final name = Some r
     \<and> (case r of
          None \<Rightarrow> (\<forall>a u t. name = a # u @ chunk @ t \<longrightarrow> final \<and> t \<noteq> [])
        | Some t \<Rightarrow> (final \<longrightarrow> t = []) \<and> (\<exists>a u. name = a # u @ chunk @ t
              \<and> (\<forall>a' u' t'. name = a' # u' @ chunk @ t' \<longrightarrow> \<not> (final \<and> t' \<noteq> []) \<longrightarrow> length u \<le> length u')))"
  using assms(2)
proof (induction name)
  case (Cons c name)
  then obtain r where r: "star_search chunk final name = Some r" and
    spec: "case r of
          None \<Rightarrow> (\<forall>a u t. name = a # u @ chunk @ t \<longrightarrow> final \<and> t \<noteq> [])
        | Some t \<Rightarrow> (final \<longrightarrow> t = []) \<and> (\<exists>a u. name = a # u @ chunk @ t
              \<and> (\<forall>a' u' t'. name = a' # u' @ chunk @ t' \<longrightarrow> \<not> (final \<and> t' \<noteq> []) \<longrightarrow> length u \<le> length u'))"
    by auto
  have c: "c \<noteq> CHR ''/''" using Cons.prems by auto
  show ?case
  proof (cases "\<exists>t. name = chunk @ t \<and> \<not> (final \<and> t \<noteq> [])")
    case True
    then obtain t where t: "name = chunk @ t" "\<not> (final \<and> t \<noteq> [])" by blast
    from t(1) have mc: "match_chunk False chunk name = Some (Some t)"
      by (simp add: match_chunk_plain [OF assms(1)])
    have "star_search chunk final (c # name) = Some (Some t)"
      unfolding star_search.simps mc using t(2) c by auto
    moreover have "c # name = c # [] @ chunk @ t" using t by simp
    ultimately show ?thesis using t(2) by fastforce
  next
    case False
    then have step: "star_search chunk final (c # name) = Some r"
      using c r by (auto simp: match_chunk_plain [OF assms(1)])
    have tail: "\<exists>a' u''. u' = a' # u'' \<and> name = a' # u'' @ chunk @ t'"
      if "c # name = a # u' @ chunk @ t'" "\<not> (final \<and> t' \<noteq> [])" for a u' t'
      using that False by (cases u') auto
    show ?thesis
    proof (cases r)
      case None
      with spec have none: "final \<and> t \<noteq> []" if "name = a # u @ chunk @ t" for a u t using that by simp
      have "final \<and> t \<noteq> []" if eq: "c # name = a # u @ chunk @ t" for a u t
      proof (rule ccontr)
        assume f: "\<not> (final \<and> t \<noteq> [])"
        with tail [OF eq f] none show False by blast
      qed
      with step None show ?thesis by simp
    next
      case (Some t)
      with spec obtain a u where f: "final \<longrightarrow> t = []" and u: "name = a # u @ chunk @ t"
        and min: "\<And>a' u' t'. name = a' # u' @ chunk @ t' \<Longrightarrow> \<not> (final \<and> t' \<noteq> []) \<Longrightarrow> length u \<le> length u'"
        by auto
      have "length (a # u) \<le> length u'"
        if eq: "c # name = a' # u' @ chunk @ t'" "\<not> (final \<and> t' \<noteq> [])" for a' u' t'
      proof -
        obtain a'' u'' where "u' = a'' # u''" "name = a'' # u'' @ chunk @ t'" using tail [OF eq] by blast
        with min eq(2) show ?thesis by simp
      qed
      moreover have "c # name = c # (a # u) @ chunk @ t" using u by simp
      ultimately have "\<exists>a u. c # name = a # u @ chunk @ t
          \<and> (\<forall>a' u' t'. c # name = a' # u' @ chunk @ t' \<longrightarrow> \<not> (final \<and> t' \<noteq> []) \<longrightarrow> length u \<le> length u')"
        by blast
      with step Some f show ?thesis by simp
    qed
  qed
qed simp

lemma check_rest_plain: "plain_pattern p \<Longrightarrow> check_rest p = Some False"
proof (induction p rule: check_rest.induct)
  case (1 p)
  show ?case
  proof (cases "p = []")
    case False
    obtain star chunk rest where sc: "scanChunk p = (star, chunk, rest)" by (cases "scanChunk p")
    then have "dropWhile (\<lambda>c. c = CHR ''*'') p = chunk @ rest"
      by (auto simp: scanChunk_def dest: scan_body_append)
    then have "set (chunk @ rest) \<subseteq> set p" by (metis set_dropWhileD subsetI)
    with 1(2) have "plain_pattern chunk" "plain_pattern rest" by (auto simp: plain_pattern_def)
    moreover obtain x where "match_chunk False chunk [] = Some x"
      using match_chunk_plain [OF \<open>plain_pattern chunk\<close>] by blast
    ultimately show ?thesis using 1(1) [OF False sc [symmetric] refl] False sc
      by (simp add: check_rest.simps [of p])
  qed (simp add: check_rest.simps)
qed

text \<open>A pattern taken apart into its optional star, its first chunk and the rest.\<close>

lemma scanChunk_plain:
  assumes "plain_pattern p" and "p \<noteq> []" and "scanChunk p = (star, chunk, rest)"
  shows "plain_pattern chunk" and "plain_pattern rest" and "CHR ''*'' \<notin> set chunk"
    and "rest = [] \<or> hd rest = CHR ''*''"
    and "star \<and> chunk = [] \<Longrightarrow> rest = []"
    and "glob p s \<longleftrightarrow> (if star then \<exists>u t. s = u @ chunk @ t \<and> glob rest t else \<exists>t. s = chunk @ t \<and> glob rest t)"
proof -
  let ?q = "dropWhile (\<lambda>c. c = CHR ''*'') p"
  have star: "star \<longleftrightarrow> hd p = CHR ''*''" and q: "scan_body False ?q = (chunk, rest)"
    using assms by (auto simp: scanChunk_def)
  have pq: "plain_pattern ?q" using assms(1) by (auto simp: plain_pattern_def dest: set_dropWhileD)
  have c: "chunk = takeWhile (\<lambda>c. c \<noteq> CHR ''*'') ?q" and r: "rest = dropWhile (\<lambda>c. c \<noteq> CHR ''*'') ?q"
    using q by (simp_all add: scan_body_plain [OF pq])
  have qcr: "?q = chunk @ rest" using c r by simp
  then show "plain_pattern chunk" "plain_pattern rest" using pq by simp_all
  show c': "CHR ''*'' \<notin> set chunk" unfolding c by (auto dest: set_takeWhileD)
  show "rest = [] \<or> hd rest = CHR ''*''" unfolding r using hd_dropWhile by blast
  show "rest = []" if "star \<and> chunk = []"
  proof (rule ccontr)
    assume "rest \<noteq> []"
    with that qcr r have "?q \<noteq> []" "hd ?q = CHR ''*''" using hd_dropWhile [of "\<lambda>c. c \<noteq> CHR ''*''" ?q] by auto
    then show False using hd_dropWhile [of "\<lambda>c. c = CHR ''*''" p] by simp
  qed
  show "glob p s \<longleftrightarrow> (if star then \<exists>u t. s = u @ chunk @ t \<and> glob rest t else \<exists>t. s = chunk @ t \<and> glob rest t)"
  proof (cases star)
    case True
    then have "glob p s \<longleftrightarrow> (\<exists>k \<in> {..length s}. glob (chunk @ rest) (drop k s))"
      using glob_drop_stars [of p s] assms(2) star qcr by simp
    also have "\<dots> \<longleftrightarrow> (\<exists>u t. s = u @ chunk @ t \<and> glob rest t)"
    proof
      assume "\<exists>k \<in> {..length s}. glob (chunk @ rest) (drop k s)"
      then obtain k t where "drop k s = chunk @ t" "glob rest t" by (auto simp: glob_literal [OF c'])
      then show "\<exists>u t. s = u @ chunk @ t \<and> glob rest t" by (metis append_take_drop_id)
    next
      assume "\<exists>u t. s = u @ chunk @ t \<and> glob rest t"
      then obtain u t where "s = u @ chunk @ t" "glob rest t" by blast
      then show "\<exists>k \<in> {..length s}. glob (chunk @ rest) (drop k s)"
        by (intro bexI [of _ "length u"]) (auto simp: glob_literal [OF c'])
    qed
    finally show ?thesis using True by simp
  next
    case False
    then have "?q = p" using star assms(2) by (cases p) auto
    with qcr False glob_literal [OF c', of rest s] show ?thesis by simp
  qed
qed

lemma suffix_absorb:
  assumes "u @ c @ t = u' @ c @ t'" and "length u \<le> length u'"
    and "rest \<noteq> []" and "hd rest = CHR ''*''" and "glob rest t'"
  shows "glob rest t"
proof -
  have "length (u @ c) \<le> length (u' @ c)" using assms(2) by simp
  moreover have "(u @ c) @ t = (u' @ c) @ t'" using assms(1) by simp
  ultimately have "t = drop (length (u @ c)) (u' @ c) @ t'"
    by (metis append_eq_conv_conj drop_append diff_is_0_eq drop_0)
  with glob_absorb [OF assms(4,3,5)] show ?thesis by metis
qed

theorem Match_glob:
  assumes "plain_pattern p" and "CHR ''/'' \<notin> set name"
  shows "Match p name = Some (glob p name)"
  using assms
proof (induction "length p" arbitrary: p name rule: less_induct)
  case less
  show ?case
  proof (cases "p = []")
    case False
    obtain star chunk rest where sc: "scanChunk p = (star, chunk, rest)" by (cases "scanChunk p")
    note plain = scanChunk_plain [OF less.prems(1) False sc]
    have ih: "Match rest t = Some (glob rest t)" if "CHR ''/'' \<notin> set t" for t
      using less.hyps [OF scanChunk_shorter [OF sc False] plain(2) that] .
    note m = match_chunk_plain [OF plain(1)] and cr = check_rest_plain [OF plain(2)]
    have unfold: "Match p name =
       (if star \<and> chunk = [] then Some True
        else if \<exists>t. name = chunk @ t \<and> (t = [] \<or> rest \<noteq> []) then Match rest (drop (length chunk) name)
        else if star then (case star_search chunk (rest = []) name of
              None \<Rightarrow> None | Some (Some t) \<Rightarrow> Match rest t | Some None \<Rightarrow> Some False)
        else Some False)"
      using less.prems(2) False sc by (auto simp: Match.simps [of p] m cr check_rest.simps [of "[]"] cong: option.case_cong)
    consider (all) "star" "chunk = []"
      | (here) t where "\<not> (star \<and> chunk = [])" "name = chunk @ t" "t = [] \<or> rest \<noteq> []"
      | (skip) "star" "chunk \<noteq> []" "\<And>t. name = chunk @ t \<Longrightarrow> t \<noteq> [] \<and> rest = []"
      | (no) "\<not> star" "\<And>t. name = chunk @ t \<Longrightarrow> t \<noteq> [] \<and> rest = []"
      by blast
    then show ?thesis
    proof cases
      case all
      with plain(5) have "glob p name" unfolding plain(6) by auto
      with all unfold show ?thesis by simp
    next
      case (here t)
      have "glob p name \<longleftrightarrow> glob rest t"
      proof
        assume "glob p name"
        then obtain u t' where u: "name = u @ chunk @ t'" "glob rest t'"
          unfolding plain(6) by (metis append_Nil)
        show "glob rest t"
        proof (cases "rest = []")
          case False
          show ?thesis
            by (rule suffix_absorb [of "[]" chunk t u t']) (use here u False plain(4) in auto)
        qed (use here in simp)
      next
        assume "glob rest t"
        then show "glob p name" unfolding plain(6) here(2) by (auto intro: exI [of _ "[]"])
      qed
      with here unfold ih [of t] less.prems(2) show ?thesis by auto
    next
      case skip
      obtain r where r: "star_search chunk (rest = []) name = Some r" and
        spec: "case r of
          None \<Rightarrow> (\<forall>a u t. name = a # u @ chunk @ t \<longrightarrow> rest = [] \<and> t \<noteq> [])
        | Some t \<Rightarrow> (rest = [] \<longrightarrow> t = []) \<and> (\<exists>a u. name = a # u @ chunk @ t
              \<and> (\<forall>a' u' t'. name = a' # u' @ chunk @ t' \<longrightarrow> \<not> (rest = [] \<and> t' \<noteq> []) \<longrightarrow> length u \<le> length u'))"
        using star_search_plain [OF plain(1) less.prems(2), of "rest = []"] by blast
      have m: "Match p name = (case r of Some t \<Rightarrow> Match rest t | None \<Rightarrow> Some False)"
        using skip unfold r by (auto split: option.split)
      have g: "glob p name \<longleftrightarrow> (\<exists>a u t. name = a # u @ chunk @ t \<and> \<not> (rest = [] \<and> t \<noteq> []) \<and> glob rest t)"
      proof
        assume "glob p name"
        then obtain u t where u: "name = u @ chunk @ t" "glob rest t" using skip(1) unfolding plain(6) by auto
        with skip(3) [of t] have "u \<noteq> []" by (cases rest) auto
        with u show "\<exists>a u t. name = a # u @ chunk @ t \<and> \<not> (rest = [] \<and> t \<noteq> []) \<and> glob rest t"
          by (cases u; cases "rest = []") auto
      next
        assume "\<exists>a u t. name = a # u @ chunk @ t \<and> \<not> (rest = [] \<and> t \<noteq> []) \<and> glob rest t"
        then show "glob p name" using skip(1) unfolding plain(6) by (metis append_Cons)
      qed
      show ?thesis
      proof (cases r)
        case None
        with spec g have "\<not> glob p name" by auto
        with m None show ?thesis by simp
      next
        case (Some t)
        with spec obtain a u where t: "rest = [] \<longrightarrow> t = []" "name = a # u @ chunk @ t"
          and min: "\<And>a' u' t'. name = a' # u' @ chunk @ t' \<Longrightarrow> \<not> (rest = [] \<and> t' \<noteq> []) \<Longrightarrow> length u \<le> length u'"
          by auto
        have "glob rest t" if gp: "glob p name"
        proof (cases "rest = []")
          case False
          from gp g obtain a' u' t' where u': "name = a' # u' @ chunk @ t'" "glob rest t'" by auto
          show ?thesis
            by (rule suffix_absorb [of "a # u" chunk t "a' # u'" t'])
              (use t(2) u' min [OF u'(1)] False plain(4) in auto)
        qed (use t in simp)
        moreover have "glob p name" if "glob rest t" using g t that by blast
        moreover have "CHR ''/'' \<notin> set t" using t(2) less.prems(2) by auto
        ultimately show ?thesis using m Some ih [of t] by auto
      qed
    next
      case no
      have "\<not> glob p name" using no unfolding plain(6) by (cases rest) fastforce+
      with no unfold show ?thesis by auto
    qed
  qed (simp add: Match.simps)
qed

end
