(* ===== verification/Discovery.thy ===== *)
theory Discovery
  imports Go_Glob API_Types
begin

text \<open>
  \<open>internal/discovery.go\<close>: expanding a store whose group, version, kind or resource holds a
  wildcard into one store per matching API resource. The discovery client and
  \<open>schema.ParseGroupVersion\<close> are parameters: the client returns resource lists, \<open>None\<close> for a nil
  slice, and says whether it also returned an error, which may be partial. The logging of the
  patterns is left out, its formatter is not. The interface \<open>ResourceDiscovery\<close> is the locale
  \<open>resource_discovery\<close>, interpreted on \<open>ExpandWildcards\<close>.
\<close>

record api_resource =
  ar_Name :: string
  ar_Kind :: string
  ar_Verbs :: "string list"

record api_resource_list =
  al_GroupVersion :: string
  al_APIResources :: "api_resource list"

record discovery_client =
  ServerGroupsAndResources :: "api_resource_list list option \<times> bool"
  ParseGroupVersion :: "string \<Rightarrow> (string \<times> string) option"

section \<open>The code\<close>

definition WildcardPattern :: string where "WildcardPattern = ''*''"

definition IsWildcard :: "string \<Rightarrow> bool" where
  "IsWildcard pattern \<longleftrightarrow> CHR ''*'' \<in> set pattern"

definition HasWildcards :: "store_spec \<Rightarrow> bool" where
  "HasWildcards s \<longleftrightarrow>
     IsWildcard (ss_Group s) \<or> IsWildcard (ss_Version s) \<or> IsWildcard (ss_Kind s) \<or> IsWildcard (ss_Resource s)"

definition wildcardMatchedResource :: "store_spec \<Rightarrow> bool" where
  "wildcardMatchedResource s \<longleftrightarrow> IsWildcard (ss_Kind s) \<or> IsWildcard (ss_Resource s)"

definition supportsListWatch :: "string list \<Rightarrow> bool" where
  "supportsListWatch verbs =
     (let (hasList, hasWatch) =
            fold (\<lambda>v (hasList, hasWatch).
                    if v = ''list'' then (True, hasWatch)
                    else if v = ''watch'' then (hasList, True)
                    else (hasList, hasWatch)) verbs (False, False)
      in hasList \<and> hasWatch)"

definition matchesPattern :: "string \<Rightarrow> string \<Rightarrow> bool" where
  "matchesPattern pattern v =
     (if pattern = WildcardPattern then True
      else (case Match pattern v of None \<Rightarrow> pattern = v | Some matched \<Rightarrow> matched))"

definition matchesGroupPattern :: "string \<Rightarrow> string \<Rightarrow> bool" where
  "matchesGroupPattern pattern v = (if pattern = [] then v = [] else matchesPattern pattern v)"

definition formatStorePattern :: "store_spec \<Rightarrow> string" where
  "formatStorePattern s =
     (let grp = (if ss_Group s = [] then ''core'' else ss_Group s)
      in grp @ ''/'' @ ss_Version s @ ''/'' @ ss_Kind s @ ''/'' @ ss_Resource s)"

text \<open>The body of the inner loop, for one resource of a list that matches group and version.\<close>

definition expand_resource ::
    "store_spec \<Rightarrow> string \<times> string \<Rightarrow> api_resource \<Rightarrow> store_spec list \<Rightarrow> store_spec list" where
  "expand_resource s = (\<lambda>(grp, version) r expandedStores.
     if CHR ''/'' \<in> set (ar_Name r) then expandedStores
     else if \<not> matchesPattern (ss_Kind s) (ar_Kind r) then expandedStores
     else if \<not> matchesPattern (ss_Resource s) (ar_Name r) then expandedStores
     else
       (let expanded = s\<lparr>ss_Group := grp, ss_Version := version, ss_Kind := ar_Kind r, ss_Resource := ar_Name r\<rparr>
        in if wildcardMatchedResource s \<and> 0 < length (ar_Verbs r) \<and> \<not> supportsListWatch (ar_Verbs r)
           then expandedStores
           else expandedStores @ [expanded]))"

definition expand_list ::
    "discovery_client \<Rightarrow> store_spec \<Rightarrow> api_resource_list \<Rightarrow> store_spec list \<Rightarrow> store_spec list" where
  "expand_list d s l expandedStores =
     (case ParseGroupVersion d (al_GroupVersion l) of
        None \<Rightarrow> expandedStores
      | Some (grp, version) \<Rightarrow>
          if \<not> matchesGroupPattern (ss_Group s) grp then expandedStores
          else if \<not> matchesPattern (ss_Version s) version then expandedStores
          else fold (expand_resource s (grp, version)) (al_APIResources l) expandedStores)"

definition ExpandWildcards :: "discovery_client \<Rightarrow> store_spec \<Rightarrow> store_spec list option" where
  "ExpandWildcards d s =
     (if \<not> HasWildcards s then Some [s]
      else (case ServerGroupsAndResources d of
          (None, True) \<Rightarrow> None
        | (None, False) \<Rightarrow> Some []
        | (Some apiResourceLists, _) \<Rightarrow> Some (fold (expand_list d s) apiResourceLists [])))"

section \<open>Lemmas\<close>

lemma supportsListWatch_iff: "supportsListWatch verbs \<longleftrightarrow> ''list'' \<in> set verbs \<and> ''watch'' \<in> set verbs"
proof -
  have "fold (\<lambda>v (hasList, hasWatch).
          if v = ''list'' then (True, hasWatch) else if v = ''watch'' then (hasList, True) else (hasList, hasWatch))
        verbs (a, b) = (a \<or> ''list'' \<in> set verbs, b \<or> ''watch'' \<in> set verbs)" for a b
    by (induction verbs arbitrary: a b) auto
  then show ?thesis by (simp add: supportsListWatch_def)
qed

text \<open>The resources a store pattern selects from one list, and the store each gives.\<close>

definition selects :: "store_spec \<Rightarrow> api_resource \<Rightarrow> bool" where
  "selects s r \<longleftrightarrow> CHR ''/'' \<notin> set (ar_Name r)
     \<and> matchesPattern (ss_Kind s) (ar_Kind r) \<and> matchesPattern (ss_Resource s) (ar_Name r)
     \<and> (wildcardMatchedResource s \<longrightarrow> ar_Verbs r = [] \<or> ''list'' \<in> set (ar_Verbs r) \<and> ''watch'' \<in> set (ar_Verbs r))"

definition concrete_store :: "store_spec \<Rightarrow> string \<times> string \<Rightarrow> api_resource \<Rightarrow> store_spec" where
  "concrete_store s = (\<lambda>(grp, version) r.
     s\<lparr>ss_Group := grp, ss_Version := version, ss_Kind := ar_Kind r, ss_Resource := ar_Name r\<rparr>)"

lemma expand_resources:
  "fold (expand_resource s gv) rs acc = acc @ map (concrete_store s gv) (filter (selects s) rs)"
proof (induction rs arbitrary: acc)
  case (Cons r rs)
  have "expand_resource s gv r acc = (if selects s r then acc @ [concrete_store s gv r] else acc)"
    by (cases gv) (auto simp: expand_resource_def selects_def concrete_store_def supportsListWatch_iff Let_def)
  with Cons.IH show ?case by simp
qed simp

definition selected :: "discovery_client \<Rightarrow> store_spec \<Rightarrow> api_resource_list \<Rightarrow> store_spec list" where
  "selected d s l =
     (case ParseGroupVersion d (al_GroupVersion l) of
        None \<Rightarrow> []
      | Some (grp, version) \<Rightarrow>
          if matchesGroupPattern (ss_Group s) grp \<and> matchesPattern (ss_Version s) version
          then map (concrete_store s (grp, version)) (filter (selects s) (al_APIResources l)) else [])"

lemma expand_lists: "fold (expand_list d s) ls acc = acc @ concat (map (selected d s) ls)"
proof (induction ls arbitrary: acc)
  case (Cons l ls)
  have "expand_list d s l acc = acc @ selected d s l"
    by (auto simp: expand_list_def selected_def expand_resources split: option.splits)
  with Cons.IH show ?case by simp
qed simp

lemma ExpandWildcards_some:
  assumes "HasWildcards s" and "ServerGroupsAndResources d = (Some ls, err)"
  shows "ExpandWildcards d s = Some (concat (map (selected d s) ls))"
  by (cases err) (simp_all add: ExpandWildcards_def assms expand_lists)

lemma selected_iff:
  "e \<in> set (selected d s l) \<longleftrightarrow>
     (\<exists>grp version r. ParseGroupVersion d (al_GroupVersion l) = Some (grp, version)
        \<and> matchesGroupPattern (ss_Group s) grp \<and> matchesPattern (ss_Version s) version
        \<and> r \<in> set (al_APIResources l) \<and> selects s r \<and> e = concrete_store s (grp, version) r)"
  by (cases "ParseGroupVersion d (al_GroupVersion l)") (auto simp: selected_def)

lemma concrete_store_fields [simp]:
  "ss_Group (concrete_store s (g, v) r) = g" "ss_Version (concrete_store s (g, v) r) = v"
  "ss_Kind (concrete_store s (g, v) r) = ar_Kind r" "ss_Resource (concrete_store s (g, v) r) = ar_Name r"
  by (simp_all add: concrete_store_def)

section \<open>The interface\<close>

text \<open>What the configurer relies on: a store without wildcards is returned as it is, and an
  expansion only fills in group, version, kind and resource.\<close>

definition same_settings :: "store_spec \<Rightarrow> store_spec \<Rightarrow> bool" where
  "same_settings e s \<longleftrightarrow> ss_Selectors e = ss_Selectors s \<and> ss_Families e = ss_Families s
     \<and> ss_Resolver e = ss_Resolver s \<and> ss_Labels e = ss_Labels s
     \<and> ss_CardinalityLimit e = ss_CardinalityLimit s"

lemma same_settings_concrete: "same_settings (concrete_store s gv r) s"
  by (cases gv) (simp add: same_settings_def concrete_store_def)

locale resource_discovery =
  fixes expand :: "store_spec \<Rightarrow> store_spec list option"
  assumes concrete: "\<not> HasWildcards s \<Longrightarrow> expand s = Some [s]"
    and settings: "expand s = Some es \<Longrightarrow> e \<in> set es \<Longrightarrow> same_settings e s"
begin

text \<open>The first pass of the configurer: a store that fails to expand is skipped.\<close>

definition expand_all :: "store_spec list \<Rightarrow> store_spec list" where
  "expand_all ss = concat (map (\<lambda>s. case expand s of None \<Rightarrow> [] | Some es \<Rightarrow> es) ss)"

lemma expand_all_concrete: "\<forall>s \<in> set ss. \<not> HasWildcards s \<Longrightarrow> expand_all ss = ss"
  by (induction ss) (simp_all add: expand_all_def concrete)

lemma expand_all_settings: "e \<in> set (expand_all ss) \<Longrightarrow> \<exists>s \<in> set ss. same_settings e s"
  by (fastforce simp: expand_all_def dest: settings [OF sym] split: option.splits)

end

lemma ExpandWildcards_settings:
  assumes "ExpandWildcards d s = Some es" and "e \<in> set es"
  shows "same_settings e s"
proof (cases "HasWildcards s")
  case True
  with assms(1) have "es = [] \<or> (\<exists>ls. es = concat (map (selected d s) ls))"
    by (auto simp: ExpandWildcards_def expand_lists split: prod.splits option.splits bool.splits if_splits)
  with assms(2) show ?thesis by (auto simp: selected_iff same_settings_concrete)
qed (use assms in \<open>auto simp: ExpandWildcards_def same_settings_def\<close>)

interpretation k8s: resource_discovery "ExpandWildcards d" for d
  by unfold_locales (simp add: ExpandWildcards_def, rule ExpandWildcards_settings)

section \<open>Properties\<close>



text \<open>C11: what a wildcard store expands to. Exactly the resources of the discovered lists, not
  subresources, that match all four patterns and, when kind or resource is a wildcard, either
  report no verbs or support both list and watch (a resource that is named is taken whatever its
  verbs); each gives the store with its own coordinates and all other settings unchanged. Partial
  discovery errors do not change the outcome.\<close>

theorem expand_exact:
  assumes "HasWildcards s" and "ServerGroupsAndResources d = (Some ls, err)"
  shows "\<exists>es. ExpandWildcards d s = Some es
     \<and> (\<forall>e. e \<in> set es \<longleftrightarrow>
          (\<exists>l \<in> set ls. \<exists>grp version r. ParseGroupVersion d (al_GroupVersion l) = Some (grp, version)
             \<and> matchesGroupPattern (ss_Group s) grp \<and> matchesPattern (ss_Version s) version
             \<and> r \<in> set (al_APIResources l) \<and> selects s r
             \<and> ss_Group e = grp \<and> ss_Version e = version \<and> ss_Kind e = ar_Kind r \<and> ss_Resource e = ar_Name r
             \<and> same_settings e s))"
proof -
  have "e = concrete_store s (grp, version) r"
    if "ss_Group e = grp" "ss_Version e = version" "ss_Kind e = ar_Kind r" "ss_Resource e = ar_Name r"
      "same_settings e s" for e grp version r
    using that by (simp add: same_settings_def concrete_store_def)
  then show ?thesis
    unfolding ExpandWildcards_some [OF assms]
    by (intro exI [of _ "concat (map (selected d s) ls)"] conjI refl allI iffI)
      (auto simp: selected_iff same_settings_concrete, blast+)
qed

text \<open>A small cluster: pods can be listed and watched, token reviews only created.\<close>

definition demo_spec :: "string \<Rightarrow> store_spec" where
  "demo_spec kind = \<lparr>ss_Group = [], ss_Version = ''v1'', ss_Kind = kind, ss_Resource = ''*'',
     ss_Selectors = \<lparr>sel_Label = [], sel_Field = []\<rparr>, ss_Families = [],
     ss_Resolver = ResolverTypeNone, ss_Labels = [], ss_CardinalityLimit = 0\<rparr>"

definition demo_pods :: api_resource where
  "demo_pods = \<lparr>ar_Name = ''pods'', ar_Kind = ''Pod'', ar_Verbs = [''list'', ''watch'']\<rparr>"

definition demo_reviews :: api_resource where
  "demo_reviews = \<lparr>ar_Name = ''tokenreviews'', ar_Kind = ''TokenReview'', ar_Verbs = [''create'']\<rparr>"

definition demo_core :: api_resource_list where
  "demo_core = \<lparr>al_GroupVersion = ''v1'', al_APIResources = [demo_pods, demo_reviews]\<rparr>"

definition demo_cluster :: discovery_client where
  "demo_cluster = \<lparr>ServerGroupsAndResources = (Some [demo_core], True), ParseGroupVersion = (\<lambda>s. Some ([], s))\<rparr>"

lemma demo_has_wildcards: "HasWildcards (demo_spec k)"
  by (simp add: HasWildcards_def IsWildcard_def demo_spec_def)

lemma plain_glob_self: "plain_pattern v \<Longrightarrow> CHR ''*'' \<notin> set v \<Longrightarrow> CHR ''/'' \<notin> set v \<Longrightarrow> matchesPattern v v"
  using glob_literal [of v "[]" v] by (simp add: matchesPattern_def Match_glob)

lemma demo_selects: "selects (demo_spec ''*'') demo_pods" "\<not> selects (demo_spec ''*'') demo_reviews"
  by (simp_all add: selects_def demo_spec_def demo_pods_def demo_reviews_def wildcardMatchedResource_def
      IsWildcard_def matchesPattern_def WildcardPattern_def)

theorem expand_exact_witness:
  "\<exists>es e. ExpandWildcards demo_cluster (demo_spec ''*'') = Some es \<and> e \<in> set es \<and> ss_Kind e = ''Pod''
     \<and> ss_Resource e = ''pods''"
proof -
  have c: "ServerGroupsAndResources demo_cluster = (Some [demo_core], True)" by (simp add: demo_cluster_def)
  have v: "matchesPattern ''v1'' ''v1''" by (simp add: plain_glob_self plain_pattern_def)
  obtain es where "ExpandWildcards demo_cluster (demo_spec ''*'') = Some es" and
    "concrete_store (demo_spec ''*'') ([], ''v1'') demo_pods \<in> set es"
    using expand_exact [OF demo_has_wildcards c, of "''*''"] v demo_selects(1) same_settings_concrete
    by (fastforce simp: demo_cluster_def demo_core_def demo_spec_def [of "''*''"] matchesGroupPattern_def)
  then show ?thesis by (fastforce simp: demo_pods_def)
qed

text \<open>Expansion is final. If the cluster names its groups, versions, kinds and resources
  without a star, every store it expands to is concrete, so expanding it again returns it alone;
  and one that came from a wildcard kind or resource is of a resource that can be listed and
  watched or reports no verbs, so no reflector is started on a create-only resource.\<close>

theorem expansion_is_final:
  assumes "ExpandWildcards d s = Some es" and "e \<in> set es"
    and "ServerGroupsAndResources d = (Some ls, err)"
    and "\<forall>l \<in> set ls. \<forall>r \<in> set (al_APIResources l). \<not> IsWildcard (ar_Kind r) \<and> \<not> IsWildcard (ar_Name r)"
    and "\<forall>gv grp version. ParseGroupVersion d gv = Some (grp, version) \<longrightarrow> \<not> IsWildcard grp \<and> \<not> IsWildcard version"
  shows "ExpandWildcards d e = Some [e]
     \<and> (wildcardMatchedResource s \<longrightarrow> (\<exists>l \<in> set ls. \<exists>r \<in> set (al_APIResources l).
            ar_Kind r = ss_Kind e \<and> ar_Name r = ss_Resource e
            \<and> (ar_Verbs r = [] \<or> supportsListWatch (ar_Verbs r))))"
proof (cases "HasWildcards s")
  case True
  with assms(1,3) have "es = concat (map (selected d s) ls)" by (simp add: ExpandWildcards_some)
  with assms(2) obtain l grp version r where l: "l \<in> set ls" "r \<in> set (al_APIResources l)" "selects s r"
      and p: "ParseGroupVersion d (al_GroupVersion l) = Some (grp, version)"
      and e: "e = concrete_store s (grp, version) r"
    by (auto simp: selected_iff)
  have "\<not> IsWildcard (ar_Kind r) \<and> \<not> IsWildcard (ar_Name r)" using assms(4) l by blast
  moreover have "\<not> IsWildcard grp \<and> \<not> IsWildcard version" using assms(5) p by blast
  ultimately have "\<not> HasWildcards e" by (simp add: HasWildcards_def e)
  then have "ExpandWildcards d e = Some [e]" by (rule k8s.concrete)
  with l show ?thesis by (auto simp: e selects_def supportsListWatch_iff)
next
  case False
  then have "\<not> wildcardMatchedResource s" by (auto simp: HasWildcards_def wildcardMatchedResource_def)
  moreover have "es = [s]" using k8s.concrete [OF False] assms(1) by simp
  ultimately show ?thesis using assms(2) k8s.concrete [OF False] by simp
qed

definition demo_pod_store :: store_spec where
  "demo_pod_store = concrete_store (demo_spec ''*'') ([], ''v1'') demo_pods"

lemma demo_expansion:
  "ExpandWildcards (demo_cluster\<lparr>ParseGroupVersion := \<lambda>s. if s = ''v1'' then Some ([], s) else None\<rparr>) (demo_spec ''*'')
     = Some [demo_pod_store]"
proof -
  let ?d = "demo_cluster\<lparr>ParseGroupVersion := \<lambda>s. if s = ''v1'' then Some ([], s) else None\<rparr>"
  have c: "ServerGroupsAndResources ?d = (Some [demo_core], True)" by (simp add: demo_cluster_def)
  have v: "matchesPattern ''v1'' ''v1''" by (simp add: plain_glob_self plain_pattern_def)
  have s: "ss_Group (demo_spec ''*'') = []" "ss_Version (demo_spec ''*'') = ''v1''" by (simp_all add: demo_spec_def)
  show ?thesis
    by (simp add: ExpandWildcards_some [OF demo_has_wildcards c] selected_def demo_core_def v s
        matchesGroupPattern_def demo_selects demo_pod_store_def)
qed

theorem expansion_is_final_witness:
  "ExpandWildcards (demo_cluster\<lparr>ParseGroupVersion := \<lambda>s. if s = ''v1'' then Some ([], s) else None\<rparr>) demo_pod_store
     = Some [demo_pod_store]"
  using expansion_is_final [OF demo_expansion, of demo_pod_store "[demo_core]" True]
  by (simp add: demo_cluster_def demo_core_def demo_pods_def demo_reviews_def IsWildcard_def)

end
