(* ===== verification/Configurer.thy ===== *)
theory Configurer
  imports Metric_Store Discovery
begin

text \<open>
  \<open>internal/config.go\<close>: from the configuration of a monitor to its stores. The passes of \<open>build\<close>
  are separate definitions: expanding the wildcards, dropping stores whose key was seen before,
  publishing the two duplicate gauges, and building. A gauge vector is the map from label values
  to the value last set, absent when the field is nil; the \<open>sync.Map\<close> of stores is a map from
  UID to the stores of that monitor. Durations are nanoseconds. The stamp of the families is an
  argument: \<open>nowTime\<close> reads it in \<open>buildStore\<close>.
\<close>

type_synonym gauge_vec = "(string list, float64) gomap"

record configurer =
  cg_configuration :: configuration
  cg_discovery :: discovery_client
  cg_resource :: monitor
  cg_celCostLimit :: int64
  cg_celTimeout :: int
  cg_resourceCardinalityDefault :: int64
  cg_cardinalityWarningRatio :: float64
  cg_starlarkTimeout :: int
  cg_starlarkMaxSteps :: int
  cg_duplicateStores :: "gauge_vec option"
  cg_duplicateFamilies :: "gauge_vec option"

definition newConfigurer ::
    "discovery_client \<Rightarrow> monitor \<Rightarrow> int64 \<Rightarrow> int \<Rightarrow> int64 \<Rightarrow> float64 \<Rightarrow> int \<Rightarrow> int
      \<Rightarrow> gauge_vec option \<Rightarrow> gauge_vec option \<Rightarrow> configurer" where
  "newConfigurer d resource celCostLimit celTimeout resourceCardinalityDefault cardinalityWarningRatio
       starlarkTimeout starlarkMaxSteps duplicateStores duplicateFamilies =
     \<lparr>cg_configuration = rmm_Spec resource, cg_discovery = d, cg_resource = resource,
      cg_celCostLimit = celCostLimit, cg_celTimeout = celTimeout,
      cg_resourceCardinalityDefault = resourceCardinalityDefault,
      cg_cardinalityWarningRatio = cardinalityWarningRatio,
      cg_starlarkTimeout = starlarkTimeout, cg_starlarkMaxSteps = starlarkMaxSteps,
      cg_duplicateStores = duplicateStores, cg_duplicateFamilies = duplicateFamilies\<rparr>"

definition storeKey :: "store_spec \<Rightarrow> string" where
  "storeKey s = ss_Group s @ ''/'' @ ss_Version s @ ''/'' @ ss_Kind s"

section \<open>The passes\<close>

fun expand_pass :: "discovery_client \<Rightarrow> store_spec list \<Rightarrow> store_spec list \<Rightarrow> store_spec list" where
  "expand_pass d [] allExpandedStores = allExpandedStores"
| "expand_pass d (storeConfig # rest) allExpandedStores =
     (case ExpandWildcards d storeConfig of
        None \<Rightarrow> expand_pass d rest allExpandedStores
      | Some expandedStores \<Rightarrow> expand_pass d rest (allExpandedStores @ expandedStores))"

definition track_families ::
    "string \<Rightarrow> family_spec list \<Rightarrow> (string, string list) gomap \<Rightarrow> (string, string list) gomap" where
  "track_families key fs seenFamilies =
     fold (\<lambda>f m. gm_put (fs_Name f) (gm_get [] m (fs_Name f) @ [key]) m) fs seenFamilies"

fun dedup_pass ::
    "store_spec list \<Rightarrow> (string, int) gomap \<Rightarrow> (string, string list) gomap \<Rightarrow> store_spec list
      \<Rightarrow> (string, int) gomap \<times> (string, string list) gomap \<times> store_spec list" where
  "dedup_pass [] seenStores seenFamilies deduplicatedStores = (seenStores, seenFamilies, deduplicatedStores)"
| "dedup_pass (s # ss) seenStores seenFamilies deduplicatedStores =
     (let key = storeKey s in
      case map_of seenStores key of
        Some n \<Rightarrow> dedup_pass ss (gm_put key (n + 1) seenStores) seenFamilies deduplicatedStores
      | None \<Rightarrow>
          dedup_pass ss (gm_put key 1 seenStores) (track_families key (ss_Families s) seenFamilies)
            (deduplicatedStores @ [s]))"

definition set_store_gauge ::
    "string \<Rightarrow> string \<Rightarrow> (string, int) gomap \<Rightarrow> gauge_vec \<Rightarrow> gauge_vec" where
  "set_store_gauge namespace name seenStores =
     fold (\<lambda>(key, n). gm_put [namespace, name, key] (f64_of_int (n - 1))) seenStores"

definition set_family_gauge ::
    "string \<Rightarrow> string \<Rightarrow> (string, string list) gomap \<Rightarrow> gauge_vec \<Rightarrow> gauge_vec" where
  "set_family_gauge namespace name seenFamilies =
     fold (\<lambda>(familyName, storeKeys).
        gm_put [namespace, name, familyName] (f64_of_int (int (length storeKeys) - 1))) seenFamilies"

definition buildFamily :: "configurer \<Rightarrow> family_spec \<Rightarrow> family" where
  "buildFamily c fs =
     (let family = \<lparr>fs_Name = fs_Name fs, fs_Help = fs_Help fs, fs_Metrics = fs_Metrics fs,
            fs_Starlark = fs_Starlark fs, fs_Resolver = fs_Resolver fs, fs_Labels = fs_Labels fs,
            fs_CardinalityLimit = fs_CardinalityLimit fs,
            fm_celCostLimit = 0, fm_celTimeout = 0, fm_managedRMMNamespace = [],
            fm_managedRMMName = [], fm_createdAt = 0, fm_cutoff = False, fm_starlarkResolver = None\<rparr>
      in if fs_Resolver fs = ResolverTypeStarlark
         then (case fs_Starlark fs of
             None \<Rightarrow> family
           | Some starlarkCfg \<Rightarrow>
               (let timeout = (if 0 < sc_Timeout starlarkCfg then Seconds (sc_Timeout starlarkCfg)
                               else cg_starlarkTimeout c);
                    maxSteps = (if 0 < sc_MaxSteps starlarkCfg then sc_MaxSteps starlarkCfg
                                else cg_starlarkMaxSteps c)
                in family\<lparr>fm_starlarkResolver :=
                     Some (NewStarlarkResolver (sc_Script starlarkCfg) timeout maxSteps)\<rparr>))
         else family)"

definition buildStoreFromConfig :: "int64 \<Rightarrow> configurer \<Rightarrow> store_spec \<Rightarrow> store" where
  "buildStoreFromConfig createdAt c s =
     (let storeCardinalityLimit = (if ss_CardinalityLimit s \<le>s 0 then cg_resourceCardinalityDefault c
                                   else ss_CardinalityLimit s);
          families = map (buildFamily c) (ss_Families s)
      in buildStore createdAt (ss_Group s) (ss_Version s) (ss_Kind s) families (ss_Resolver s) (ss_Labels s)
           (cg_celCostLimit c) (cg_celTimeout c) (rmm_Namespace (cg_resource c)) (rmm_Name (cg_resource c))
           storeCardinalityLimit (cg_cardinalityWarningRatio c))"

definition build ::
    "int64 \<Rightarrow> configurer \<Rightarrow> (uid, store list) gomap
      \<Rightarrow> (uid, store list) gomap \<times> gauge_vec option \<times> gauge_vec option" where
  "build createdAt c stores =
     (let allExpandedStores = expand_pass (cg_discovery c) (cf_Stores (cg_configuration c)) [];
          (seenStores, seenFamilies, deduplicatedStores) = dedup_pass allExpandedStores [] [] [];
          namespace = rmm_Namespace (cg_resource c);
          name = rmm_Name (cg_resource c);
          builtStores = map (buildStoreFromConfig createdAt c) deduplicatedStores
      in (gm_put (rmm_UID (cg_resource c)) builtStores stores,
          map_option (set_store_gauge namespace name seenStores) (cg_duplicateStores c),
          map_option (set_family_gauge namespace name seenFamilies) (cg_duplicateFamilies c)))"

section \<open>Lemmas\<close>

lemma expand_pass_eq: "expand_pass d ss acc = acc @ k8s.expand_all d ss"
  by (induction d ss acc rule: expand_pass.induct) (simp_all add: k8s.expand_all_def split: option.split)

text \<open>The reference for the second pass: the first store of every key, in order.\<close>

fun first_of_key :: "store_spec list \<Rightarrow> string set \<Rightarrow> store_spec list" where
  "first_of_key [] seen = []"
| "first_of_key (s # ss) seen =
     (if storeKey s \<in> seen then first_of_key ss seen
      else s # first_of_key ss (insert (storeKey s) seen))"

lemma first_of_key_keys:
  "storeKey ` set (first_of_key ss seen) = storeKey ` set ss - seen
   \<and> distinct (map storeKey (first_of_key ss seen))
   \<and> set (first_of_key ss seen) \<subseteq> set ss"
  by (induction ss seen rule: first_of_key.induct) auto

definition key_counts :: "store_spec list \<Rightarrow> (string, int) gomap \<Rightarrow> (string, int) gomap" where
  "key_counts ss = fold (\<lambda>s m. gm_put (storeKey s) (gm_get 0 m (storeKey s) + 1) m) ss"

lemma key_counts_get: "gm_get 0 (key_counts ss m) k = gm_get 0 m k + int (count_list (map storeKey ss) k)"
  by (induction ss arbitrary: m) (auto simp: key_counts_def gm_get_def update_conv)

lemma key_counts_keys: "fst ` set (key_counts ss m) = fst ` set m \<union> storeKey ` set ss"
  by (induction ss arbitrary: m) (auto simp: key_counts_def)

lemma dedup_pass_eq:
  "dedup_pass ss m fams acc =
     (key_counts ss m,
      fold (\<lambda>s. track_families (storeKey s) (ss_Families s)) (first_of_key ss (fst ` set m)) fams,
      acc @ first_of_key ss (fst ` set m))"
proof (induction ss m fams acc rule: dedup_pass.induct)
  case (2 s ss m fams acc)
  have seen: "map_of m (storeKey s) = None \<longleftrightarrow> storeKey s \<notin> fst ` set m" by (rule map_of_eq_None_iff)
  show ?case
  proof (cases "map_of m (storeKey s)")
    case None
    with seen 2(1) [OF refl None] show ?thesis by (simp add: key_counts_def gm_get_def Let_def)
  next
    case (Some n)
    moreover have "storeKey s \<in> fst ` set m" using seen Some by auto
    ultimately show ?thesis using 2(2) [OF refl Some] by (simp add: key_counts_def gm_get_def insert_absorb Let_def)
  qed
qed (simp add: key_counts_def)

text \<open>Publishing a map of values under the labels of a monitor.\<close>

lemma publish_get:
  assumes "distinct (map fst m)"
  shows "map_of (fold (\<lambda>(key, v). gm_put [ns, n, key] (h v)) m g) [ns, n, k] =
     (case map_of m k of None \<Rightarrow> map_of g [ns, n, k] | Some v \<Rightarrow> Some (h v))"
  using assms
proof (induction m arbitrary: g)
  case (Cons kc m)
  obtain a b where kc: "kc = (a, b)" by (cases kc)
  have "map_of m a = None" using Cons.prems by (simp add: kc map_of_eq_None_iff)
  with Cons.IH [of "gm_put [ns, n, a] (h b) g"] Cons.prems show ?case
    by (cases "k = a") (simp_all add: update_conv kc split: option.split)
qed simp

lemma set_store_gauge_get:
  "distinct (map fst m) \<Longrightarrow> map_of (set_store_gauge ns n m g) [ns, n, k] =
     (case map_of m k of None \<Rightarrow> map_of g [ns, n, k] | Some c \<Rightarrow> Some (f64_of_int (c - 1)))"
  unfolding set_store_gauge_def by (rule publish_get)

lemma set_family_gauge_get:
  "distinct (map fst m) \<Longrightarrow> map_of (set_family_gauge ns n m g) [ns, n, k] =
     (case map_of m k of None \<Rightarrow> map_of g [ns, n, k] | Some ks \<Rightarrow> Some (f64_of_int (int (length ks) - 1)))"
  unfolding set_family_gauge_def by (rule publish_get)

lemma key_counts_distinct: "distinct (map fst m) \<Longrightarrow> distinct (map fst (key_counts ss m))"
  by (induction ss arbitrary: m) (auto simp: key_counts_def distinct_update)

lemma key_counts_at: "k \<in> storeKey ` set ss \<Longrightarrow> map_of (key_counts ss []) k = Some (int (count_list (map storeKey ss) k))"
proof -
  assume "k \<in> storeKey ` set ss"
  then have "map_of (key_counts ss []) k \<noteq> None" by (simp add: map_of_eq_None_iff key_counts_keys)
  with key_counts_get [of ss "[]" k] show ?thesis by (auto simp: gm_get_def split: option.splits)
qed

lemma GetStoreIdentifier_built: "GetStoreIdentifier (buildStoreFromConfig t c s) = storeKey s"
  by (simp add: GetStoreIdentifier_def storeKey_def buildStoreFromConfig_def buildStore_def newStore_def
      SetCardinalityTracker_def Let_def)

lemma buildFamily_uncut: "\<not> fm_cutoff (buildFamily c fs)"
  by (simp add: buildFamily_def Let_def split: option.split)

lemma store_inv_built: "store_inv (buildStoreFromConfig t c s)"
  unfolding buildStoreFromConfig_def Let_def by (rule store_inv_build) (auto simp: buildFamily_uncut)

text \<open>What building does to the map of stores.\<close>

lemma build_stores:
  "\<exists>built. fst (build t c stores) = gm_put (rmm_UID (cg_resource c)) built stores
     \<and> built = map (buildStoreFromConfig t c) (first_of_key (k8s.expand_all (cg_discovery c) (cf_Stores (cg_configuration c))) {})
     \<and> list_all store_inv built \<and> distinct (map GetStoreIdentifier built)"
  using first_of_key_keys [of "k8s.expand_all (cg_discovery c) (cf_Stores (cg_configuration c))" "{}"]
  by (simp add: build_def expand_pass_eq dedup_pass_eq Let_def list_all_iff store_inv_built
      GetStoreIdentifier_built comp_def)

section \<open>Properties\<close>

text \<open>C12: what a monitor's stores are. Building stores under its UID one store per key of the
  expanded configuration, built from the first configuration with that key, in order, so their
  identifiers are distinct; every store starts consistent; and the duplicate gauge of each key
  is set to the number of its occurrences beyond the first, zero included.\<close>

theorem build_dedups:
  assumes "build createdAt c stores = (stores', Some g', fg)"
    and "all = k8s.expand_all (cg_discovery c) (cf_Stores (cg_configuration c))"
    and "r = cg_resource c"
  shows "\<exists>built. map_of stores' (rmm_UID r) = Some built
     \<and> built = map (buildStoreFromConfig createdAt c) (first_of_key all {})
     \<and> distinct (map GetStoreIdentifier built) \<and> set (map GetStoreIdentifier built) = storeKey ` set all
     \<and> list_all store_inv built
     \<and> (\<forall>key \<in> storeKey ` set all. map_of g' [rmm_Namespace r, rmm_Name r, key]
            = Some (f64_of_int (int (count_list (map storeKey all) key) - 1)))"
proof -
  let ?m = "key_counts all []"
  obtain g where g: "cg_duplicateStores c = Some g"
      "g' = set_store_gauge (rmm_Namespace r) (rmm_Name r) ?m g"
    and s': "stores' = gm_put (rmm_UID r) (map (buildStoreFromConfig createdAt c) (first_of_key all {})) stores"
    using assms by (auto simp: build_def expand_pass_eq dedup_pass_eq Let_def)
  let ?built = "map (buildStoreFromConfig createdAt c) (first_of_key all {})"
  have ids: "map GetStoreIdentifier ?built = map storeKey (first_of_key all {})"
    by (simp add: GetStoreIdentifier_built)
  have "distinct (map fst ?m)" by (rule key_counts_distinct) simp
  then have "map_of g' [rmm_Namespace r, rmm_Name r, key] = Some (f64_of_int (int (count_list (map storeKey all) key) - 1))"
    if "key \<in> storeKey ` set all" for key
    by (simp add: g(2) set_store_gauge_get key_counts_at [OF that])
  moreover have "list_all store_inv ?built" by (simp add: list_all_iff store_inv_built)
  ultimately show ?thesis
    using first_of_key_keys [of all "{}"]
    by (simp add: s' update_conv GetStoreIdentifier_built comp_def image_image)
qed

definition demo_monitor :: "store_spec list \<Rightarrow> monitor" where
  "demo_monitor ss = \<lparr>rmm_Namespace = ''ns'', rmm_Name = ''n'', rmm_UID = ''u'', rmm_Generation = 1,
     rmm_ResourceVersion = ''1'', rmm_Labels = [], rmm_Spec = \<lparr>cf_Stores = ss, cf_CardinalityLimit = 0\<rparr>,
     rmm_Status = \<lparr>st_Conditions = [], st_Cardinality = None\<rparr>\<rparr>"

definition demo_configurer :: "store_spec list \<Rightarrow> configurer" where
  "demo_configurer ss = newConfigurer demo_cluster (demo_monitor ss) 0 0 10 f64_0_8 0 0 (Some []) (Some [])"

lemma demo_pod_store_concrete: "\<not> HasWildcards demo_pod_store"
  by (simp add: demo_pod_store_def HasWildcards_def IsWildcard_def demo_pods_def)

lemma demo_build:
  "build t (demo_configurer ss) [] =
     (let (seenStores, seenFamilies, ds) = dedup_pass (k8s.expand_all demo_cluster ss) [] [] []
      in ([(''u'', map (buildStoreFromConfig t (demo_configurer ss)) ds)],
          Some (set_store_gauge ''ns'' ''n'' seenStores []), Some (set_family_gauge ''ns'' ''n'' seenFamilies [])))"
  by (simp add: build_def demo_configurer_def newConfigurer_def demo_monitor_def expand_pass_eq Let_def split_def)

theorem build_dedups_witness:
  "\<exists>stores g' fg built. build 0 (demo_configurer [demo_pod_store, demo_pod_store]) [] = (stores, Some g', fg)
     \<and> map_of stores ''u'' = Some built \<and> length built = 1
     \<and> map_of g' [''ns'', ''n'', ''/v1/Pod''] = Some (f64_of_int 1)"
proof -
  let ?c = "demo_configurer [demo_pod_store, demo_pod_store]"
  have all: "k8s.expand_all demo_cluster [demo_pod_store, demo_pod_store] = [demo_pod_store, demo_pod_store]"
    by (rule k8s.expand_all_concrete) (simp add: demo_pod_store_concrete)
  have f: "cg_discovery ?c = demo_cluster" "cf_Stores (cg_configuration ?c) = [demo_pod_store, demo_pod_store]"
    "rmm_UID (cg_resource ?c) = ''u''" "rmm_Namespace (cg_resource ?c) = ''ns''" "rmm_Name (cg_resource ?c) = ''n''"
    by (simp_all add: demo_configurer_def newConfigurer_def demo_monitor_def)
  have k: "storeKey demo_pod_store = ''/v1/Pod''"
    by (simp add: storeKey_def demo_pod_store_def demo_pods_def)
  obtain stores g' fg where b: "build 0 ?c [] = (stores, Some g', fg)"
    unfolding demo_build Let_def split_def by blast
  from build_dedups [OF b refl refl, unfolded f all] b k show ?thesis by auto
qed

text \<open>The duplicate gauges outlive the configuration. Rebuilding sets the gauge only of keys
  the new configuration still has; a key whose stores were all removed keeps the value last
  published for it.\<close>

theorem duplicate_gauge_goes_stale:
  assumes "cg_duplicateStores c = Some g" and "build createdAt c stores = (stores', Some g', fg)"
    and "key \<notin> storeKey ` set (k8s.expand_all (cg_discovery c) (cf_Stores (cg_configuration c)))"
  shows "map_of g' [rmm_Namespace (cg_resource c), rmm_Name (cg_resource c), key]
       = map_of g [rmm_Namespace (cg_resource c), rmm_Name (cg_resource c), key]"
proof -
  let ?all = "k8s.expand_all (cg_discovery c) (cf_Stores (cg_configuration c))"
  have "g' = set_store_gauge (rmm_Namespace (cg_resource c)) (rmm_Name (cg_resource c)) (key_counts ?all []) g"
    using assms(1,2) by (auto simp: build_def expand_pass_eq dedup_pass_eq Let_def)
  moreover have "map_of (key_counts ?all []) key = None"
    using assms(3) by (simp add: map_of_eq_None_iff key_counts_keys)
  moreover have "distinct (map fst (key_counts ?all []))" by (rule key_counts_distinct) simp
  ultimately show ?thesis by (simp add: set_store_gauge_get)
qed

theorem duplicate_gauge_goes_stale_witness:
  "\<exists>stores g' fg. build 0 ((demo_configurer [])\<lparr>cg_duplicateStores := Some [([''ns'', ''n'', ''/v1/Pod''], f64_one)]\<rparr>) []
       = (stores, Some g', fg)
     \<and> map_of g' [''ns'', ''n'', ''/v1/Pod''] = Some f64_one"
proof -
  let ?c = "(demo_configurer [])\<lparr>cg_duplicateStores := Some [([''ns'', ''n'', ''/v1/Pod''], f64_one)]\<rparr>"
  obtain stores g' fg where b: "build 0 ?c [] = (stores, Some g', fg)"
    by (simp add: build_def Let_def split_def)
  have f: "cf_Stores (cg_configuration ?c) = []" "rmm_Namespace (cg_resource ?c) = ''ns''" "rmm_Name (cg_resource ?c) = ''n''"
    by (simp_all add: demo_configurer_def newConfigurer_def demo_monitor_def)
  from duplicate_gauge_goes_stale [OF _ b, of _ "''/v1/Pod''", unfolded f] b show ?thesis
    by (auto simp: k8s.expand_all_def)
qed

text \<open>How often a family name was tracked.\<close>

lemma track_families_length:
  "length (gm_get [] (track_families key fs m) k) = length (gm_get [] m k) + count_list (map fs_Name fs) k"
  by (induction fs arbitrary: m) (auto simp: track_families_def gm_get_def update_conv)

lemma track_families_map:
  "distinct (map fst m) \<Longrightarrow> distinct (map fst (track_families key fs m))"
  "fst ` set (track_families key fs m) = fst ` set m \<union> fs_Name ` set fs"
  by (induction fs arbitrary: m) (auto simp: track_families_def distinct_update)

definition family_names :: "store_spec list \<Rightarrow> string list" where
  "family_names ss = concat (map (\<lambda>s. map fs_Name (ss_Families s)) ss)"

lemma track_all:
  fixes m :: "(string, string list) gomap"
  defines "t \<equiv> \<lambda>ss. fold (\<lambda>s. track_families (storeKey s) (ss_Families s)) ss"
  shows "length (gm_get [] (t ss m) k) = length (gm_get [] m k) + count_list (family_names ss) k"
    and "distinct (map fst m) \<Longrightarrow> distinct (map fst (t ss m))"
    and "fst ` set (t ss m) = fst ` set m \<union> set (family_names ss)"
  unfolding t_def
  by (induction ss arbitrary: m) (auto simp: family_names_def track_families_length track_families_map)

text \<open>What the family gauge counts. For every family name it is the number of families of
  that name over all stores kept, less one: not the number of stores sharing it, so two families
  of one name in a single store are reported as a name shared across stores.\<close>

theorem family_gauge_exact:
  assumes "build createdAt c stores = (stores', sg, Some g')"
    and "kept = first_of_key (k8s.expand_all (cg_discovery c) (cf_Stores (cg_configuration c))) {}"
    and "f \<in> set (family_names kept)"
  shows "map_of g' [rmm_Namespace (cg_resource c), rmm_Name (cg_resource c), f]
     = Some (f64_of_int (int (count_list (family_names kept) f) - 1))"
proof -
  let ?m = "fold (\<lambda>s. track_families (storeKey s) (ss_Families s)) kept []"
  obtain g where g': "g' = set_family_gauge (rmm_Namespace (cg_resource c)) (rmm_Name (cg_resource c)) ?m g"
    using assms(1,2) by (auto simp: build_def expand_pass_eq dedup_pass_eq Let_def)
  have "f \<in> fst ` set ?m" using track_all(3) [of kept "[]"] assms(3) by simp
  then obtain ks where ks: "map_of ?m f = Some ks" by (cases "map_of ?m f") (auto simp: map_of_eq_None_iff)
  have "length ks = count_list (family_names kept) f"
    using track_all(1) [of kept "[]" f] ks by (simp add: gm_get_def)
  moreover have "distinct (map fst ?m)" by (rule track_all(2)) simp
  ultimately show ?thesis by (simp add: g' set_family_gauge_get ks)
qed

definition twin_family :: family_spec where
  "twin_family = \<lparr>fs_Name = ''f'', fs_Help = ''h'', fs_Metrics = [], fs_Starlark = None,
     fs_Resolver = ResolverTypeNone, fs_Labels = [], fs_CardinalityLimit = 0\<rparr>"

definition twin_store :: store_spec where
  "twin_store = demo_pod_store\<lparr>ss_Families := [twin_family, twin_family]\<rparr>"

theorem family_gauge_exact_witness:
  "\<exists>stores sg g'. build 0 (demo_configurer [twin_store]) [] = (stores, sg, Some g')
     \<and> map_of g' [''ns'', ''n'', ''f''] = Some (f64_of_int 1)"
proof -
  let ?c = "demo_configurer [twin_store]"
  have f: "cg_discovery ?c = demo_cluster" "cf_Stores (cg_configuration ?c) = [twin_store]"
    "rmm_Namespace (cg_resource ?c) = ''ns''" "rmm_Name (cg_resource ?c) = ''n''"
    by (simp_all add: demo_configurer_def newConfigurer_def demo_monitor_def)
  have "\<not> HasWildcards twin_store"
    using demo_pod_store_concrete by (simp add: twin_store_def HasWildcards_def)
  then have all: "k8s.expand_all demo_cluster [twin_store] = [twin_store]"
    by (simp add: k8s.expand_all_concrete)
  have n: "family_names [twin_store] = [''f'', ''f'']"
    by (simp add: family_names_def twin_store_def twin_family_def)
  obtain stores sg g' where b: "build 0 ?c [] = (stores, sg, Some g')"
    unfolding demo_build Let_def split_def by blast
  from family_gauge_exact [OF b refl, of "''f''", unfolded f all] b n show ?thesis by auto
qed

end
