(* ===== verification/Reflector.thy ===== *)
theory Reflector
  imports Configurer
begin

text \<open>
  The list-watch half of \<open>internal/builder.go\<close>: the resource a store is built for, the list and
  watch functions handed to the reflector, and what the reflector's first list makes of the store.
  The dynamic client is a parameter; the options a reflector passes are the two selectors and
  whatever else they hold, which is left to the record's extension. A reflector is what is handed
  to \<open>cache.NewReflectorWithOptions\<close>, without its log name. Of \<open>client-go\<close> the model uses that a
  reflector calls \<open>Replace\<close> with the items of a list and then \<open>Add\<close>, \<open>Update\<close> and \<open>Delete\<close> with the
  events of the watch.
\<close>

record gvk =
  gvk_Group :: string
  gvk_Version :: string
  gvk_Kind :: string

record gvr =
  gvr_Group :: string
  gvr_Version :: string
  gvr_Resource :: string

record gvkr =
  GroupVersionKind :: gvk
  GroupVersionResource :: gvr

definition buildGVKR :: "store_spec \<Rightarrow> gvkr" where
  "buildGVKR s =
     \<lparr>GroupVersionKind = \<lparr>gvk_Group = ss_Group s, gvk_Version = ss_Version s, gvk_Kind = ss_Kind s\<rparr>,
      GroupVersionResource = \<lparr>gvr_Group = ss_Group s, gvr_Version = ss_Version s, gvr_Resource = ss_Resource s\<rparr>\<rparr>"

record list_options =
  lo_LabelSelector :: string
  lo_FieldSelector :: string

text \<open>\<open>None\<close> is an error of the client.\<close>

record ('x, 'l, 'w) dynamic_client =
  dc_List :: "gvr \<Rightarrow> 'x list_options_scheme \<Rightarrow> 'l option"
  dc_Watch :: "gvr \<Rightarrow> 'x list_options_scheme \<Rightarrow> 'w option"

record ('x, 'l, 'w) lister_watcher =
  ListFunc :: "'x list_options_scheme \<Rightarrow> 'l option"
  WatchFunc :: "'x list_options_scheme \<Rightarrow> 'w option"

definition buildLW ::
    "('x, 'l, 'w) dynamic_client \<Rightarrow> string \<Rightarrow> string \<Rightarrow> gvr \<Rightarrow> ('x, 'l, 'w) lister_watcher" where
  "buildLW dynamicClientset labelSelector fieldSelector gvr =
     (let lwo = \<lparr>lo_LabelSelector = labelSelector, lo_FieldSelector = fieldSelector\<rparr>
      in \<lparr>ListFunc = (\<lambda>opts. dc_List dynamicClientset gvr
            (opts\<lparr>lo_LabelSelector := lo_LabelSelector lwo, lo_FieldSelector := lo_FieldSelector lwo\<rparr>)),
          WatchFunc = (\<lambda>opts. dc_Watch dynamicClientset gvr
            (opts\<lparr>lo_LabelSelector := lo_LabelSelector lwo, lo_FieldSelector := lo_FieldSelector lwo\<rparr>))\<rparr>)"

record ('x, 'l, 'w) reflector =
  rf_expected :: gvk
  rf_lw :: "('x, 'l, 'w) lister_watcher"
  rf_store :: store

definition startReflector ::
    "('x, 'l, 'w) lister_watcher \<Rightarrow> gvkr \<Rightarrow> store \<Rightarrow> ('x, 'l, 'w) reflector" where
  "startReflector lw gvkWithR s = \<lparr>rf_expected = GroupVersionKind gvkWithR, rf_lw = lw, rf_store = s\<rparr>"

text \<open>The reflector that building a store of a configuration starts.\<close>

definition store_reflector ::
    "('x, 'l, 'w) dynamic_client \<Rightarrow> int64 \<Rightarrow> configurer \<Rightarrow> store_spec \<Rightarrow> ('x, 'l, 'w) reflector" where
  "store_reflector client createdAt c s =
     (let gvkWithR = buildGVKR s;
          lw = buildLW client (sel_Label (ss_Selectors s)) (sel_Field (ss_Selectors s))
            (GroupVersionResource gvkWithR)
      in startReflector lw gvkWithR (buildStoreFromConfig createdAt c s))"

text \<open>A reflector that lists once and then delivers the events of a watch; \<open>None\<close> where the list
  fails or an operation panics.\<close>

definition list_and_watch ::
    "'a metric_lib_scheme \<Rightarrow> ('x, uobject list, 'w) reflector \<Rightarrow> 'x list_options_scheme \<Rightarrow> store_event list
      \<Rightarrow> store option" where
  "list_and_watch lib r opts events =
     (case ListFunc (rf_lw r) opts of
        None \<Rightarrow> None
      | Some items \<Rightarrow> store_run lib (EvReplace items # events) (rf_store r))"

section \<open>Lemmas\<close>

lemma store_Add_synced: "store_Add lib obj s = Some (s', e) \<Longrightarrow> so_synced s \<Longrightarrow> so_synced s'"
  by (auto simp: store_Add_def generateMetricsForObject_def checkAndApplyThresholds_def Let_def split_def
      split: option.splits)

lemma add_items_synced: "add_items lib objs s = Some s' \<Longrightarrow> so_synced s \<Longrightarrow> so_synced s'"
  by (induction lib objs s rule: add_items.induct) (auto dest: store_Add_synced split: option.splits)

lemma store_step_synced: "store_step lib e s = Some s' \<Longrightarrow> so_synced s \<Longrightarrow> so_synced s'"
  by (cases e) (auto simp: store_Update_def store_Replace_def store_Delete_def checkAndApplyThresholds_def
      Let_def split_def dest: store_Add_synced split: option.splits)

lemma store_run_synced: "store_run lib es s = Some s' \<Longrightarrow> so_synced s \<Longrightarrow> so_synced s'"
  by (induction lib es s rule: store_run.induct) (auto dest: store_step_synced split: option.splits)

section \<open>Properties\<close>

text \<open>What the API server promises of a list: the objects of the resource that both selectors select.\<close>

definition lists_selected ::
    "(gvr \<Rightarrow> uobject list) \<Rightarrow> (string \<Rightarrow> uobject \<Rightarrow> bool) \<Rightarrow> (string \<Rightarrow> uobject \<Rightarrow> bool)
      \<Rightarrow> ('x, uobject list, 'w) dynamic_client \<Rightarrow> bool" where
  "lists_selected cluster by_label by_field client \<longleftrightarrow>
     (\<forall>r opts. dc_List client r opts
        = Some (filter (\<lambda>obj. by_label (lo_LabelSelector opts) obj \<and> by_field (lo_FieldSelector opts) obj) (cluster r)))"

text \<open>C8: which objects a store serves. Whatever options the reflector passes, a store built from a
  configuration lists the resource named there under the selectors given there; after the first
  list it holds exactly the selected objects, and after any events of the watch those with the
  added ones and without the deleted ones; it never panics, it is consistent and it is synced.\<close>

theorem store_serves_selected:
  assumes "index_sorter (SortIndices lib)" and "lists_selected cluster by_label by_field client"
    and "chosen = {obj \<in> set (cluster \<lparr>gvr_Group = ss_Group s, gvr_Version = ss_Version s, gvr_Resource = ss_Resource s\<rparr>).
           by_label (sel_Label (ss_Selectors s)) obj \<and> by_field (sel_Field (ss_Selectors s)) obj}"
  shows "\<exists>st. list_and_watch lib (store_reflector client createdAt c s) opts events = Some st
     \<and> fst ` set (so_metrics st) = fold event_uids events (uo_UID ` chosen)
     \<and> store_inv st \<and> IsSynced st"
proof -
  let ?st = "buildStoreFromConfig createdAt c s"
  obtain items where items: "ListFunc (rf_lw (store_reflector client createdAt c s)) opts = Some items"
      "set items = chosen"
    using assms(2) by (auto simp: store_reflector_def startReflector_def buildLW_def buildGVKR_def
        lists_selected_def assms(3) Let_def)
  have rs: "rf_store (store_reflector client createdAt c s) = ?st"
    by (simp add: store_reflector_def startReflector_def Let_def)
  obtain st where st: "store_run lib (EvReplace items # events) ?st = Some st" "store_inv st"
      "fst ` set (so_metrics st) = fold event_uids (EvReplace items # events) (fst ` set (so_metrics ?st))"
    using store_inv_run [OF assms(1) store_inv_built] by blast
  have empty: "so_metrics ?st = []" by (simp add: buildStoreFromConfig_def buildStore_fields(1) Let_def)
  obtain s1 where "store_Replace lib (map Some items) ?st = Some s1" "store_run lib events s1 = Some st"
    using st(1) by (auto split: option.splits)
  moreover from this(1) have "so_synced s1" by (auto simp: store_Replace_def)
  ultimately have "so_synced st" by (blast intro: store_run_synced)
  with items rs st empty show ?thesis by (simp add: list_and_watch_def IsSynced_def)
qed

definition demo_client :: "(unit, uobject list, unit) dynamic_client" where
  "demo_client = \<lparr>dc_List = (\<lambda>r opts. Some (filter (\<lambda>obj. uo_Name obj = lo_FieldSelector opts) [demo_object])),
     dc_Watch = (\<lambda>r opts. Some ())\<rparr>"

theorem store_serves_selected_witness:
  "\<exists>st. list_and_watch (demo_lib GNil) (store_reflector demo_client 0 (demo_configurer []) demo_pod_store)
       \<lparr>lo_LabelSelector = ''a'', lo_FieldSelector = ''b''\<rparr> [EvAdd demo_object] = Some st
     \<and> fst ` set (so_metrics st) = {''u''}"
proof -
  have l: "lists_selected (\<lambda>_. [demo_object]) (\<lambda>_ _. True) (\<lambda>f obj. uo_Name obj = f) demo_client"
    by (simp add: lists_selected_def demo_client_def)
  let ?opts = "\<lparr>lo_LabelSelector = ''a'', lo_FieldSelector = ''b''\<rparr>"
  let ?chosen = "{obj \<in> set [demo_object]. uo_Name obj = sel_Field (ss_Selectors demo_pod_store)}"
  obtain st where st: "list_and_watch (demo_lib GNil) (store_reflector demo_client 0 (demo_configurer []) demo_pod_store)
        ?opts [EvAdd demo_object] = Some st"
      "fst ` set (so_metrics st) = fold event_uids [EvAdd demo_object] (uo_UID ` ?chosen)"
    using store_serves_selected [OF demo_sorter [of GNil] l refl, where s = demo_pod_store
        and createdAt = 0 and c = "demo_configurer []" and events = "[EvAdd demo_object]" and opts = ?opts]
    by auto
  have "uo_UID ` ?chosen \<subseteq> {uo_UID demo_object}" "uo_UID demo_object = ''u''" by (auto simp: demo_object_def)
  with st(2) have "fst ` set (so_metrics st) = {''u''}" by (simp only: fold_simps event_uids.simps id_apply) auto
  with st(1) show ?thesis by blast
qed

end
