(* ===== verification/Interleaving.thy ===== *)
theory Interleaving
  imports Main
begin

text \<open>
  Goroutines as resumptions over a shared state. A program is over or is one atomic action, which
  returns the new state and the rest of the program; what the action read goes into the rest, as
  in a local variable of the code. Programs are written with \<open>act\<close>, whose last argument is the
  statement list that follows. Waiting is left to the schedule: an action
  of a program happens when the schedule names it.
\<close>

datatype 's prog = Done | Atom "'s \<Rightarrow> 's \<times> 's prog"

definition act :: "('s \<Rightarrow> 's \<times> 'a) \<Rightarrow> ('a \<Rightarrow> 's prog) \<Rightarrow> 's prog" where
  "act f k = Atom (\<lambda>s. (fst (f s), k (snd (f s))))"

definition peek :: "('s \<Rightarrow> 'a) \<Rightarrow> ('a \<Rightarrow> 's prog) \<Rightarrow> 's prog" where
  "peek f k = act (\<lambda>s. (s, f s)) k"

definition poke :: "('s \<Rightarrow> 's) \<Rightarrow> 's prog \<Rightarrow> 's prog" where
  "poke f p = act (\<lambda>s. (f s, ())) (\<lambda>_. p)"

section \<open>Running alone\<close>

primrec run :: "'s prog \<Rightarrow> 's \<Rightarrow> 's" where
  "run Done = (\<lambda>s. s)"
| "run (Atom f) = (\<lambda>s. (\<lambda>(s', g). g s') (map_prod id run (f s)))"

lemma run_Atom: "run (Atom f) s = run (snd (f s)) (fst (f s))"
  by (simp add: map_prod_def split_def)

lemma run_act [simp]: "run (act f k) s = run (k (snd (f s))) (fst (f s))"
  by (simp add: act_def run_Atom del: run.simps)

lemma run_peek [simp]: "run (peek f k) s = run (k (f s)) s"
  by (simp add: peek_def)

lemma run_poke [simp]: "run (poke f p) s = run p (f s)"
  by (simp add: poke_def)

declare run.simps(2) [simp del]

text \<open>Running alone up to some point.\<close>

inductive alone :: "'s prog \<Rightarrow> 's \<Rightarrow> 's prog \<Rightarrow> 's \<Rightarrow> bool" where
  here: "alone p s p s"
| further: "alone (snd (f s)) (fst (f s)) q t \<Longrightarrow> alone (Atom f) s q t"

lemma alone_trans: "alone p s q t \<Longrightarrow> alone q t r u \<Longrightarrow> alone p s r u"
  by (induction rule: alone.induct) (auto intro: alone.intros)

lemma alone_act: "alone (k (snd (f s))) (fst (f s)) q t \<Longrightarrow> alone (act f k) s q t"
  unfolding act_def by (rule alone.further) simp

lemma alone_peek: "alone (k (f s)) s q t \<Longrightarrow> alone (peek f k) s q t"
  unfolding peek_def by (rule alone_act) simp

lemma alone_poke: "alone p (f s) q t \<Longrightarrow> alone (poke f p) s q t"
  unfolding poke_def by (rule alone_act) simp

lemma alone_run: "alone p s q t \<Longrightarrow> run p s = run q t"
  by (induction rule: alone.induct) (simp_all add: run_Atom)

lemma run_alone: "alone p s Done (run p s)"
proof (induction p arbitrary: s)
  case (Atom f)
  have "alone (snd (f s)) (fst (f s)) Done (run (snd (f s)) (fst (f s)))"
    by (rule Atom.IH [of "f s"]) (auto simp: prod_set_simps snds.simps)
  then show ?case by (simp add: run_Atom alone.further)
qed (simp add: alone.here)

section \<open>What every action keeps\<close>

inductive safe :: "('s \<Rightarrow> bool) \<Rightarrow> 's prog \<Rightarrow> bool" for I :: "'s \<Rightarrow> bool" where
  over: "safe I Done"
| atom: "(\<And>s. I s \<Longrightarrow> I (fst (f s)) \<and> safe I (snd (f s))) \<Longrightarrow> safe I (Atom f)"

inductive_simps safe_Atom: "safe I (Atom f)"

lemma safe_act: "(\<And>s. I s \<Longrightarrow> I (fst (f s)) \<and> safe I (k (snd (f s)))) \<Longrightarrow> safe I (act f k)"
  unfolding act_def by (rule safe.atom) simp

lemma safe_peek: "(\<And>a. safe I (k a)) \<Longrightarrow> safe I (peek f k)"
  unfolding peek_def by (rule safe_act) simp

lemma safe_poke: "(\<And>s. I s \<Longrightarrow> I (f s)) \<Longrightarrow> safe I p \<Longrightarrow> safe I (poke f p)"
  unfolding poke_def by (rule safe_act) simp

lemma safe_run: "safe I p \<Longrightarrow> I s \<Longrightarrow> I (run p s)"
  by (induction arbitrary: s rule: safe.induct) (simp_all add: run_Atom)

lemma safe_alone: "alone p s q t \<Longrightarrow> safe I p \<Longrightarrow> I s \<Longrightarrow> I t \<and> safe I q"
  by (induction rule: alone.induct) (simp_all add: safe_Atom)

section \<open>Threads\<close>

text \<open>One action of one thread.\<close>

definition thread_step :: "nat \<Rightarrow> 's prog list \<times> 's \<Rightarrow> ('s prog list \<times> 's) option" where
  "thread_step i x =
     (if i < length (fst x)
      then (case fst x ! i of Done \<Rightarrow> None | Atom f \<Rightarrow> Some ((fst x)[i := snd (f (snd x))], fst (f (snd x))))
      else None)"

lemma thread_step_length: "thread_step i (ps, s) = Some (ps', s') \<Longrightarrow> length ps' = length ps"
  by (auto simp: thread_step_def split: if_splits prog.splits)

lemma thread_step_safe:
  assumes "thread_step i (ps, s) = Some (ps', s')" and "\<forall>p \<in> set ps. safe I p" and "I s"
  shows "I s' \<and> (\<forall>p \<in> set ps'. safe I p)"
proof -
  obtain f where f: "i < length ps" "ps ! i = Atom f" "ps' = ps[i := snd (f s)]" "s' = fst (f s)"
    using assms(1) by (auto simp: thread_step_def split: if_splits prog.splits)
  then have "safe I (Atom f)" using assms(2) by (metis nth_mem)
  then have "I (fst (f s)) \<and> safe I (snd (f s))" using assms(3) by (simp add: safe_Atom)
  with assms(2) f show ?thesis by (auto dest: set_update_subset_insert [THEN subsetD])
qed

end
