(* ===== verification/Builder_Pool.thy ===== *)
theory Builder_Pool
  imports Family Interleaving
begin

text \<open>
  The pool of string builders of \<open>internal/family.go\<close>, which the goroutines of all reflectors share.
  A builder is an address; \<open>sync.Pool\<close> hands out any builder it has been given back, or none, as a
  parameter decides. A family text is built as in \<open>Family\<close>, but on pooled builders, and an action is
  one call of the pool, or one read or write of a builder. A goroutine leaves its result, \<open>None\<close>
  for a panic, under its number.
\<close>

section \<open>The pool\<close>

record pool =
  sb_heap :: "string list"
  sb_free :: "nat list"
  sb_out :: "(nat \<times> (string \<times> int64) option) list"

type_synonym pool_pick = "pool \<Rightarrow> nat option"

text \<open>\<open>Get\<close>: a pooled builder, or a new one.\<close>

definition getBuilder :: "pool_pick \<Rightarrow> pool \<Rightarrow> pool \<times> nat" where
  "getBuilder pick s =
     (case pick s of
        Some a \<Rightarrow> if a \<in> set (sb_free s) then (s\<lparr>sb_free := remove1 a (sb_free s)\<rparr>, a)
                  else (s\<lparr>sb_heap := sb_heap s @ [[]]\<rparr>, length (sb_heap s))
      | None \<Rightarrow> (s\<lparr>sb_heap := sb_heap s @ [[]]\<rparr>, length (sb_heap s)))"

text \<open>\<open>Reset\<close> and \<open>Put\<close>.\<close>

definition putBuilder :: "nat \<Rightarrow> pool \<Rightarrow> pool" where
  "putBuilder a s = s\<lparr>sb_heap := (sb_heap s)[a := []], sb_free := a # sb_free s\<rparr>"

definition set_builder :: "nat \<Rightarrow> string \<Rightarrow> pool \<Rightarrow> pool" where
  "set_builder a w s = s\<lparr>sb_heap := (sb_heap s)[a := w]\<rparr>"

definition builder_string :: "nat \<Rightarrow> pool \<Rightarrow> string" where
  "builder_string a s = sb_heap s ! a"

section \<open>Building a family text\<close>

type_synonym goroutine = "pool prog"

definition b_get :: "pool_pick \<Rightarrow> (nat \<Rightarrow> goroutine) \<Rightarrow> goroutine" where
  "b_get pick = act (getBuilder pick)"

definition b_put :: "nat \<Rightarrow> goroutine \<Rightarrow> goroutine" where
  "b_put a = poke (putBuilder a)"

definition b_set :: "nat \<Rightarrow> string \<Rightarrow> goroutine \<Rightarrow> goroutine" where
  "b_set a w = poke (set_builder a w)"

definition b_read :: "nat \<Rightarrow> (string \<Rightarrow> goroutine) \<Rightarrow> goroutine" where
  "b_read a = peek (builder_string a)"

text \<open>One iteration of the loop over the metrics; \<open>k\<close> is the rest, with the count so far, \<open>fail\<close> a panic.\<close>

definition b_metric ::
    "'a metric_lib_scheme \<Rightarrow> pool_pick \<Rightarrow> family \<Rightarrow> uobject \<Rightarrow> nat \<Rightarrow> metric \<Rightarrow> int64
      \<Rightarrow> (int64 \<Rightarrow> goroutine) \<Rightarrow> goroutine \<Rightarrow> goroutine" where
  "b_metric lib pick f raw fam m sampleCount k fail =
     b_get pick (\<lambda>b.
       case family_resolver f (mt_Resolver m) of
         Inl _ \<Rightarrow> b_put b (k sampleCount)
       | Inr r \<Rightarrow>
           (let res = (\<lambda>q. Resolve lib r q (uo_Object raw));
                (keys, vals, ex) = resolveLabels lib (inheritMetricLabels f m) res;
                (resolvedValue, ex) = resolveMetricValue res (mt_Value m) ex
            in case resolvedValue of
                 ValueError \<Rightarrow> b_put b (k sampleCount)
               | ValueSkip \<Rightarrow> b_put b (k sampleCount)
               | ValueOK value \<Rightarrow>
                   b_read b (\<lambda>w.
                     case writeMetricSamplesWithCount lib w (fs_Name f) (family_kind f) raw keys vals ex value of
                       None \<Rightarrow> fail
                     | Some (metricRaw, samples, e) \<Rightarrow>
                         b_set b metricRaw
                           (if e \<noteq> None then b_put b (k sampleCount)
                            else b_read b (\<lambda>text. b_read fam (\<lambda>w.
                              b_set fam (w @ text) (b_put b (k (sampleCount + samples)))))))))"

fun b_metrics ::
    "'a metric_lib_scheme \<Rightarrow> pool_pick \<Rightarrow> family \<Rightarrow> uobject \<Rightarrow> nat \<Rightarrow> metric list \<Rightarrow> int64
      \<Rightarrow> (int64 \<Rightarrow> goroutine) \<Rightarrow> goroutine \<Rightarrow> goroutine" where
  "b_metrics lib pick f raw fam [] sampleCount k fail = k sampleCount"
| "b_metrics lib pick f raw fam (m # ms) sampleCount k fail =
     b_metric lib pick f raw fam m sampleCount (\<lambda>n. b_metrics lib pick f raw fam ms n k fail) fail"

fun b_samples ::
    "'a metric_lib_scheme \<Rightarrow> family \<Rightarrow> uobject \<Rightarrow> nat \<Rightarrow> resolved_sample list \<Rightarrow> int64
      \<Rightarrow> (int64 \<Rightarrow> goroutine) \<Rightarrow> goroutine \<Rightarrow> goroutine" where
  "b_samples lib f raw fam [] sampleCount k fail = k sampleCount"
| "b_samples lib f raw fam (s # ss) sampleCount k fail =
     b_read fam (\<lambda>w. case write_starlark_sample lib f raw s (w, sampleCount) of
         None \<Rightarrow> fail
       | Some (w', n) \<Rightarrow> b_set fam w' (b_samples lib f raw fam ss n k fail))"

text \<open>The deferred return of the family's builder comes after its text was read.\<close>

definition b_family :: "nat \<Rightarrow> int64 \<Rightarrow> ((string \<times> int64) option \<Rightarrow> goroutine) \<Rightarrow> goroutine" where
  "b_family fam sampleCount k = b_read fam (\<lambda>text. b_put fam (k (Some (text, sampleCount))))"

definition b_starlark ::
    "'a metric_lib_scheme \<Rightarrow> pool_pick \<Rightarrow> family \<Rightarrow> starlark_resolver \<Rightarrow> uobject
      \<Rightarrow> ((string \<times> int64) option \<Rightarrow> goroutine) \<Rightarrow> goroutine" where
  "b_starlark lib pick f sr raw k =
     (case starlark_Resolve lib sr (uo_Object raw) of
        Inl _ \<Rightarrow> k (Some ([], 0))
      | Inr families \<Rightarrow>
          if families = [] then k (Some ([], 0))
          else b_get pick (\<lambda>fam.
            b_samples lib f raw fam (concat (map rf_Samples families)) 0 (\<lambda>n. b_family fam n k) (k None)))"

definition b_buildMetricString ::
    "'a metric_lib_scheme \<Rightarrow> pool_pick \<Rightarrow> family \<Rightarrow> uobject
      \<Rightarrow> ((string \<times> int64) option \<Rightarrow> goroutine) \<Rightarrow> goroutine" where
  "b_buildMetricString lib pick f raw k =
     (let finish = (\<lambda>res. k (map_option (\<lambda>(text, n). (if IsCutoff f then [] else text, n)) res))
      in case fm_starlarkResolver f of
           Some sr \<Rightarrow> b_starlark lib pick f sr raw finish
         | None \<Rightarrow> b_get pick (\<lambda>fam.
             b_metrics lib pick f raw fam (fs_Metrics f) 0 (\<lambda>n. b_family fam n finish) (finish None)))"

text \<open>The goroutine with number \<open>i\<close>.\<close>

definition b_goroutine :: "'a metric_lib_scheme \<Rightarrow> pool_pick \<Rightarrow> nat \<Rightarrow> family \<Rightarrow> uobject \<Rightarrow> goroutine" where
  "b_goroutine lib pick i f raw =
     b_buildMetricString lib pick f raw (\<lambda>res. poke (\<lambda>s. s\<lparr>sb_out := (i, res) # sb_out s\<rparr>) Done)"

section \<open>Owning builders\<close>

text \<open>What always holds of the pool: the free builders are there once, and are empty.\<close>

definition pool_ok :: "pool \<Rightarrow> bool" where
  "pool_ok s \<longleftrightarrow> distinct (sb_free s) \<and> (\<forall>a \<in> set (sb_free s). a < length (sb_heap s) \<and> sb_heap s ! a = [])"

text \<open>A goroutine owns the builders \<open>A\<close>, with the contents \<open>c\<close>.\<close>

definition owns :: "nat set \<Rightarrow> (nat \<Rightarrow> string) \<Rightarrow> pool \<Rightarrow> bool" where
  "owns A c s \<longleftrightarrow> (\<forall>a \<in> A. a < length (sb_heap s) \<and> a \<notin> set (sb_free s) \<and> sb_heap s ! a = c a)"

text \<open>What an action of a goroutine with the builders \<open>A\<close> does to the builders of the others.\<close>

definition spares :: "nat set \<Rightarrow> pool \<Rightarrow> nat set \<Rightarrow> pool \<Rightarrow> bool" where
  "spares A s A' s' \<longleftrightarrow>
     (\<forall>a. a < length (sb_heap s) \<and> a \<notin> set (sb_free s) \<and> a \<notin> A
        \<longrightarrow> a < length (sb_heap s') \<and> a \<notin> set (sb_free s') \<and> a \<notin> A' \<and> sb_heap s' ! a = sb_heap s ! a)"

text \<open>A goroutine with number \<open>i\<close> that is to leave \<open>r\<close>, and has left it when it is over.\<close>

inductive leaves ::
    "nat \<Rightarrow> (string \<times> int64) option \<Rightarrow> bool \<Rightarrow> nat set \<Rightarrow> (nat \<Rightarrow> string) \<Rightarrow> goroutine \<Rightarrow> bool"
  for i :: nat and r :: "(string \<times> int64) option" where
  over: "leaves i r True A c Done"
| atom: "(\<And>s. pool_ok s \<Longrightarrow> owns A c s \<Longrightarrow>
      \<exists>A' c' left'. pool_ok (fst (f s)) \<and> owns A' c' (fst (f s)) \<and> spares A s A' (fst (f s))
        \<and> sb_out (fst (f s)) = (if left' = left then sb_out s else (i, r) # sb_out s)
        \<and> (left \<longrightarrow> left') \<and> leaves i r left' A' c' (snd (f s)))
    \<Longrightarrow> leaves i r left A c (Atom f)"

inductive_simps leaves_Atom: "leaves i r left A c (Atom f)"
inductive_simps leaves_Done: "leaves i r left A c Done"

lemma leaves_act:
  assumes "\<And>s. pool_ok s \<Longrightarrow> owns A c s \<Longrightarrow>
      \<exists>A' c' left'. pool_ok (fst (f s)) \<and> owns A' c' (fst (f s)) \<and> spares A s A' (fst (f s))
        \<and> sb_out (fst (f s)) = (if left' = left then sb_out s else (i, r) # sb_out s)
        \<and> (left \<longrightarrow> left') \<and> leaves i r left' A' c' (k (snd (f s)))"
  shows "leaves i r left A c (act f k)"
  unfolding act_def using assms by (intro leaves.atom) simp

lemma getBuilder_cases:
  "(\<exists>a \<in> set (sb_free s). getBuilder pick s = (s\<lparr>sb_free := remove1 a (sb_free s)\<rparr>, a))
   \<or> getBuilder pick s = (s\<lparr>sb_heap := sb_heap s @ [[]]\<rparr>, length (sb_heap s))"
  by (auto simp: getBuilder_def split: option.split)

lemma leaves_get:
  assumes "\<And>a. a \<notin> A \<Longrightarrow> leaves i r left (insert a A) (c(a := [])) (k a)"
  shows "leaves i r left A c (b_get pick k)"
  unfolding b_get_def
proof (rule leaves_act)
  fix s
  assume ok: "pool_ok s" and own: "owns A c s"
  define g where "g = getBuilder pick s"
  consider (pooled) "snd g \<in> set (sb_free s)" "fst g = s\<lparr>sb_free := remove1 (snd g) (sb_free s)\<rparr>"
    | (new) "snd g = length (sb_heap s)" "fst g = s\<lparr>sb_heap := sb_heap s @ [[]]\<rparr>"
    using getBuilder_cases [of s pick] by (auto simp: g_def)
  then have "snd g \<notin> A \<and> pool_ok (fst g) \<and> owns (insert (snd g) A) (c(snd g := [])) (fst g)
      \<and> spares A s (insert (snd g) A) (fst g) \<and> sb_out (fst g) = sb_out s"
  proof cases
    case pooled
    with ok own show ?thesis by (auto simp: pool_ok_def owns_def spares_def)
  next
    case new
    with ok own show ?thesis by (fastforce simp: pool_ok_def owns_def spares_def nth_append)
  qed
  with assms show "\<exists>A' c' left'. pool_ok (fst g) \<and> owns A' c' (fst g) \<and> spares A s A' (fst g)
      \<and> sb_out (fst g) = (if left' = left then sb_out s else (i, r) # sb_out s)
      \<and> (left \<longrightarrow> left') \<and> leaves i r left' A' c' (k (snd g))"
    by (intro exI [of _ "insert (snd g) A"] exI [of _ "c(snd g := [])"] exI [of _ left]) simp
qed

lemma leaves_poke:
  assumes "\<And>s. pool_ok s \<Longrightarrow> owns A c s \<Longrightarrow> pool_ok (f s) \<and> owns A' c' (f s) \<and> spares A s A' (f s) \<and> sb_out (f s) = sb_out s"
    and "leaves i r left A' c' p"
  shows "leaves i r left A c (poke f p)"
  unfolding poke_def using assms
  by (intro leaves_act exI [of _ A'] exI [of _ c'] exI [of _ left]) simp

lemma leaves_put: "a \<in> A \<Longrightarrow> leaves i r left (A - {a}) c p \<Longrightarrow> leaves i r left A c (b_put a p)"
  unfolding b_put_def
  by (rule leaves_poke) (auto simp: pool_ok_def owns_def spares_def putBuilder_def nth_list_update)

lemma leaves_set: "a \<in> A \<Longrightarrow> leaves i r left A (c(a := w)) p \<Longrightarrow> leaves i r left A c (b_set a w p)"
  unfolding b_set_def
  by (rule leaves_poke) (auto simp: pool_ok_def owns_def spares_def set_builder_def nth_list_update)

lemma leaves_read: "a \<in> A \<Longrightarrow> leaves i r left A c (k (c a)) \<Longrightarrow> leaves i r left A c (b_read a k)"
  unfolding b_read_def peek_def
  by (intro leaves_act exI [of _ A] exI [of _ c] exI [of _ left])
    (auto simp: owns_def spares_def builder_string_def)

lemma leaves_out: "leaves i r False A c (poke (\<lambda>s. s\<lparr>sb_out := (i, r) # sb_out s\<rparr>) Done)"
  unfolding poke_def
  by (intro leaves_act exI [of _ A] exI [of _ c] exI [of _ True])
    (simp add: owns_def spares_def pool_ok_def leaves.over)

section \<open>What a goroutine leaves\<close>

lemma leaves_metric:
  assumes "\<And>c' w n'. build_metric lib f raw m (c fam, n) = Some (w, n') \<Longrightarrow> c' fam = w \<Longrightarrow> leaves i r left {fam} c' (k n')"
    and "\<And>A c'. build_metric lib f raw m (c fam, n) = None \<Longrightarrow> leaves i r left A c' fail"
  shows "leaves i r left {fam} c (b_metric lib pick f raw fam m n k fail)"
  unfolding b_metric_def
proof (rule leaves_get)
  fix b
  assume "b \<notin> {fam}"
  then have b: "b \<noteq> fam" "{b, fam} - {b} = {fam}" by auto
  have skip: "leaves i r left {b, fam} c' (b_put b (k n))"
    if "build_metric lib f raw m (c fam, n) = Some (c fam, n)" "c' fam = c fam" for c'
    using assms(1) [where c' = c', OF that(1)] that(2) by (intro leaves_put) (simp_all add: b)
  show "leaves i r left {b, fam} (c(b := []))
      (case family_resolver f (mt_Resolver m) of
         Inl _ \<Rightarrow> b_put b (k n)
       | Inr r \<Rightarrow>
           (let res = (\<lambda>q. Resolve lib r q (uo_Object raw));
                (keys, vals, ex) = resolveLabels lib (inheritMetricLabels f m) res;
                (resolvedValue, ex) = resolveMetricValue res (mt_Value m) ex
            in case resolvedValue of
                 ValueError \<Rightarrow> b_put b (k n)
               | ValueSkip \<Rightarrow> b_put b (k n)
               | ValueOK value \<Rightarrow>
                   b_read b (\<lambda>w.
                     case writeMetricSamplesWithCount lib w (fs_Name f) (family_kind f) raw keys vals ex value of
                       None \<Rightarrow> fail
                     | Some (metricRaw, samples, e) \<Rightarrow>
                         b_set b metricRaw
                           (if e \<noteq> None then b_put b (k n)
                            else b_read b (\<lambda>text. b_read fam (\<lambda>w.
                              b_set fam (w @ text) (b_put b (k (n + samples)))))))))"
  proof (cases "family_resolver f (mt_Resolver m)")
    case (Inl e)
    with skip b show ?thesis by (simp add: build_metric_def)
  next
    case (Inr res)
    let ?res = "\<lambda>q. Resolve lib res q (uo_Object raw)"
    obtain ks vs ex where l: "resolveLabels lib (inheritMetricLabels f m) ?res = (ks, vs, ex)"
      by (cases "resolveLabels lib (inheritMetricLabels f m) ?res") auto
    obtain rv ex1 where v: "resolveMetricValue ?res (mt_Value m) ex = (rv, ex1)" by fastforce
    show ?thesis
    proof (cases rv)
      case (ValueOK val)
      let ?wr = "writeMetricSamplesWithCount lib [] (fs_Name f) (family_kind f) raw ks vs ex1 val"
      show ?thesis
      proof (cases ?wr)
        case None
        then have "build_metric lib f raw m (c fam, n) = None" by (simp add: build_metric_def Inr l v ValueOK)
        from assms(2) [OF this] None b show ?thesis
          by (auto simp: Inr l v ValueOK intro!: leaves_read)
      next
        case (Some out)
        obtain tx samples e where out: "?wr = Some (tx, samples, e)" using Some by (cases out) auto
        show ?thesis
        proof (cases "e = None")
          case True
          then have bm: "build_metric lib f raw m (c fam, n) = Some (c fam @ tx, n + samples)"
            by (simp add: build_metric_def Inr l v ValueOK out)
          have "leaves i r left {fam} c' (k (n + samples))" if "c' fam = c fam @ tx" for c'
            using assms(1) [OF bm] that by simp
          with b out True show ?thesis
            by (auto simp: Inr l v ValueOK intro!: leaves_read leaves_set leaves_put)
        next
          case False
          then have "build_metric lib f raw m (c fam, n) = Some (c fam, n)"
            by (simp add: build_metric_def Inr l v ValueOK out)
          from skip [OF this] b out False show ?thesis
            by (auto simp: Inr l v ValueOK intro!: leaves_read leaves_set)
        qed
      qed
    qed (use skip b in \<open>simp_all add: build_metric_def Inr l v\<close>)
  qed
qed

lemma leaves_metrics:
  assumes "\<And>c' w n'. build_metrics lib f raw ms (c fam, n) = Some (w, n') \<Longrightarrow> c' fam = w \<Longrightarrow> leaves i r left {fam} c' (k n')"
    and "\<And>A c'. build_metrics lib f raw ms (c fam, n) = None \<Longrightarrow> leaves i r left A c' fail"
  shows "leaves i r left {fam} c (b_metrics lib pick f raw fam ms n k fail)"
  using assms
proof (induction ms arbitrary: c n)
  case Nil
  then show ?case by simp
next
  case (Cons m ms)
  show ?case
    unfolding b_metrics.simps
  proof (rule leaves_metric)
    fix c' w n'
    assume one: "build_metric lib f raw m (c fam, n) = Some (w, n')" "c' fam = w"
    show "leaves i r left {fam} c' (b_metrics lib pick f raw fam ms n' k fail)"
      using Cons.prems one by (intro Cons.IH) simp_all
  next
    fix A c'
    assume "build_metric lib f raw m (c fam, n) = None"
    with Cons.prems(2) show "leaves i r left A c' fail" by simp
  qed
qed

lemma leaves_samples:
  assumes "\<And>c' w n'. write_starlark_samples lib f raw ss (c fam, n) = Some (w, n') \<Longrightarrow> c' fam = w \<Longrightarrow> leaves i r left {fam} c' (k n')"
    and "\<And>A c'. write_starlark_samples lib f raw ss (c fam, n) = None \<Longrightarrow> leaves i r left A c' fail"
  shows "leaves i r left {fam} c (b_samples lib f raw fam ss n k fail)"
  using assms
proof (induction ss arbitrary: c n)
  case Nil
  then show ?case by simp
next
  case (Cons s ss)
  show ?case
  proof (cases "write_starlark_sample lib f raw s (c fam, n)")
    case None
    with Cons.prems(2) show ?thesis by (auto intro!: leaves_read)
  next
    case (Some wn)
    then obtain w n' where one: "write_starlark_sample lib f raw s (c fam, n) = Some (w, n')" by (cases wn) auto
    have "leaves i r left {fam} (c(fam := w)) (b_samples lib f raw fam ss n' k fail)"
      using Cons.prems one by (intro Cons.IH) simp_all
    with one show ?thesis by (auto intro!: leaves_read leaves_set)
  qed
qed

lemma leaves_family:
  "(\<And>A c'. leaves i r left A c' (k (Some (c fam, n)))) \<Longrightarrow> leaves i r left {fam} c (b_family fam n k)"
  unfolding b_family_def by (intro leaves_read leaves_put) simp_all

text \<open>Whatever builders it is given, a goroutine leaves the text of \<open>Family\<close>.\<close>

lemma leaves_build:
  assumes "\<And>A c. leaves i r left A c (k (buildMetricString lib f raw))"
  shows "leaves i r left {} c (b_buildMetricString lib pick f raw k)"
proof (cases "fm_starlarkResolver f")
  case None
  let ?fin = "\<lambda>res. k (map_option (\<lambda>(text, n). (if IsCutoff f then [] else text, n)) res)"
  have "leaves i r left {fam} (c(fam := [])) (b_metrics lib pick f raw fam (fs_Metrics f) 0
      (\<lambda>n. b_family fam n ?fin) (?fin None))" for fam
    using assms by (intro leaves_metrics leaves_family) (auto simp: buildMetricString_def None)
  then show ?thesis by (simp add: b_buildMetricString_def None Let_def leaves_get)
next
  case (Some sr)
  let ?fin = "\<lambda>res. k (map_option (\<lambda>(text, n). (if IsCutoff f then [] else text, n)) res)"
  have "leaves i r left {} c (b_starlark lib pick f sr raw ?fin)"
  proof (cases "starlark_Resolve lib sr (uo_Object raw)")
    case (Inl e)
    then show ?thesis using assms
      by (simp add: b_starlark_def buildMetricString_def Some buildMetricStringFromStarlark_def)
  next
    case (Inr families)
    show ?thesis
    proof (cases "families = []")
      case True
      then show ?thesis using assms Inr
        by (simp add: b_starlark_def buildMetricString_def Some buildMetricStringFromStarlark_def)
    next
      case False
      have "leaves i r left {fam} (c(fam := [])) (b_samples lib f raw fam (concat (map rf_Samples families)) 0
          (\<lambda>n. b_family fam n ?fin) (?fin None))" for fam
        using assms False Inr
        by (intro leaves_samples leaves_family) (auto simp: buildMetricString_def Some buildMetricStringFromStarlark_def)
      with False Inr show ?thesis by (simp add: b_starlark_def leaves_get)
    qed
  qed
  then show ?thesis by (simp add: b_buildMetricString_def Some Let_def)
qed

lemma leaves_goroutine:
  "leaves i (buildMetricString lib f raw) False {} c (b_goroutine lib pick i f raw)"
  unfolding b_goroutine_def by (intro leaves_build leaves_out)

section \<open>All goroutines\<close>

type_synonym job = "pool_pick \<times> family \<times> uobject"

definition job_result :: "'a metric_lib_scheme \<Rightarrow> job \<Rightarrow> (string \<times> int64) option" where
  "job_result lib = (\<lambda>(_, f, raw). buildMetricString lib f raw)"

definition empty_pool :: pool where
  "empty_pool = \<lparr>sb_heap = [], sb_free = [], sb_out = []\<rparr>"

inductive pool_reachable :: "'a metric_lib_scheme \<Rightarrow> job list \<Rightarrow> goroutine list \<times> pool \<Rightarrow> bool"
  for lib :: "'a metric_lib_scheme" and jobs :: "job list" where
  start: "pool_reachable lib jobs
    (map (\<lambda>i. case jobs ! i of (pick, f, raw) \<Rightarrow> b_goroutine lib pick i f raw) [0..<length jobs], empty_pool)"
| step: "pool_reachable lib jobs x \<Longrightarrow> thread_step i x = Some y \<Longrightarrow> pool_reachable lib jobs y"

text \<open>Every goroutine owns its builders, and no two own the same.\<close>

definition holding ::
    "'a metric_lib_scheme \<Rightarrow> job list \<Rightarrow> (nat \<Rightarrow> nat set) \<Rightarrow> (nat \<Rightarrow> nat \<Rightarrow> string) \<Rightarrow> (nat \<Rightarrow> bool)
      \<Rightarrow> goroutine list \<Rightarrow> pool \<Rightarrow> bool" where
  "holding lib jobs A c left ps s \<longleftrightarrow>
     (\<forall>i < length jobs. owns (A i) (c i) s
         \<and> leaves i (job_result lib (jobs ! i)) (left i) (A i) (c i) (ps ! i)
         \<and> (left i \<longrightarrow> (i, job_result lib (jobs ! i)) \<in> set (sb_out s)))
     \<and> (\<forall>i < length jobs. \<forall>j < length jobs. i \<noteq> j \<longrightarrow> A i \<inter> A j = {})"

definition shares_nothing :: "'a metric_lib_scheme \<Rightarrow> job list \<Rightarrow> goroutine list \<times> pool \<Rightarrow> bool" where
  "shares_nothing lib jobs = (\<lambda>(ps, s). pool_ok s \<and> length ps = length jobs
     \<and> (\<forall>(i, r) \<in> set (sb_out s). i < length jobs \<and> r = job_result lib (jobs ! i))
     \<and> (\<exists>A c left. holding lib jobs A c left ps s))"

lemma shares_nothing_step:
  assumes "shares_nothing lib jobs (ps, s)" and "thread_step i (ps, s) = Some (ps', s')"
  shows "shares_nothing lib jobs (ps', s')"
proof -
  obtain f where f: "i < length ps" "ps ! i = Atom f" "ps' = ps[i := snd (f s)]" "s' = fst (f s)"
    using assms(2) by (auto simp: thread_step_def split: if_splits prog.splits)
  obtain A c left where ok: "pool_ok s" "length ps = length jobs"
    and outs: "\<forall>(i, r) \<in> set (sb_out s). i < length jobs \<and> r = job_result lib (jobs ! i)"
    and h: "holding lib jobs A c left ps s"
    using assms(1) unfolding shares_nothing_def prod.case by blast
  have own: "\<And>i. i < length jobs \<Longrightarrow> owns (A i) (c i) s
            \<and> leaves i (job_result lib (jobs ! i)) (left i) (A i) (c i) (ps ! i)
            \<and> (left i \<longrightarrow> (i, job_result lib (jobs ! i)) \<in> set (sb_out s))"
    and dis: "\<And>i j. i < length jobs \<Longrightarrow> j < length jobs \<Longrightarrow> i \<noteq> j \<Longrightarrow> A i \<inter> A j = {}"
    using h by (simp_all add: holding_def)
  let ?r = "job_result lib (jobs ! i)"
  have i: "i < length jobs" using f(1) ok(2) by simp
  then obtain A' c' left' where s': "pool_ok s'" "owns A' c' s'" "spares (A i) s A' s'"
      "sb_out s' = (if left' = left i then sb_out s else (i, ?r) # sb_out s)"
      "left i \<longrightarrow> left'" "leaves i ?r left' A' c' (snd (f s))"
    using own [OF i] ok(1) unfolding f(2) leaves_Atom f(4) by blast
  define A2 where "A2 = A(i := A')"
  define c2 where "c2 = c(i := c')"
  define left2 where "left2 = left(i := left')"
  have kept: "owns (A j) (c j) s' \<and> A j \<inter> A' = {}" if "j < length jobs" "j \<noteq> i" for j
  proof -
    have "a < length (sb_heap s') \<and> a \<notin> set (sb_free s') \<and> a \<notin> A' \<and> sb_heap s' ! a = c j a" if a: "a \<in> A j" for a
      using s'(3) own [OF \<open>j < length jobs\<close>] dis [OF \<open>j < length jobs\<close> i] \<open>j \<noteq> i\<close> a
      by (auto simp: spares_def owns_def)
    then show ?thesis by (auto simp: owns_def)
  qed
  have more: "set (sb_out s) \<subseteq> set (sb_out s')" "left' \<longrightarrow> (i, ?r) \<in> set (sb_out s')"
    using s'(4,5) own [OF i] by auto
  have held: "owns (A2 j) (c2 j) s' \<and> leaves j (job_result lib (jobs ! j)) (left2 j) (A2 j) (c2 j) (ps' ! j)
      \<and> (left2 j \<longrightarrow> (j, job_result lib (jobs ! j)) \<in> set (sb_out s'))" if "j < length jobs" for j
    using own [OF that] kept [OF that] more s'(2,6) f(1,3) that
    by (cases "j = i") (auto simp: A2_def c2_def left2_def)
  have apart: "A2 j \<inter> A2 j' = {}" if "j < length jobs" "j' < length jobs" "j \<noteq> j'" for j j'
    using dis [OF that] kept that by (auto simp: A2_def)
  have "holding lib jobs A2 c2 left2 ps' s'" using held apart by (simp add: holding_def)
  moreover have "\<forall>(j, r) \<in> set (sb_out s'). j < length jobs \<and> r = job_result lib (jobs ! j)"
    using outs s'(4) i by auto
  moreover have "length ps' = length jobs" using f(3) ok(2) by simp
  ultimately show ?thesis using s'(1) unfolding shares_nothing_def prod.case by blast
qed

lemma shares_nothing_reachable: "pool_reachable lib jobs x \<Longrightarrow> shares_nothing lib jobs x"
proof (induction rule: pool_reachable.induct)
  case start
  have "leaves i (job_result lib (jobs ! i)) False {} c (case jobs ! i of (pick, f, raw) \<Rightarrow> b_goroutine lib pick i f raw)"
    for i c by (cases "jobs ! i") (simp add: job_result_def leaves_goroutine)
  then have "holding lib jobs (\<lambda>_. {}) (\<lambda>_ _. []) (\<lambda>_. False)
      (map (\<lambda>i. case jobs ! i of (pick, f, raw) \<Rightarrow> b_goroutine lib pick i f raw) [0..<length jobs]) empty_pool"
    by (simp add: holding_def owns_def)
  moreover have "pool_ok empty_pool" "sb_out empty_pool = []" by (simp_all add: empty_pool_def pool_ok_def)
  ultimately show ?case unfolding shares_nothing_def prod.case by auto
next
  case (step x i y)
  then show ?case using shares_nothing_step [of lib jobs "fst x" "snd x" i "fst y" "snd y"] by simp
qed

text \<open>One goroutine can run to its end.\<close>

lemma pool_alone:
  assumes "alone p s q t" and "pool_reachable lib jobs (ps, s)" and "i < length ps" and "ps ! i = p"
  shows "pool_reachable lib jobs (ps[i := q], t)"
  using assms
proof (induction arbitrary: ps rule: alone.induct)
  case (here p s)
  then show ?case using list_update_id [of ps i] by simp
next
  case (further f s q t)
  have "thread_step i (ps, s) = Some (ps[i := snd (f s)], fst (f s))" using further.prems by (simp add: thread_step_def)
  from further.IH [OF pool_reachable.step [OF further.prems(1) this]] further.prems show ?case by simp
qed

section \<open>Properties\<close>

text \<open>C20: pooling builders changes no text. However the goroutines of the reflectors interleave at the
  pool and at the builders, and whichever builder the pool hands out, every result a goroutine
  has left is the text and the count that \<open>buildMetricString\<close> computes with builders of its own,
  and a goroutine that is over has left one: a builder that is given back is emptied, and none is
  ever with two goroutines.\<close>

theorem pooled_texts:
  assumes "pool_reachable lib jobs (ps, s)"
  shows "(\<forall>(i, r) \<in> set (sb_out s). i < length jobs \<and> r = job_result lib (jobs ! i))
     \<and> (\<forall>i < length jobs. ps ! i = Done \<longrightarrow> (i, job_result lib (jobs ! i)) \<in> set (sb_out s))"
proof -
  have inv: "shares_nothing lib jobs (ps, s)" using assms by (rule shares_nothing_reachable)
  then obtain A c left where h: "holding lib jobs A c left ps s" unfolding shares_nothing_def prod.case by blast
  have "(i, job_result lib (jobs ! i)) \<in> set (sb_out s)" if i: "i < length jobs" and over: "ps ! i = Done" for i
  proof -
    have "leaves i (job_result lib (jobs ! i)) (left i) (A i) (c i) Done"
      using h i over by (metis holding_def)
    then show ?thesis using h i by (simp add: holding_def leaves_Done)
  qed
  with inv show ?thesis by (auto simp: shares_nothing_def)
qed

text \<open>Two reflectors with the same family, the first of which is done.\<close>

theorem pooled_texts_witness:
  "\<exists>ps s. pool_reachable (demo_lib (GInt 1)) (replicate 2 (\<lambda>s. Some 0, demo_family ''m'' [] [], demo_object)) (ps, s)
     \<and> ps ! 0 = Done \<and> (0, buildMetricString (demo_lib (GInt 1)) (demo_family ''m'' [] []) demo_object) \<in> set (sb_out s)"
proof -
  let ?lib = "demo_lib (GInt 1)"
  let ?job = "(\<lambda>s. Some 0, demo_family ''m'' [] [], demo_object) :: job"
  let ?jobs = "replicate 2 ?job"
  let ?ps = "map (\<lambda>i. case ?jobs ! i of (pick, f, raw) \<Rightarrow> b_goroutine ?lib pick i f raw) [0..<length ?jobs]"
  have start: "pool_reachable ?lib ?jobs (?ps, empty_pool)" by (rule pool_reachable.start)
  have reach: "pool_reachable ?lib ?jobs (?ps[0 := Done], run (?ps ! 0) empty_pool)"
    by (rule pool_alone [OF run_alone start]) simp_all
  have zero: "0 < length ?jobs" "?ps[0 := Done] ! 0 = Done" by simp_all
  have "(0, job_result ?lib (?jobs ! 0)) \<in> set (sb_out (run (?ps ! 0) empty_pool))"
    using pooled_texts [OF reach] zero by blast
  then have out: "(0, buildMetricString ?lib (demo_family ''m'' [] []) demo_object) \<in> set (sb_out (run (?ps ! 0) empty_pool))"
    by (simp add: job_result_def)
  show ?thesis by (rule exI, rule exI, rule conjI [OF reach conjI [OF zero(2) out]])
qed

end
