(* ===== verification/Go_Slice.thy ===== *)
theory Go_Slice
  imports Interleaving
begin

text \<open>
  Go slices with their backing arrays, for goroutines that share them. An array has its capacity
  as length; a slice is an array, a length and a capacity, and starts at the beginning of its
  array, as all slices of the program do. \<open>append\<close> writes behind the length while the capacity
  lasts and else copies to a new array with some slack; elements are read and written one by one.
  What a goroutine computes it leaves under its number.
\<close>

record slice =
  sl_array :: nat
  sl_len :: nat
  sl_cap :: nat

record 'a memory =
  mm_arrays :: "'a list list"
  mm_out :: "(nat \<times> 'a list) list"

definition slice_list :: "'a list list \<Rightarrow> slice \<Rightarrow> 'a list" where
  "slice_list h s = take (sl_len s) (h ! sl_array s)"

definition slice_ok :: "'a list list \<Rightarrow> slice \<Rightarrow> bool" where
  "slice_ok h s \<longleftrightarrow> sl_array s < length h \<and> sl_cap s = length (h ! sl_array s) \<and> sl_len s \<le> sl_cap s"

section \<open>Programs\<close>

definition read_elem :: "nat \<Rightarrow> nat \<Rightarrow> 'a memory \<Rightarrow> 'a" where
  "read_elem a j s = mm_arrays s ! a ! j"

definition write_elem :: "nat \<Rightarrow> nat \<Rightarrow> 'a \<Rightarrow> 'a memory \<Rightarrow> 'a memory" where
  "write_elem a j x s = s\<lparr>mm_arrays := (mm_arrays s)[a := (mm_arrays s ! a)[j := x]]\<rparr>"

text \<open>A new array with the elements of the slice, room for \<open>n\<close> more, and slack.\<close>

definition grow_slice :: "'a \<Rightarrow> nat \<Rightarrow> slice \<Rightarrow> nat \<Rightarrow> 'a memory \<Rightarrow> 'a memory \<times> slice" where
  "grow_slice z slack d n s =
     (s\<lparr>mm_arrays := mm_arrays s @ [slice_list (mm_arrays s) d @ replicate (n + slack) z]\<rparr>,
      \<lparr>sl_array = length (mm_arrays s), sl_len = sl_len d, sl_cap = sl_len d + n + slack\<rparr>)"

fun copy_elems :: "nat \<Rightarrow> nat \<Rightarrow> nat \<Rightarrow> nat list \<Rightarrow> 'a memory prog \<Rightarrow> 'a memory prog" where
  "copy_elems a n b [] p = p"
| "copy_elems a n b (j # js) p =
     peek (read_elem b j) (\<lambda>x. poke (write_elem a (n + j) x) (copy_elems a n b js p))"

definition append_slice :: "'a \<Rightarrow> nat \<Rightarrow> slice \<Rightarrow> slice \<Rightarrow> (slice \<Rightarrow> 'a memory prog) \<Rightarrow> 'a memory prog" where
  "append_slice z slack d src k =
     (if sl_len d + sl_len src \<le> sl_cap d
      then copy_elems (sl_array d) (sl_len d) (sl_array src) [0..<sl_len src]
             (k (d\<lparr>sl_len := sl_len d + sl_len src\<rparr>))
      else act (grow_slice z slack d (sl_len src)) (\<lambda>d'.
             copy_elems (sl_array d') (sl_len d') (sl_array src) [0..<sl_len src]
               (k (d'\<lparr>sl_len := sl_len d' + sl_len src\<rparr>))))"

fun read_elems :: "nat \<Rightarrow> nat list \<Rightarrow> 'a list \<Rightarrow> ('a list \<Rightarrow> 'a memory prog) \<Rightarrow> 'a memory prog" where
  "read_elems a [] xs k = k xs"
| "read_elems a (j # js) xs k = peek (read_elem a j) (\<lambda>x. read_elems a js (xs @ [x]) k)"

definition read_slice :: "slice \<Rightarrow> ('a list \<Rightarrow> 'a memory prog) \<Rightarrow> 'a memory prog" where
  "read_slice s k = read_elems (sl_array s) [0..<sl_len s] [] k"

definition leave :: "nat \<Rightarrow> 'a list \<Rightarrow> 'a memory prog \<Rightarrow> 'a memory prog" where
  "leave i xs p = poke (\<lambda>s. s\<lparr>mm_out := mm_out s @ [(i, xs)]\<rparr>) p"

section \<open>Arrays that all writers agree on\<close>

text \<open>
  Every array \<open>a\<close> has a sequence \<open>\<Gamma> ! a\<close>: whoever writes position \<open>i\<close> writes its \<open>i\<close>-th element. A
  goroutine knows of some arrays the capacity and a prefix that is in place. What it knows stays
  true whatever the others do.
\<close>

type_synonym 'a knowledge = "(nat \<times> nat \<times> nat \<times> (nat \<Rightarrow> 'a)) set"

definition known :: "(nat \<Rightarrow> 'a) list \<Rightarrow> 'a knowledge \<Rightarrow> 'a list list \<Rightarrow> bool" where
  "known \<Gamma> K h \<longleftrightarrow> length \<Gamma> = length h \<and> (\<forall>(a, n, c, g) \<in> K.
     a < length h \<and> \<Gamma> ! a = g \<and> length (h ! a) = c \<and> n \<le> c \<and> (\<forall>i < n. h ! a ! i = g i))"

definition evolves :: "(nat \<Rightarrow> 'a) list \<Rightarrow> 'a list list \<Rightarrow> (nat \<Rightarrow> 'a) list \<Rightarrow> 'a list list \<Rightarrow> bool" where
  "evolves \<Gamma> h \<Gamma>' h' \<longleftrightarrow> (\<exists>more. \<Gamma>' = \<Gamma> @ more) \<and> length \<Gamma>' = length h' \<and> (\<forall>a < length h.
     length (h' ! a) = length (h ! a) \<and> (\<forall>i < length (h ! a). h' ! a ! i = h ! a ! i \<or> h' ! a ! i = (\<Gamma> ! a) i))"

lemma known_evolves:
  assumes "known \<Gamma> K h" and "evolves \<Gamma> h \<Gamma>' h'"
  shows "known \<Gamma>' K h'"
proof -
  obtain more where more: "\<Gamma>' = \<Gamma> @ more" "length \<Gamma>' = length h'" using assms(2) by (auto simp: evolves_def)
  have "a < length h' \<and> \<Gamma>' ! a = g \<and> length (h' ! a) = c \<and> n \<le> c \<and> (\<forall>i < n. h' ! a ! i = g i)"
    if "(a, n, c, g) \<in> K" for a n c g
  proof -
    have k: "a < length h" "\<Gamma> ! a = g" "length (h ! a) = c" "n \<le> c" "\<forall>i < n. h ! a ! i = g i" "length \<Gamma> = length h"
      using assms(1) that by (auto simp: known_def)
    have e: "length (h' ! a) = length (h ! a)" "\<forall>i < length (h ! a). h' ! a ! i = h ! a ! i \<or> h' ! a ! i = (\<Gamma> ! a) i"
      using assms(2) k(1) unfolding evolves_def by blast+
    have "length h \<le> length h'" using more k(6) by simp
    moreover have "h' ! a ! i = g i" if "i < n" for i
      using e(2) k that by (metis order_less_le_trans)
    moreover have "\<Gamma>' ! a = g" using k more by (simp add: nth_append)
    ultimately show ?thesis using e(1) k by simp
  qed
  with more(2) show ?thesis by (auto simp: known_def)
qed

text \<open>A goroutine with number \<open>i\<close> that still leaves the lists \<open>R\<close>, one after the other.\<close>

inductive agrees :: "nat \<Rightarrow> 'a list list \<Rightarrow> 'a knowledge \<Rightarrow> 'a memory prog \<Rightarrow> bool" for i :: nat where
  over: "agrees i [] K Done"
| atom: "(\<And>\<Gamma> s. known \<Gamma> K (mm_arrays s) \<Longrightarrow>
      \<exists>\<Gamma>' K' R' xs. evolves \<Gamma> (mm_arrays s) \<Gamma>' (mm_arrays (fst (f s))) \<and> known \<Gamma>' K' (mm_arrays (fst (f s)))
        \<and> R = xs @ R' \<and> mm_out (fst (f s)) = mm_out s @ map (Pair i) xs \<and> agrees i R' K' (snd (f s)))
    \<Longrightarrow> agrees i R K (Atom f)"

inductive_simps agrees_Atom: "agrees i R K (Atom f)"
inductive_simps agrees_Done: "agrees i R K Done"

lemma agrees_act:
  fixes f :: "'a memory \<Rightarrow> 'a memory \<times> 'b"
  assumes "\<And>\<Gamma> s. known \<Gamma> K (mm_arrays s) \<Longrightarrow>
      \<exists>\<Gamma>' K'. evolves \<Gamma> (mm_arrays s) \<Gamma>' (mm_arrays (fst (f s))) \<and> known \<Gamma>' K' (mm_arrays (fst (f s)))
        \<and> mm_out (fst (f s)) = mm_out s \<and> agrees i R K' (k (snd (f s)))"
  shows "agrees i R K (act f k)"
  unfolding act_def
proof (rule agrees.atom)
  fix \<Gamma> :: "(nat \<Rightarrow> 'a) list" and s :: "'a memory"
  assume "known \<Gamma> K (mm_arrays s)"
  from assms [OF this] obtain \<Gamma>' K' where "evolves \<Gamma> (mm_arrays s) \<Gamma>' (mm_arrays (fst (f s)))"
    "known \<Gamma>' K' (mm_arrays (fst (f s)))" "mm_out (fst (f s)) = mm_out s" "agrees i R K' (k (snd (f s)))" by blast
  then show "\<exists>\<Gamma>' K' R' xs. evolves \<Gamma> (mm_arrays s) \<Gamma>' (mm_arrays (fst (fst (f s), k (snd (f s)))))
      \<and> known \<Gamma>' K' (mm_arrays (fst (fst (f s), k (snd (f s))))) \<and> R = xs @ R'
      \<and> mm_out (fst (fst (f s), k (snd (f s)))) = mm_out s @ map (Pair i) xs
      \<and> agrees i R' K' (snd (fst (f s), k (snd (f s))))"
    by (intro exI [of _ \<Gamma>'] exI [of _ K'] exI [of _ R] exI [of _ "[]"]) simp
qed

lemma evolves_refl: "length \<Gamma> = length h \<Longrightarrow> evolves \<Gamma> h \<Gamma> h"
  by (simp add: evolves_def)

lemma agrees_read:
  assumes "(a, n, c, g) \<in> K" and "j < n" and "agrees i R K (k (g j))"
  shows "agrees i R K (peek (read_elem a j) k)"
  unfolding peek_def
proof (rule agrees_act)
  fix \<Gamma> :: "(nat \<Rightarrow> 'a) list" and s :: "'a memory"
  assume known: "known \<Gamma> K (mm_arrays s)"
  then have "read_elem a j s = g j" using assms(1,2) by (auto simp: known_def read_elem_def)
  with known assms(3) show "\<exists>\<Gamma>' K'. evolves \<Gamma> (mm_arrays s) \<Gamma>' (mm_arrays (fst (s, read_elem a j s)))
      \<and> known \<Gamma>' K' (mm_arrays (fst (s, read_elem a j s))) \<and> mm_out (fst (s, read_elem a j s)) = mm_out s
      \<and> agrees i R K' (k (snd (s, read_elem a j s)))"
    by (intro exI [of _ \<Gamma>] exI [of _ K]) (auto simp: known_def intro!: evolves_refl)
qed

lemma agrees_write:
  assumes "(a, n, c, g) \<in> K" and "n < c" and "agrees i R (insert (a, Suc n, c, g) K) p"
  shows "agrees i R K (poke (write_elem a n (g n)) p)"
  unfolding poke_def
proof (rule agrees_act)
  fix \<Gamma> :: "(nat \<Rightarrow> 'a) list" and s :: "'a memory"
  assume known: "known \<Gamma> K (mm_arrays s)"
  let ?h = "mm_arrays (write_elem a n (g n) s)"
  have k: "a < length (mm_arrays s)" "\<Gamma> ! a = g" "length (mm_arrays s ! a) = c" "\<forall>i < n. mm_arrays s ! a ! i = g i"
    "length \<Gamma> = length (mm_arrays s)"
    using known assms(1) by (auto simp: known_def)
  have ev: "evolves \<Gamma> (mm_arrays s) \<Gamma> ?h"
    using k assms(2) by (auto simp: evolves_def write_elem_def nth_list_update)
  from known_evolves [OF known this] k assms(2)
  have "known \<Gamma> (insert (a, Suc n, c, g) K) ?h"
    by (auto simp: known_def write_elem_def nth_list_update less_Suc_eq)
  with ev assms(3) show "\<exists>\<Gamma>' K'. evolves \<Gamma> (mm_arrays s) \<Gamma>' (mm_arrays (fst (write_elem a n (g n) s, ())))
      \<and> known \<Gamma>' K' (mm_arrays (fst (write_elem a n (g n) s, ()))) \<and> mm_out (fst (write_elem a n (g n) s, ())) = mm_out s
      \<and> agrees i R K' p"
    by (intro exI [of _ \<Gamma>] exI [of _ "insert (a, Suc n, c, g) K"]) (simp add: write_elem_def)
qed

lemma agrees_grow:
  assumes "(sl_array d, sl_len d, c, g) \<in> K"
    and "\<And>d'. sl_len d' = sl_len d \<Longrightarrow> sl_cap d' = sl_len d + n + slack
      \<Longrightarrow> agrees i R (insert (sl_array d', sl_len d', sl_cap d', g) K) (k d')"
  shows "agrees i R K (act (grow_slice z slack d n) k)"
proof (rule agrees_act)
  fix \<Gamma> :: "(nat \<Rightarrow> 'a) list" and s :: "'a memory"
  assume known: "known \<Gamma> K (mm_arrays s)"
  define d' where "d' = snd (grow_slice z slack d n s)"
  let ?h = "mm_arrays (fst (grow_slice z slack d n s))"
  let ?K = "insert (sl_array d', sl_len d', sl_cap d', g) K"
  have k: "sl_array d < length (mm_arrays s)" "sl_len d \<le> length (mm_arrays s ! sl_array d)"
    "\<forall>i < sl_len d. mm_arrays s ! sl_array d ! i = g i" "length \<Gamma> = length (mm_arrays s)"
    using known assms(1) by (auto simp: known_def)
  have ev: "evolves \<Gamma> (mm_arrays s) (\<Gamma> @ [g]) ?h"
    using k(4) by (auto simp: evolves_def grow_slice_def nth_append)
  from known_evolves [OF known this] k have "known (\<Gamma> @ [g]) ?K ?h"
    by (auto simp: known_def d'_def grow_slice_def slice_list_def nth_append min_def)
  moreover have "agrees i R ?K (k d')" by (rule assms(2)) (simp_all add: d'_def grow_slice_def)
  ultimately show "\<exists>\<Gamma>' K'. evolves \<Gamma> (mm_arrays s) \<Gamma>' ?h \<and> known \<Gamma>' K' ?h
      \<and> mm_out (fst (grow_slice z slack d n s)) = mm_out s \<and> agrees i R K' (k (snd (grow_slice z slack d n s)))"
    using ev by (intro exI [of _ "\<Gamma> @ [g]"] exI [of _ ?K]) (simp add: grow_slice_def d'_def)
qed

lemma agrees_copy:
  assumes "(a, n + j, c, g) \<in> K" and "(b, m, c', g') \<in> K" and "n + m \<le> c" and "j \<le> m"
    and "\<And>i. i < m \<Longrightarrow> g (n + i) = g' i"
    and "\<And>K'. K \<subseteq> K' \<Longrightarrow> (a, n + m, c, g) \<in> K' \<Longrightarrow> agrees i R K' p"
  shows "agrees i R K (copy_elems a n b [j..<m] p)"
  using assms
proof (induction "m - j" arbitrary: j K)
  case 0
  then show ?case by simp
next
  case (Suc l)
  then have j: "j < m" and js: "[j..<m] = j # [Suc j..<m]" by (simp_all add: upt_conv_Cons)
  have "agrees i R (insert (a, n + Suc j, c, g) K) (copy_elems a n b [Suc j..<m] p)"
    using Suc.prems Suc.hyps(2) j by (intro Suc.hyps(1)) auto
  then have "agrees i R K (poke (write_elem a (n + j) (g (n + j))) (copy_elems a n b [Suc j..<m] p))"
    using Suc.prems(1,3) j by (intro agrees_write) auto
  then show ?case
    using agrees_read [OF Suc.prems(2) j] Suc.prems(5) [OF j] by (simp add: js)
qed

text \<open>\<open>append\<close>: it is enough that the appended elements are those that the array is to have there.\<close>

lemma agrees_append:
  assumes d: "(sl_array d, sl_len d, sl_cap d, g) \<in> K" and src: "(sl_array src, sl_len src, c', g') \<in> K"
    and same: "\<And>i. i < sl_len src \<Longrightarrow> g (sl_len d + i) = g' i"
    and rest: "\<And>d' K'. K \<subseteq> K' \<Longrightarrow> sl_len d' = sl_len d + sl_len src
      \<Longrightarrow> (sl_array d', sl_len d', sl_cap d', g) \<in> K' \<Longrightarrow> agrees i R K' (k d')"
  shows "agrees i R K (append_slice z slack d src k)"
proof (cases "sl_len d + sl_len src \<le> sl_cap d")
  case True
  have "agrees i R K (copy_elems (sl_array d) (sl_len d) (sl_array src) [0..<sl_len src]
      (k (d\<lparr>sl_len := sl_len d + sl_len src\<rparr>)))"
    by (rule agrees_copy [of _ _ 0 "sl_cap d" g _ _ _ c' g']) (use d src same True in \<open>simp_all add: rest\<close>)
  with True show ?thesis by (simp add: append_slice_def)
next
  case False
  have "agrees i R K (act (grow_slice z slack d (sl_len src)) (\<lambda>d'.
      copy_elems (sl_array d') (sl_len d') (sl_array src) [0..<sl_len src] (k (d'\<lparr>sl_len := sl_len d' + sl_len src\<rparr>))))"
  proof (rule agrees_grow [OF d])
    fix d' :: slice
    assume d': "sl_len d' = sl_len d" "sl_cap d' = sl_len d + sl_len src + slack"
    show "agrees i R (insert (sl_array d', sl_len d', sl_cap d', g) K)
        (copy_elems (sl_array d') (sl_len d') (sl_array src) [0..<sl_len src] (k (d'\<lparr>sl_len := sl_len d' + sl_len src\<rparr>)))"
      by (rule agrees_copy [of _ _ 0 "sl_cap d'" g _ _ _ c' g'])
        (use src same d' in \<open>auto intro!: rest\<close>)
  qed
  with False show ?thesis by (simp add: append_slice_def)
qed

lemma agrees_read_elems:
  "(a, n, c, g) \<in> K \<Longrightarrow> \<forall>j \<in> set js. j < n \<Longrightarrow> agrees i R K (k (xs @ map g js)) \<Longrightarrow> agrees i R K (read_elems a js xs k)"
proof (induction js arbitrary: xs)
  case (Cons j js)
  then have "agrees i R K (read_elems a js (xs @ [g j]) k)" by (intro Cons.IH) simp_all
  with agrees_read [OF Cons.prems(1)] Cons.prems(2) show ?case by simp
qed simp

lemma agrees_read_slice:
  "(sl_array s, sl_len s, c, g) \<in> K \<Longrightarrow> agrees i R K (k (map g [0..<sl_len s])) \<Longrightarrow> agrees i R K (read_slice s k)"
  unfolding read_slice_def by (rule agrees_read_elems) auto

lemma agrees_leave:
  assumes "agrees i R K p"
  shows "agrees i (xs # R) K (leave i xs p)"
  unfolding leave_def poke_def act_def
proof (rule agrees.atom)
  fix \<Gamma> :: "(nat \<Rightarrow> 'a) list" and s :: "'a memory"
  assume known: "known \<Gamma> K (mm_arrays s)"
  let ?s = "s\<lparr>mm_out := mm_out s @ [(i, xs)]\<rparr>"
  show "\<exists>\<Gamma>' K' R' ys. evolves \<Gamma> (mm_arrays s) \<Gamma>' (mm_arrays (fst (fst (?s, ()), p)))
      \<and> known \<Gamma>' K' (mm_arrays (fst (fst (?s, ()), p))) \<and> xs # R = ys @ R'
      \<and> mm_out (fst (fst (?s, ()), p)) = mm_out s @ map (Pair i) ys \<and> agrees i R' K' (snd (fst (?s, ()), p))"
    using known assms
    by (intro exI [of _ \<Gamma>] exI [of _ K] exI [of _ R] exI [of _ "[xs]"]) (auto simp: known_def intro!: evolves_refl)
qed

text \<open>What is known at the start, when the slices have arrays of their own.\<close>

lemma known_start:
  fixes facts :: "(slice \<times> (nat \<Rightarrow> 'a)) list"
  assumes "\<forall>(s, g) \<in> set facts. slice_ok h s \<and> slice_list h s = map g [0..<sl_len s]"
    and "distinct (map (\<lambda>(s, g). sl_array s) facts)"
  shows "\<exists>\<Gamma>. known \<Gamma> {(sl_array s, sl_len s, sl_cap s, g) | s g. (s, g) \<in> set facts} h"
proof
  let ?seq = "\<lambda>a. (case map_of (map (\<lambda>(s, g). (sl_array s, g)) facts) a of None \<Rightarrow> undefined | Some g \<Rightarrow> g)"
  show "known (map ?seq [0..<length h]) {(sl_array s, sl_len s, sl_cap s, g) | s g. (s, g) \<in> set facts} h"
    unfolding known_def
  proof (intro conjI ballI)
    fix x assume "x \<in> {(sl_array s, sl_len s, sl_cap s, g) | s g. (s, g) \<in> set facts}"
    then obtain s g where x: "x = (sl_array s, sl_len s, sl_cap s, g)" "(s, g) \<in> set facts" by blast
    have ok: "slice_ok h s" "slice_list h s = map g [0..<sl_len s]" using assms(1) x(2) by auto
    have "?seq (sl_array s) = g"
      using x(2) assms(2) by (subst map_of_eq_Some_iff [THEN iffD2]) (force simp: comp_def split_def)+
    moreover have "h ! sl_array s ! i = g i" if "i < sl_len s" for i
    proof -
      have "h ! sl_array s ! i = slice_list h s ! i" using ok(1) that by (simp add: slice_ok_def slice_list_def)
      then show ?thesis using that by (simp add: ok(2))
    qed
    ultimately show "case x of (a, n, c, g) \<Rightarrow> a < length h \<and> map ?seq [0..<length h] ! a = g
        \<and> length (h ! a) = c \<and> n \<le> c \<and> (\<forall>i < n. h ! a ! i = g i)"
      using ok(1) by (simp add: x(1) slice_ok_def)
  qed simp
qed

section \<open>Goroutines that agree\<close>

text \<open>What goroutine \<open>i\<close> has left.\<close>

definition left_by :: "nat \<Rightarrow> 'a memory \<Rightarrow> 'a list list" where
  "left_by i s = map snd (filter (\<lambda>(j, _). j = i) (mm_out s))"

inductive mem_reachable :: "'a memory prog list \<times> 'a memory \<Rightarrow> 'a memory prog list \<times> 'a memory \<Rightarrow> bool"
  for x :: "'a memory prog list \<times> 'a memory" where
  start: "mem_reachable x x"
| step: "mem_reachable x y \<Longrightarrow> thread_step i y = Some z \<Longrightarrow> mem_reachable x z"

definition all_agree :: "(nat \<Rightarrow> 'a list list) \<Rightarrow> 'a memory prog list \<Rightarrow> 'a memory \<Rightarrow> bool" where
  "all_agree E ps s \<longleftrightarrow> (\<exists>\<Gamma> K R. \<forall>i < length ps. known \<Gamma> (K i) (mm_arrays s)
     \<and> agrees i (R i) (K i) (ps ! i) \<and> E i = left_by i s @ R i)"

lemma all_agree_step:
  assumes "all_agree E ps s" and "thread_step i (ps, s) = Some (ps', s')"
  shows "all_agree E ps' s'"
proof -
  obtain f where f: "i < length ps" "ps ! i = Atom f" "ps' = ps[i := snd (f s)]" "s' = fst (f s)"
    using assms(2) by (auto simp: thread_step_def split: if_splits prog.splits)
  obtain \<Gamma> K R where h: "\<And>i. i < length ps \<Longrightarrow> known \<Gamma> (K i) (mm_arrays s) \<and> agrees i (R i) (K i) (ps ! i) \<and> E i = left_by i s @ R i"
    using assms(1) by (auto simp: all_agree_def)
  obtain \<Gamma>' K' R' xs where s': "evolves \<Gamma> (mm_arrays s) \<Gamma>' (mm_arrays s')" "known \<Gamma>' K' (mm_arrays s')"
      "R i = xs @ R'" "mm_out s' = mm_out s @ map (Pair i) xs" "agrees i R' K' (snd (f s))"
    using h [OF f(1)] unfolding f(2) agrees_Atom f(4) by blast
  have left: "left_by j s' = left_by j s @ (if j = i then xs else [])" for j
    by (simp add: left_by_def s'(4) filter_map comp_def)
  have "known \<Gamma>' ((K(i := K')) j) (mm_arrays s') \<and> agrees j ((R(i := R')) j) ((K(i := K')) j) (ps' ! j)
      \<and> E j = left_by j s' @ (R(i := R')) j" if "j < length ps'" for j
  proof (cases "j = i")
    case True
    with s' f h [OF f(1)] left [of i] show ?thesis by simp
  next
    case False
    with s'(1) f(3) h [of j] that left [of j] show ?thesis by (auto intro: known_evolves)
  qed
  then show ?thesis unfolding all_agree_def by blast
qed

lemma all_agree_reachable: "mem_reachable (ps, s) y \<Longrightarrow> all_agree E ps s \<Longrightarrow> all_agree E (fst y) (snd y)"
proof (induction rule: mem_reachable.induct)
  case (step y i z)
  then show ?case using all_agree_step [of E "fst y" "snd y" i "fst z" "snd z"] by simp
qed simp

lemma mem_alone:
  assumes "alone p s q t" and "mem_reachable x (ps, s)" and "i < length ps" and "ps ! i = p"
  shows "mem_reachable x (ps[i := q], t)"
  using assms
proof (induction arbitrary: ps rule: alone.induct)
  case (here p s)
  then show ?case using list_update_id [of ps i] by simp
next
  case (further f s q t)
  have "thread_step i (ps, s) = Some (ps[i := snd (f s)], fst (f s))" using further.prems by (simp add: thread_step_def)
  from further.IH [OF mem_reachable.step [OF further.prems(1) this]] further.prems show ?case by simp
qed

lemma reachable_length: "mem_reachable (ps, s) y \<Longrightarrow> length (fst y) = length ps"
  by (induction rule: mem_reachable.induct) (auto simp: thread_step_def split: if_splits prog.splits)

text \<open>Then each has left a first part of what it is to leave, and all of it when it is over.\<close>

lemma agreeing_threads:
  assumes "mem_reachable (ps, s) (ps', s')" and "all_agree E ps s" and "i < length ps"
  shows "(\<exists>R. E i = left_by i s' @ R) \<and> (ps' ! i = Done \<longrightarrow> left_by i s' = E i)"
proof -
  have "all_agree E ps' s'" "length ps' = length ps"
    using all_agree_reachable [OF assms(1,2)] reachable_length [OF assms(1)] by simp_all
  then obtain K R where "agrees i R K (ps' ! i)" "E i = left_by i s' @ R"
    using assms(3) by (auto simp: all_agree_def)
  then show ?thesis by (auto simp: agrees_Done)
qed

end
