(* ===== verification/Label_Aliasing.thy ===== *)
theory Label_Aliasing
  imports Metric_Store Go_Slice
begin

text \<open>
  The stores that \<open>ExpandWildcards\<close> makes of one pattern are shallow copies (\<open>expanded := *store\<close>), and
  \<open>buildStoreFromConfig\<close> copies the families as shallowly, so the label slices of their families and
  metrics have the same backing arrays. The reflectors of the stores append to them at the same
  time: \<open>inheritFamilyConfiguration\<close> the labels of the store to those of the family, once per object,
  and \<open>inheritMetricLabels\<close> the labels of the family to those of a metric. The other theories take
  the labels as values; here they are slices.
\<close>

record label_slices =
  lf_Labels :: slice
  lf_Metrics :: "slice list"

definition no_label :: label where
  "no_label = \<lparr>lb_Name = [], lb_Value = []\<rparr>"

type_synonym slack = "slice \<Rightarrow> slice \<Rightarrow> nat"

definition append_labels :: "slack \<Rightarrow> slice \<Rightarrow> slice \<Rightarrow> (slice \<Rightarrow> label memory prog) \<Rightarrow> label memory prog" where
  "append_labels slack d src = append_slice no_label (slack d src) d src"

text \<open>The metrics of a family: what \<open>inheritMetricLabels\<close> returns is read, and not kept.\<close>

fun l_metrics :: "slack \<Rightarrow> nat \<Rightarrow> slice \<Rightarrow> slice list \<Rightarrow> label memory prog \<Rightarrow> label memory prog" where
  "l_metrics slack i fl [] p = p"
| "l_metrics slack i fl (m # ms) p =
     append_labels slack m fl (\<lambda>r. read_slice r (\<lambda>labels. leave i labels (l_metrics slack i fl ms p)))"

text \<open>The families of a store for one object.\<close>

fun l_families ::
    "slack \<Rightarrow> nat \<Rightarrow> slice \<Rightarrow> label_slices list \<Rightarrow> label_slices list
      \<Rightarrow> (label_slices list \<Rightarrow> label memory prog) \<Rightarrow> label memory prog" where
  "l_families slack i src [] before k = k before"
| "l_families slack i src (f # fs) before k =
     append_labels slack (lf_Labels f) src (\<lambda>fl.
       l_metrics slack i fl (lf_Metrics f) (l_families slack i src fs (before @ [f\<lparr>lf_Labels := fl\<rparr>]) k))"

text \<open>The goroutine of a store, over \<open>n\<close> objects.\<close>

fun l_objects :: "slack \<Rightarrow> nat \<Rightarrow> slice \<Rightarrow> label_slices list \<Rightarrow> nat \<Rightarrow> label memory prog" where
  "l_objects slack i src fs 0 = Done"
| "l_objects slack i src fs (Suc n) = l_families slack i src fs [] (\<lambda>fs. l_objects slack i src fs n)"

text \<open>The labels of the metrics, object by object, with labels as values. The metrics of a family
  with a script are not looked at.\<close>

definition walked :: "family \<Rightarrow> metric list" where
  "walked f = (if fm_starlarkResolver f = None then fs_Metrics f else [])"

fun object_labels :: "store \<Rightarrow> family list \<Rightarrow> nat \<Rightarrow> label list list" where
  "object_labels s fs 0 = []"
| "object_labels s fs (Suc n) =
     (let fs = map (inheritFamilyConfiguration s) fs
      in concat (map (\<lambda>f. map (inheritMetricLabels f) (walked f)) fs) @ object_labels s fs n)"

section \<open>The sequence of an array\<close>

definition ext :: "'a list \<Rightarrow> (nat \<Rightarrow> 'a) \<Rightarrow> nat \<Rightarrow> 'a" where
  "ext xs g i = (if i < length xs then xs ! i else g (i - length xs))"

definition cyc :: "'a list \<Rightarrow> nat \<Rightarrow> 'a" where
  "cyc xs i = xs ! (i mod length xs)"

lemma ext_below [simp]: "i < length xs \<Longrightarrow> ext xs g i = xs ! i"
  by (simp add: ext_def)

lemma ext_behind [simp]: "ext xs g (length xs + i) = g i"
  by (simp add: ext_def)

lemma upt_split: "[0..<m + k] = [0..<m] @ map ((+) m) [0..<k]"
  by (rule nth_equalityI) (simp_all add: nth_append)

lemma map_ext: "map (ext xs g) [0..<length xs + k] = xs @ map g [0..<k]"
proof -
  have "map (ext xs g) [0..<length xs] = xs" by (rule nth_equalityI) simp_all
  moreover have "ext xs g \<circ> (+) (length xs) = g" by (simp add: fun_eq_iff)
  ultimately show ?thesis by (simp only: upt_split map_append map_map)
qed

lemma cyc_turn: "i < length xs \<Longrightarrow> cyc xs (n * length xs + i) = xs ! i"
  by (simp add: cyc_def)

lemma map_cyc: "map (cyc xs) [0..<n * length xs] = concat (replicate n xs)"
proof (induction n)
  case (Suc n)
  have turn: "map (\<lambda>i. cyc xs (n * length xs + i)) [0..<length xs] = xs"
    by (rule nth_equalityI) (simp_all add: cyc_turn)
  have "map (cyc xs) [0..<Suc n * length xs] = map (cyc xs) [0..<n * length xs + length xs]"
    by (simp add: add.commute)
  also have "\<dots> = concat (replicate n xs) @ xs"
    unfolding upt_split map_append map_map comp_def Suc.IH turn ..
  also have "\<dots> = concat (replicate (Suc n) xs)" by (simp flip: replicate_append_same)
  finally show ?case .
qed simp

text \<open>The labels of a family and of a metric, with those of the store behind them again and again.\<close>

abbreviation family_seq :: "label list \<Rightarrow> label list \<Rightarrow> nat \<Rightarrow> label" where
  "family_seq S F \<equiv> ext F (cyc S)"

abbreviation metric_seq :: "label list \<Rightarrow> label list \<Rightarrow> label list \<Rightarrow> nat \<Rightarrow> label" where
  "metric_seq S F M \<equiv> ext M (family_seq S F)"

abbreviation slice_fact :: "slice \<Rightarrow> (nat \<Rightarrow> 'a) \<Rightarrow> nat \<times> nat \<times> nat \<times> (nat \<Rightarrow> 'a)" where
  "slice_fact s g \<equiv> (sl_array s, sl_len s, sl_cap s, g)"

section \<open>What a store reads\<close>

text \<open>\<open>F\<close> are the labels that the family was configured with; it has by now those of \<open>n\<close> objects.\<close>

definition read_labels :: "label list \<Rightarrow> nat \<Rightarrow> label list \<times> label list list \<Rightarrow> label list list" where
  "read_labels S n = (\<lambda>(F, Ms). map (\<lambda>M. M @ F @ concat (replicate n S)) Ms)"

definition metrics_known :: "label list \<Rightarrow> label list \<Rightarrow> label knowledge \<Rightarrow> label list list \<Rightarrow> slice list \<Rightarrow> bool" where
  "metrics_known S F K = list_all2 (\<lambda>M m. slice_fact m (metric_seq S F M) \<in> K \<and> sl_len m = length M)"

lemma metrics_known_mono: "K \<subseteq> K' \<Longrightarrow> metrics_known S F K Ms ms \<Longrightarrow> metrics_known S F K' Ms ms"
  unfolding metrics_known_def by (erule list_all2_mono) blast

lemma agrees_metrics:
  assumes "slice_fact fl (family_seq S F) \<in> K" and "sl_len fl = length F + n * length S"
    and "metrics_known S F K Ms ms"
    and "\<And>K'. K \<subseteq> K' \<Longrightarrow> agrees i R K' p"
  shows "agrees i (read_labels S n (F, Ms) @ R) K (l_metrics slack i fl ms p)"
  using assms(1,3,4)
proof (induction Ms arbitrary: ms K)
  case Nil
  then show ?case by (simp add: read_labels_def metrics_known_def)
next
  case (Cons M Ms)
  then obtain m ms' where ms: "ms = m # ms'" "slice_fact m (metric_seq S F M) \<in> K" "sl_len m = length M"
      "metrics_known S F K Ms ms'"
    by (auto simp: metrics_known_def list_all2_Cons1)
  show ?case
    unfolding l_metrics.simps append_labels_def ms(1)
  proof (rule agrees_append [OF ms(2) Cons.prems(1)])
    show "metric_seq S F M (sl_len m + j) = family_seq S F j" for j using ms(3) by simp
  next
    fix r K'
    assume K': "K \<subseteq> K'" and len: "sl_len r = sl_len m + sl_len fl" and r: "slice_fact r (metric_seq S F M) \<in> K'"
    have labels: "map (metric_seq S F M) [0..<sl_len r] = M @ F @ concat (replicate n S)"
      unfolding len ms(3) assms(2) map_ext map_cyc ..
    have "agrees i (read_labels S n (F, Ms) @ R) K' (l_metrics slack i fl ms' p)"
      by (rule Cons.IH) (use Cons.prems(1,3) K' ms(4) in \<open>auto intro: metrics_known_mono\<close>)
    then show "agrees i (read_labels S n (F, M # Ms) @ R) K'
        (read_slice r (\<lambda>labels. leave i labels (l_metrics slack i fl ms' p)))"
      by (intro agrees_read_slice [OF r]) (simp add: read_labels_def labels agrees_leave)
  qed
qed

definition family_known :: "label list \<Rightarrow> nat \<Rightarrow> label knowledge \<Rightarrow> label list \<times> label list list \<Rightarrow> label_slices \<Rightarrow> bool" where
  "family_known S n K = (\<lambda>(F, Ms) f.
     slice_fact (lf_Labels f) (family_seq S F) \<in> K \<and> sl_len (lf_Labels f) = length F + n * length S
     \<and> metrics_known S F K Ms (lf_Metrics f))"

lemma families_known_mono:
  "K \<subseteq> K' \<Longrightarrow> list_all2 (family_known S n K) Fs fs \<Longrightarrow> list_all2 (family_known S n K') Fs fs"
  by (erule list_all2_mono) (auto simp: family_known_def intro: metrics_known_mono)

lemma agrees_families:
  assumes "sl_len src = length S"
    and "slice_fact src (cyc S) \<in> K"
    and "list_all2 (family_known S n K) Fs fs" and "list_all2 (family_known S (Suc n) K) Bs before"
    and "\<And>K' fs'. K \<subseteq> K' \<Longrightarrow> list_all2 (family_known S (Suc n) K') (Bs @ Fs) fs' \<Longrightarrow> agrees i R K' (k fs')"
  shows "agrees i (concat (map (read_labels S (Suc n)) Fs) @ R) K (l_families slack i src fs before k)"
  using assms(2-)
proof (induction Fs arbitrary: fs Bs before K)
  case Nil
  then show ?case by simp
next
  case (Cons X Fs)
  obtain F Ms where X: "X = (F, Ms)" by (cases X)
  then obtain f fs' where fs: "fs = f # fs'" "slice_fact (lf_Labels f) (family_seq S F) \<in> K"
      "sl_len (lf_Labels f) = length F + n * length S" "metrics_known S F K Ms (lf_Metrics f)"
      "list_all2 (family_known S n K) Fs fs'"
    using Cons.prems(2) by (auto simp: family_known_def list_all2_Cons1)
  show ?case
    unfolding l_families.simps append_labels_def fs(1)
  proof (rule agrees_append [OF fs(2) Cons.prems(1)])
    show "family_seq S F (sl_len (lf_Labels f) + j) = cyc S j" if "j < sl_len src" for j
      using that assms(1) by (simp add: fs(3) add.assoc cyc_turn) (simp add: cyc_def)
  next
    fix fl K'
    assume K': "K \<subseteq> K'" and len: "sl_len fl = sl_len (lf_Labels f) + sl_len src"
      and fl: "slice_fact fl (family_seq S F) \<in> K'"
    have len': "sl_len fl = length F + Suc n * length S" using len fs(3) assms(1) by simp
    have "agrees i (read_labels S (Suc n) (F, Ms) @ concat (map (read_labels S (Suc n)) Fs) @ R) K'
        (l_metrics slack i fl (lf_Metrics f) (l_families slack i src fs' (before @ [f\<lparr>lf_Labels := fl\<rparr>]) k))"
    proof (rule agrees_metrics [OF fl len' metrics_known_mono [OF K' fs(4)]])
      fix K2 assume K2: "K' \<subseteq> K2"
      with K' have sub: "K \<subseteq> K2" by simp
      have "family_known S (Suc n) K2 X (f\<lparr>lf_Labels := fl\<rparr>)"
        using fl K2 len' metrics_known_mono [OF sub fs(4)] by (auto simp: family_known_def X)
      then have "list_all2 (family_known S (Suc n) K2) (Bs @ [X]) (before @ [f\<lparr>lf_Labels := fl\<rparr>])"
        using families_known_mono [OF sub Cons.prems(3)] by (simp add: list_all2_appendI)
      moreover have "agrees i R K3 (k fs2)"
        if "K2 \<subseteq> K3" "list_all2 (family_known S (Suc n) K3) ((Bs @ [X]) @ Fs) fs2" for K3 fs2
        using that sub by (intro Cons.prems(4)) simp_all
      ultimately show "agrees i (concat (map (read_labels S (Suc n)) Fs) @ R) K2
          (l_families slack i src fs' (before @ [f\<lparr>lf_Labels := fl\<rparr>]) k)"
        using Cons.prems(1) sub families_known_mono [OF sub fs(5)] by (intro Cons.IH) auto
    qed
    then show "agrees i (concat (map (read_labels S (Suc n)) (X # Fs)) @ R) K'
        (l_metrics slack i fl (lf_Metrics f) (l_families slack i src fs' (before @ [f\<lparr>lf_Labels := fl\<rparr>]) k))"
      by (simp add: X)
  qed
qed

fun all_reads :: "label list \<Rightarrow> (label list \<times> label list list) list \<Rightarrow> nat \<Rightarrow> nat \<Rightarrow> label list list" where
  "all_reads S Fs n 0 = []"
| "all_reads S Fs n (Suc N) = concat (map (read_labels S (Suc n)) Fs) @ all_reads S Fs (Suc n) N"

lemma agrees_objects:
  assumes "sl_len src = length S"
  shows "slice_fact src (cyc S) \<in> K \<Longrightarrow> list_all2 (family_known S n K) Fs fs
    \<Longrightarrow> agrees i (all_reads S Fs n N) K (l_objects slack i src fs N)"
proof (induction N arbitrary: n fs K)
  case 0
  show ?case by (simp add: agrees.over)
next
  case (Suc N)
  show ?case
    unfolding all_reads.simps l_objects.simps
    by (rule agrees_families [OF assms Suc.prems(1,2) list_all2_Nil [THEN iffD2]])
      (use Suc.prems(1) in \<open>auto intro: Suc.IH\<close>)
qed

section \<open>The stores of a pattern\<close>

lemma inherit_once:
  "fs_Labels (inheritFamilyConfiguration s f) = fs_Labels f @ so_Labels s"
  "walked (inheritFamilyConfiguration s f) = walked f"
  by (auto simp: inheritFamilyConfiguration_def walked_def Let_def)

lemma inherit_times:
  "fs_Labels ((inheritFamilyConfiguration s ^^ n) f) = fs_Labels f @ concat (replicate n (so_Labels s))"
  "walked ((inheritFamilyConfiguration s ^^ n) f) = walked f"
  by (induction n) (simp_all add: inherit_once flip: replicate_append_same)

definition label_values :: "family \<Rightarrow> label list \<times> label list list" where
  "label_values f = (fs_Labels f, map mt_Labels (walked f))"

lemma object_labels_reads:
  "object_labels s (map (inheritFamilyConfiguration s ^^ n) fams) N = all_reads (so_Labels s) (map label_values fams) n N"
proof (induction N arbitrary: n)
  case (Suc N)
  have "map (inheritMetricLabels ((inheritFamilyConfiguration s ^^ Suc n) f)) (walked ((inheritFamilyConfiguration s ^^ Suc n) f))
      = read_labels (so_Labels s) (Suc n) (label_values f)" for f
    unfolding inheritMetricLabels_def inherit_times by (simp add: read_labels_def label_values_def comp_def)
  then show ?case
    using Suc.IH [of "Suc n"] by (simp add: comp_def del: funpow.simps) (simp add: comp_def)
qed simp

text \<open>How \<open>ExpandWildcards\<close> and \<open>buildStoreFromConfig\<close> leave the slices: each has an array of its own,
  with or without room, and all the stores have the same slices.\<close>

definition slice_holds :: "label list list \<Rightarrow> slice \<Rightarrow> label list \<Rightarrow> bool" where
  "slice_holds h sl xs \<longleftrightarrow> slice_ok h sl \<and> slice_list h sl = xs"

definition laid_out :: "label list list \<Rightarrow> store \<Rightarrow> slice \<Rightarrow> label_slices list \<Rightarrow> bool" where
  "laid_out h s src sls \<longleftrightarrow>
     slice_holds h src (so_Labels s)
     \<and> list_all2 (\<lambda>f l. slice_holds h (lf_Labels l) (fs_Labels f)
         \<and> list_all2 (\<lambda>m sl. slice_holds h sl (mt_Labels m)) (walked f) (lf_Metrics l)) (so_Families s) sls
     \<and> distinct (map sl_array (src # concat (map (\<lambda>l. lf_Labels l # lf_Metrics l) sls)))"

definition expanded_reflectors :: "slack \<Rightarrow> slice \<Rightarrow> label_slices list \<Rightarrow> nat list \<Rightarrow> label memory prog list" where
  "expanded_reflectors slack src sls ns = map (\<lambda>i. l_objects slack i src sls (ns ! i)) [0..<length ns]"

text \<open>The slices of a store with what their arrays are to hold.\<close>

definition slice_seqs :: "store \<Rightarrow> slice \<Rightarrow> label_slices list \<Rightarrow> (slice \<times> (nat \<Rightarrow> label)) list" where
  "slice_seqs s src sls = (src, cyc (so_Labels s)) #
     concat (map2 (\<lambda>f l. (lf_Labels l, family_seq (so_Labels s) (fs_Labels f)) #
       map2 (\<lambda>m sl. (sl, metric_seq (so_Labels s) (fs_Labels f) (mt_Labels m))) (walked f) (lf_Metrics l)) (so_Families s) sls)"

lemma holds_ext:
  "slice_holds h sl xs \<Longrightarrow> slice_ok h sl \<and> sl_len sl = length xs \<and> slice_list h sl = map (ext xs g) [0..<sl_len sl]"
  using map_ext [of xs g 0] by (auto simp: slice_holds_def slice_list_def slice_ok_def)

lemma holds_cyc:
  "slice_holds h sl xs \<Longrightarrow> slice_ok h sl \<and> sl_len sl = length xs \<and> slice_list h sl = map (cyc xs) [0..<sl_len sl]"
  using map_cyc [of xs 1] by (auto simp: slice_holds_def slice_list_def slice_ok_def)

lemma map2_fst: "length xs = length ys \<Longrightarrow> map (\<lambda>(sl, g). sl_array sl) (map2 (\<lambda>m sl. (sl, g m)) xs ys) = map sl_array ys"
  by (induction xs ys rule: list_induct2) simp_all

lemma slice_seqs_mem:
  assumes "(f, l) \<in> set (zip (so_Families s) sls)"
  shows "(lf_Labels l, family_seq (so_Labels s) (fs_Labels f)) \<in> set (slice_seqs s src sls)"
    and "(m, sl) \<in> set (zip (walked f) (lf_Metrics l))
      \<Longrightarrow> (sl, metric_seq (so_Labels s) (fs_Labels f) (mt_Labels m)) \<in> set (slice_seqs s src sls)"
  using assms by (force simp: slice_seqs_def)+

lemma laid_out_known:
  assumes "laid_out h s src sls"
  shows "\<exists>\<Gamma> K. known \<Gamma> K h \<and> slice_fact src (cyc (so_Labels s)) \<in> K \<and> sl_len src = length (so_Labels s)
     \<and> list_all2 (family_known (so_Labels s) 0 K) (map label_values (so_Families s)) sls"
proof -
  let ?S = "so_Labels s" and ?seqs = "slice_seqs s src sls"
  let ?K = "{(sl_array sl, sl_len sl, sl_cap sl, g) | sl g. (sl, g) \<in> set ?seqs}"
  let ?fam = "\<lambda>f l. slice_holds h (lf_Labels l) (fs_Labels f) \<and> list_all2 (\<lambda>m sl. slice_holds h sl (mt_Labels m)) (walked f) (lf_Metrics l)"
  have src: "slice_holds h src ?S" and fams: "list_all2 ?fam (so_Families s) sls"
    and dist: "distinct (map sl_array (src # concat (map (\<lambda>l. lf_Labels l # lf_Metrics l) sls)))"
    using assms by (simp_all add: laid_out_def)
  have arrays: "map (\<lambda>(sl, g). sl_array sl) (concat (map2 (\<lambda>f l. (lf_Labels l, family_seq ?S (fs_Labels f)) #
       map2 (\<lambda>m sl. (sl, metric_seq ?S (fs_Labels f) (mt_Labels m))) (walked f) (lf_Metrics l)) fs ls))
     = map sl_array (concat (map (\<lambda>l. lf_Labels l # lf_Metrics l) ls))" if "list_all2 ?fam fs ls" for fs ls
    using that by (induction rule: list_all2_induct) (auto simp: map2_fst simp del: map_map dest: list_all2_lengthD)
  have held: "\<forall>(sl, g) \<in> set ?seqs. slice_ok h sl \<and> slice_list h sl = map g [0..<sl_len sl]"
    using holds_cyc [OF src] fams by (fastforce simp: slice_seqs_def list_all2_iff dest: holds_ext)
  have "distinct (map (\<lambda>(sl, g). sl_array sl) ?seqs)"
    using dist arrays [OF fams] by (simp add: slice_seqs_def)
  from known_start [OF held this] obtain \<Gamma> where "known \<Gamma> ?K h" by blast
  moreover have "list_all2 (family_known ?S 0 ?K) (map label_values (so_Families s)) sls"
  proof -
    have "family_known ?S 0 ?K (label_values f) l" if fl: "(f, l) \<in> set (zip (so_Families s) sls)" for f l
    proof -
      have h: "slice_holds h (lf_Labels l) (fs_Labels f)" "list_all2 (\<lambda>m sl. slice_holds h sl (mt_Labels m)) (walked f) (lf_Metrics l)"
        using fams fl by (auto simp: list_all2_iff)
      have "metrics_known ?S (fs_Labels f) ?K (map mt_Labels (walked f)) (lf_Metrics l)"
        unfolding metrics_known_def list_all2_map1
        using h(2) slice_seqs_mem(2) [OF fl] by (auto simp: list_all2_iff dest: holds_cyc)
      with h(1) slice_seqs_mem(1) [OF fl] show ?thesis
        by (auto simp: family_known_def label_values_def dest: holds_cyc)
    qed
    with list_all2_lengthD [OF fams] show ?thesis unfolding list_all2_map1 by (auto simp: list_all2_iff)
  qed
  ultimately show ?thesis using holds_cyc [OF src] by (intro exI [of _ \<Gamma>] exI [of _ ?K]) (auto simp: slice_seqs_def)
qed

section \<open>Properties\<close>

text \<open>C21: the stores that one wildcard pattern expands to share the label slices of its families and
  metrics, and their reflectors append to them without a lock. Still every reflector reads the
  right labels: however the single reads and writes of the elements interleave, and whether a slice
  has room or is copied, what the goroutine of a store has read for its metrics so far is what it
  is to read when labels are values, and when it is over it has read all of it.\<close>

theorem expanded_stores_keep_labels:
  assumes "laid_out h s src sls"
    and "mem_reachable (expanded_reflectors slack src sls ns, \<lparr>mm_arrays = h, mm_out = []\<rparr>) (ps, t)"
    and "i < length ns"
  shows "(\<exists>R. object_labels s (so_Families s) (ns ! i) = left_by i t @ R)
     \<and> (ps ! i = Done \<longrightarrow> left_by i t = object_labels s (so_Families s) (ns ! i))"
proof -
  obtain \<Gamma> K where k: "known \<Gamma> K h" "slice_fact src (cyc (so_Labels s)) \<in> K" "sl_len src = length (so_Labels s)"
      "list_all2 (family_known (so_Labels s) 0 K) (map label_values (so_Families s)) sls"
    using laid_out_known [OF assms(1)] by blast
  let ?E = "\<lambda>i. all_reads (so_Labels s) (map label_values (so_Families s)) 0 (ns ! i)"
  have "all_agree ?E (expanded_reflectors slack src sls ns) \<lparr>mm_arrays = h, mm_out = []\<rparr>"
    unfolding all_agree_def using k(1)
    by (intro exI [of _ \<Gamma>] exI [of _ "\<lambda>_. K"] exI [of _ ?E])
      (auto simp: expanded_reflectors_def left_by_def intro: agrees_objects [OF k(3,2,4)])
  from agreeing_threads [OF assms(2) this] assms(3)
  show ?thesis using object_labels_reads [of s 0 "so_Families s" "ns ! i"] by (simp add: expanded_reflectors_def)
qed

text \<open>A family with room for one label, of which one metric has none: two stores, the first of which has
  worked off an object.\<close>

theorem expanded_stores_keep_labels_witness:
  "\<exists>h s src sls ps t. laid_out h s src sls
     \<and> mem_reachable (expanded_reflectors (\<lambda>_ _. 0) src sls [1, 1], \<lparr>mm_arrays = h, mm_out = []\<rparr>) (ps, t)
     \<and> object_labels s (so_Families s) 1 = [[no_label, no_label]] \<and> left_by 0 t = object_labels s (so_Families s) 1"
proof -
  let ?m = "\<lparr>mt_Labels = [], mt_Value = ''1'', mt_Resolver = ResolverTypeNone\<rparr>"
  let ?s = "newStore [] [demo_family ''m'' [?m] [no_label]] ResolverTypeUnstructured [no_label] 0 0"
  let ?h = "[[no_label], [no_label, no_label], []]"
  let ?src = "\<lparr>sl_array = 0, sl_len = 1, sl_cap = 1\<rparr>"
  let ?sls = "[\<lparr>lf_Labels = \<lparr>sl_array = 1, sl_len = 1, sl_cap = 2\<rparr>, lf_Metrics = [\<lparr>sl_array = 2, sl_len = 0, sl_cap = 0\<rparr>]\<rparr>]"
  let ?ps = "expanded_reflectors (\<lambda>_ _. 0) ?src ?sls [1, 1]" and ?t = "\<lparr>mm_arrays = ?h, mm_out = []\<rparr>"
  have laid: "laid_out ?h ?s ?src ?sls"
    by (simp add: laid_out_def slice_holds_def slice_ok_def slice_list_def newStore_def demo_family_def walked_def)
  have reach: "mem_reachable (?ps, ?t) (?ps[0 := Done], run (?ps ! 0) ?t)"
    by (rule mem_alone [OF run_alone mem_reachable.start]) (simp_all add: expanded_reflectors_def)
  have "?ps[0 := Done] ! 0 = Done" by (simp add: expanded_reflectors_def)
  with expanded_stores_keep_labels [OF laid reach, of 0]
  have "left_by 0 (run (?ps ! 0) ?t) = object_labels ?s (so_Families ?s) 1" by simp
  moreover have "object_labels ?s (so_Families ?s) 1 = [[no_label, no_label]]"
    by (simp add: newStore_def demo_family_def inheritFamilyConfiguration_def walked_def inheritMetricLabels_def numeral_eq_Suc)
  ultimately show ?thesis using laid reach by blast
qed

text \<open>All the same the appends race: with room in the labels of the family, the first write of every
  goroutine is to the same element.\<close>

lemma expanded_stores_race:
  assumes "sl_len (lf_Labels f) + sl_len src \<le> sl_cap (lf_Labels f)" and "0 < sl_len src" and "0 < n"
  shows "\<exists>rest. l_objects slack i src (f # fs) n =
     peek (read_elem (sl_array src) 0) (\<lambda>x. poke (write_elem (sl_array (lf_Labels f)) (sl_len (lf_Labels f)) x) rest)"
proof -
  obtain m where "n = Suc m" using assms(3) by (cases n) auto
  moreover have "[0..<sl_len src] = 0 # [1..<sl_len src]" using assms(2) by (simp add: upt_conv_Cons)
  ultimately show ?thesis using assms(1) by (auto simp: append_labels_def append_slice_def)
qed

end
