(* ===== verification/Deep_Copy.thy ===== *)
theory Deep_Copy
  imports API_Types "HOL-Library.State_Monad"
begin

text \<open>
  The deep copies of \<open>zz_generated.deepcopy.go\<close>. Elsewhere the objects of the API are values and a copy
  is the identity; here they lie in a heap, with slices, maps and pointers as references, and a
  copy allocates. The heap is a list of cells and only grows. An array gets its cell when its
  elements are there, and not before them, which nothing else can see.
\<close>

section \<open>Objects in a heap\<close>

text \<open>A slice is nil or an array with a length; a pointer or a map is nil or a cell.\<close>

type_synonym slice_ref = "(nat \<times> nat) option"
type_synonym ref = "nat option"

record p_metric =
  pm_Labels :: slice_ref
  pm_Value :: string
  pm_Resolver :: resolver_type

record p_family =
  pf_Name :: string
  pf_Help :: string
  pf_Metrics :: slice_ref
  pf_Starlark :: ref
  pf_Resolver :: resolver_type
  pf_Labels :: slice_ref
  pf_CardinalityLimit :: int64

record p_store =
  ps_Group :: string
  ps_Version :: string
  ps_Kind :: string
  ps_Resource :: string
  ps_Selectors :: selectors
  ps_Families :: slice_ref
  ps_Resolver :: resolver_type
  ps_Labels :: slice_ref
  ps_CardinalityLimit :: int64

record p_configuration =
  pc_Stores :: slice_ref
  pc_CardinalityLimit :: int64

record p_spec =
  pe_Configuration :: p_configuration

record p_cardinality =
  pn_Total :: int64
  pn_PerStore :: ref
  pn_PerFamily :: ref
  pn_ThresholdsExceeded :: bool
  pn_CutoffFamilies :: slice_ref
  pn_LastUpdated :: int

record p_status =
  pt_Conditions :: slice_ref
  pt_Cardinality :: ref

record p_meta =
  po_Namespace :: string
  po_Name :: string
  po_UID :: uid
  po_Generation :: int64
  po_ResourceVersion :: string
  po_Labels :: ref

record p_monitor =
  pg_TypeMeta :: "string \<times> string"
  pg_ObjectMeta :: p_meta
  pg_Spec :: p_spec
  pg_Status :: p_status

record p_list =
  pl_TypeMeta :: "string \<times> string"
  pl_ListMeta :: string
  pl_Items :: slice_ref

text \<open>A pointer to a struct is one to an array of one element.\<close>

datatype cell =
    Labels (labels_in: "label list") | Metrics (metrics_in: "p_metric list")
  | Families (families_in: "p_family list") | StoreArray (stores_in: "p_store list")
  | Scripts (scripts_in: "starlark_config list") | SelectorPairs (selectors_in: "selectors list")
  | Configurations (configurations_in: "p_configuration list") | Specs (specs_in: "p_spec list")
  | Conditions (conditions_in: "condition list") | Strings (strings_in: "string list")
  | Counts (counts_in: "(string \<times> int64) list") | StringPairs (pairs_in: "(string \<times> string) list")
  | Cardinalities (cardinalities_in: "p_cardinality list") | Statuses (statuses_in: "p_status list")
  | Monitors (monitors_in: "p_monitor list") | MonitorLists (lists_in: "p_list list")

type_synonym cells = "cell list"

section \<open>Copying\<close>

definition load :: "nat \<Rightarrow> (cells, cell) state" where
  "load a = State (\<lambda>h. (h ! a, h))"

definition alloc :: "cell \<Rightarrow> (cells, nat) state" where
  "alloc c = State (\<lambda>h. (length h, h @ [c]))"

text \<open>\<open>make\<close> and the loop over the elements; \<open>copy\<close> is the loop that keeps them.\<close>

definition copy_slice ::
    "('a list \<Rightarrow> cell) \<Rightarrow> (cell \<Rightarrow> 'a list) \<Rightarrow> ('a \<Rightarrow> (cells, 'a) state) \<Rightarrow> slice_ref \<Rightarrow> (cells, slice_ref) state" where
  "copy_slice wrap unwrap into s =
     (case s of
        None \<Rightarrow> State_Monad.return None
      | Some (a, n) \<Rightarrow> do {
          c \<leftarrow> load a;
          xs \<leftarrow> State_Monad.traverse_list into (take n (unwrap c));
          b \<leftarrow> alloc (wrap xs);
          State_Monad.return (Some (b, n))
        })"

definition copy_map :: "ref \<Rightarrow> (cells, ref) state" where
  "copy_map r =
     (case r of
        None \<Rightarrow> State_Monad.return None
      | Some a \<Rightarrow> do { c \<leftarrow> load a; b \<leftarrow> alloc c; State_Monad.return (Some b) })"

text \<open>\<open>DeepCopy\<close> of a pointer: nil, or \<open>new\<close> and \<open>DeepCopyInto\<close>.\<close>

definition DeepCopy ::
    "('a list \<Rightarrow> cell) \<Rightarrow> (cell \<Rightarrow> 'a list) \<Rightarrow> ('a \<Rightarrow> (cells, 'a) state) \<Rightarrow> ref \<Rightarrow> (cells, ref) state" where
  "DeepCopy wrap unwrap into r =
     (case r of
        None \<Rightarrow> State_Monad.return None
      | Some a \<Rightarrow> do {
          c \<leftarrow> load a;
          x \<leftarrow> into (hd (unwrap c));
          b \<leftarrow> alloc (wrap [x]);
          State_Monad.return (Some b)
        })"

text \<open>The copies of apimachinery: of the metadata, of a condition and of a time.\<close>

record copy_lib =
  cl_ObjectMeta :: "p_meta \<Rightarrow> (cells, p_meta) state"
  cl_ListMeta :: "string \<Rightarrow> (cells, string) state"
  cl_Condition :: "condition \<Rightarrow> (cells, condition) state"
  cl_Time :: "int \<Rightarrow> (cells, int) state"

definition Label_DeepCopyInto :: "label \<Rightarrow> (cells, label) state" where
  "Label_DeepCopyInto x = State_Monad.return x"

definition Selectors_DeepCopyInto :: "selectors \<Rightarrow> (cells, selectors) state" where
  "Selectors_DeepCopyInto x = State_Monad.return x"

definition StarlarkConfig_DeepCopyInto :: "starlark_config \<Rightarrow> (cells, starlark_config) state" where
  "StarlarkConfig_DeepCopyInto x = State_Monad.return x"

definition Metric_DeepCopyInto :: "p_metric \<Rightarrow> (cells, p_metric) state" where
  "Metric_DeepCopyInto x = do {
     labels \<leftarrow> copy_slice Labels labels_in State_Monad.return (pm_Labels x);
     State_Monad.return (x\<lparr>pm_Labels := labels\<rparr>)
   }"

definition Family_DeepCopyInto :: "p_family \<Rightarrow> (cells, p_family) state" where
  "Family_DeepCopyInto x = do {
     metrics \<leftarrow> copy_slice Metrics metrics_in Metric_DeepCopyInto (pf_Metrics x);
     starlark \<leftarrow> DeepCopy Scripts scripts_in State_Monad.return (pf_Starlark x);
     labels \<leftarrow> copy_slice Labels labels_in State_Monad.return (pf_Labels x);
     State_Monad.return (x\<lparr>pf_Metrics := metrics, pf_Starlark := starlark, pf_Labels := labels\<rparr>)
   }"

definition Store_DeepCopyInto :: "p_store \<Rightarrow> (cells, p_store) state" where
  "Store_DeepCopyInto x = do {
     families \<leftarrow> copy_slice Families families_in Family_DeepCopyInto (ps_Families x);
     labels \<leftarrow> copy_slice Labels labels_in State_Monad.return (ps_Labels x);
     State_Monad.return (x\<lparr>ps_Families := families, ps_Labels := labels\<rparr>)
   }"

definition Configuration_DeepCopyInto :: "p_configuration \<Rightarrow> (cells, p_configuration) state" where
  "Configuration_DeepCopyInto x = do {
     stores \<leftarrow> copy_slice StoreArray stores_in Store_DeepCopyInto (pc_Stores x);
     State_Monad.return (x\<lparr>pc_Stores := stores\<rparr>)
   }"

definition Spec_DeepCopyInto :: "p_spec \<Rightarrow> (cells, p_spec) state" where
  "Spec_DeepCopyInto x = do {
     configuration \<leftarrow> Configuration_DeepCopyInto (pe_Configuration x);
     State_Monad.return (x\<lparr>pe_Configuration := configuration\<rparr>)
   }"

definition CardinalityStatus_DeepCopyInto :: "copy_lib \<Rightarrow> p_cardinality \<Rightarrow> (cells, p_cardinality) state" where
  "CardinalityStatus_DeepCopyInto lib x = do {
     perStore \<leftarrow> copy_map (pn_PerStore x);
     perFamily \<leftarrow> copy_map (pn_PerFamily x);
     cutoffFamilies \<leftarrow> copy_slice Strings strings_in State_Monad.return (pn_CutoffFamilies x);
     lastUpdated \<leftarrow> cl_Time lib (pn_LastUpdated x);
     State_Monad.return (x\<lparr>pn_PerStore := perStore, pn_PerFamily := perFamily,
       pn_CutoffFamilies := cutoffFamilies, pn_LastUpdated := lastUpdated\<rparr>)
   }"

definition Status_DeepCopyInto :: "copy_lib \<Rightarrow> p_status \<Rightarrow> (cells, p_status) state" where
  "Status_DeepCopyInto lib x = do {
     conditions \<leftarrow> copy_slice Conditions conditions_in (cl_Condition lib) (pt_Conditions x);
     cardinality \<leftarrow> DeepCopy Cardinalities cardinalities_in (CardinalityStatus_DeepCopyInto lib) (pt_Cardinality x);
     State_Monad.return (x\<lparr>pt_Conditions := conditions, pt_Cardinality := cardinality\<rparr>)
   }"

definition Monitor_DeepCopyInto :: "copy_lib \<Rightarrow> p_monitor \<Rightarrow> (cells, p_monitor) state" where
  "Monitor_DeepCopyInto lib x = do {
     meta \<leftarrow> cl_ObjectMeta lib (pg_ObjectMeta x);
     spec \<leftarrow> Spec_DeepCopyInto (pg_Spec x);
     status \<leftarrow> Status_DeepCopyInto lib (pg_Status x);
     State_Monad.return (x\<lparr>pg_ObjectMeta := meta, pg_Spec := spec, pg_Status := status\<rparr>)
   }"

definition List_DeepCopyInto :: "copy_lib \<Rightarrow> p_list \<Rightarrow> (cells, p_list) state" where
  "List_DeepCopyInto lib x = do {
     meta \<leftarrow> cl_ListMeta lib (pl_ListMeta x);
     items \<leftarrow> copy_slice Monitors monitors_in (Monitor_DeepCopyInto lib) (pl_Items x);
     State_Monad.return (x\<lparr>pl_ListMeta := meta, pl_Items := items\<rparr>)
   }"

definition Label_DeepCopy :: "ref \<Rightarrow> (cells, ref) state" where
  "Label_DeepCopy = DeepCopy Labels labels_in Label_DeepCopyInto"

definition Selectors_DeepCopy :: "ref \<Rightarrow> (cells, ref) state" where
  "Selectors_DeepCopy = DeepCopy SelectorPairs selectors_in Selectors_DeepCopyInto"

definition StarlarkConfig_DeepCopy :: "ref \<Rightarrow> (cells, ref) state" where
  "StarlarkConfig_DeepCopy = DeepCopy Scripts scripts_in StarlarkConfig_DeepCopyInto"

definition Metric_DeepCopy :: "ref \<Rightarrow> (cells, ref) state" where
  "Metric_DeepCopy = DeepCopy Metrics metrics_in Metric_DeepCopyInto"

definition Family_DeepCopy :: "ref \<Rightarrow> (cells, ref) state" where
  "Family_DeepCopy = DeepCopy Families families_in Family_DeepCopyInto"

definition Store_DeepCopy :: "ref \<Rightarrow> (cells, ref) state" where
  "Store_DeepCopy = DeepCopy StoreArray stores_in Store_DeepCopyInto"

definition Configuration_DeepCopy :: "ref \<Rightarrow> (cells, ref) state" where
  "Configuration_DeepCopy = DeepCopy Configurations configurations_in Configuration_DeepCopyInto"

definition Spec_DeepCopy :: "ref \<Rightarrow> (cells, ref) state" where
  "Spec_DeepCopy = DeepCopy Specs specs_in Spec_DeepCopyInto"

definition CardinalityStatus_DeepCopy :: "copy_lib \<Rightarrow> ref \<Rightarrow> (cells, ref) state" where
  "CardinalityStatus_DeepCopy lib = DeepCopy Cardinalities cardinalities_in (CardinalityStatus_DeepCopyInto lib)"

definition Status_DeepCopy :: "copy_lib \<Rightarrow> ref \<Rightarrow> (cells, ref) state" where
  "Status_DeepCopy lib = DeepCopy Statuses statuses_in (Status_DeepCopyInto lib)"

definition Monitor_DeepCopy :: "copy_lib \<Rightarrow> ref \<Rightarrow> (cells, ref) state" where
  "Monitor_DeepCopy lib = DeepCopy Monitors monitors_in (Monitor_DeepCopyInto lib)"

definition List_DeepCopy :: "copy_lib \<Rightarrow> ref \<Rightarrow> (cells, ref) state" where
  "List_DeepCopy lib = DeepCopy MonitorLists lists_in (List_DeepCopyInto lib)"

text \<open>\<open>DeepCopyObject\<close>: a nil pointer becomes the nil interface, not an interface that holds a nil
  pointer.\<close>

datatype 'a iface = NilInterface | Holding 'a

definition Monitor_DeepCopyObject :: "copy_lib \<Rightarrow> ref \<Rightarrow> (cells, ref iface) state" where
  "Monitor_DeepCopyObject lib r = do {
     c \<leftarrow> Monitor_DeepCopy lib r;
     State_Monad.return (if c \<noteq> None then Holding c else NilInterface)
   }"

definition List_DeepCopyObject :: "copy_lib \<Rightarrow> ref \<Rightarrow> (cells, ref iface) state" where
  "List_DeepCopyObject lib r = do {
     c \<leftarrow> List_DeepCopy lib r;
     State_Monad.return (if c \<noteq> None then Holding c else NilInterface)
   }"

section \<open>What a copy promises\<close>

text \<open>
  An object is read to a value, and has a footprint, the cells that are read. A deep copy adds cells,
  reads to the same value and has its footprint among the new cells.
\<close>

locale deep_copy =
  fixes val :: "cells \<Rightarrow> 'a \<Rightarrow> 'v"
    and cells_of :: "cells \<Rightarrow> 'a \<Rightarrow> nat set"
    and into :: "'a \<Rightarrow> (cells, 'a) state"
  assumes local: "\<And>h h' x. (\<And>a. a \<in> cells_of h x \<Longrightarrow> h' ! a = h ! a) \<Longrightarrow> val h' x = val h x \<and> cells_of h' x = cells_of h x"
    and copies: "\<And>h x y h'. cells_of h x \<subseteq> {..<length h} \<Longrightarrow> run_state (into x) h = (y, h')
      \<Longrightarrow> (\<exists>added. h' = h @ added) \<and> val h' y = val h x \<and> cells_of h' y \<subseteq> {length h..<length h'}"
begin

lemma kept:
  assumes "cells_of h x \<subseteq> {..<length h}"
  shows "val (h @ added) x = val h x" and "cells_of (h @ added) x = cells_of h x"
proof -
  have "(h @ added) ! a = h ! a" if "a \<in> cells_of h x" for a
    using that assms by (auto simp: nth_append subset_iff)
  then show "val (h @ added) x = val h x" "cells_of (h @ added) x = cells_of h x"
    using local [of h x "h @ added"] by simp_all
qed

text \<open>The object and its copy have no cell in common, and neither sees what is written through the
  other.\<close>

lemma isolated:
  assumes "cells_of h x \<subseteq> {..<length h}" and "run_state (into x) h = (y, h')"
  shows "val h' y = val h x" and "val h' x = val h x" and "cells_of h' x \<inter> cells_of h' y = {}"
    and "(\<And>a. a \<notin> cells_of h' y \<Longrightarrow> h2 ! a = h' ! a) \<Longrightarrow> val h2 x = val h x"
    and "(\<And>a. a \<notin> cells_of h' x \<Longrightarrow> h2 ! a = h' ! a) \<Longrightarrow> val h2 y = val h x"
proof -
  obtain added where y: "h' = h @ added" "val h' y = val h x" "cells_of h' y \<subseteq> {length h..<length h'}"
    using copies [OF assms] by blast
  show vals: "val h' y = val h x" "val h' x = val h x" using y kept [OF assms(1)] by simp_all
  show apart: "cells_of h' x \<inter> cells_of h' y = {}"
    using y(3) kept(2) [OF assms(1), of added] assms(1) by (fastforce simp: y(1))
  show "val h2 x = val h x" if "\<And>a. a \<notin> cells_of h' y \<Longrightarrow> h2 ! a = h' ! a"
    using local [of h' x h2] that apart vals by (metis disjoint_iff)
  show "val h2 y = val h x" if "\<And>a. a \<notin> cells_of h' x \<Longrightarrow> h2 ! a = h' ! a"
    using local [of h' y h2] that apart vals by (metis disjoint_iff)
qed

end

text \<open>Values and footprints of slices, maps and pointers; a nil slice or map is read as an empty one.\<close>

definition slice_val :: "(cell \<Rightarrow> 'a list) \<Rightarrow> (cells \<Rightarrow> 'a \<Rightarrow> 'v) \<Rightarrow> cells \<Rightarrow> slice_ref \<Rightarrow> 'v list" where
  "slice_val unwrap val h s = (case s of None \<Rightarrow> [] | Some (a, n) \<Rightarrow> map (val h) (take n (unwrap (h ! a))))"

definition slice_cells :: "(cell \<Rightarrow> 'a list) \<Rightarrow> (cells \<Rightarrow> 'a \<Rightarrow> nat set) \<Rightarrow> cells \<Rightarrow> slice_ref \<Rightarrow> nat set" where
  "slice_cells unwrap cells_of h s =
     (case s of None \<Rightarrow> {} | Some (a, n) \<Rightarrow> insert a (\<Union>x \<in> set (take n (unwrap (h ! a))). cells_of h x))"

definition ref_val :: "(cell \<Rightarrow> 'a list) \<Rightarrow> (cells \<Rightarrow> 'a \<Rightarrow> 'v) \<Rightarrow> cells \<Rightarrow> ref \<Rightarrow> 'v option" where
  "ref_val unwrap val h r = map_option (\<lambda>a. val h (hd (unwrap (h ! a)))) r"

definition ref_cells :: "(cell \<Rightarrow> 'a list) \<Rightarrow> (cells \<Rightarrow> 'a \<Rightarrow> nat set) \<Rightarrow> cells \<Rightarrow> ref \<Rightarrow> nat set" where
  "ref_cells unwrap cells_of h r =
     (case r of None \<Rightarrow> {} | Some a \<Rightarrow> insert a (cells_of h (hd (unwrap (h ! a)))))"

definition map_val :: "(cell \<Rightarrow> 'a list) \<Rightarrow> cells \<Rightarrow> ref \<Rightarrow> 'a list" where
  "map_val unwrap h r = (case r of None \<Rightarrow> [] | Some a \<Rightarrow> unwrap (h ! a))"

definition map_cells :: "cells \<Rightarrow> ref \<Rightarrow> nat set" where
  "map_cells h r = (case r of None \<Rightarrow> {} | Some a \<Rightarrow> {a})"

abbreviation flat :: "cells \<Rightarrow> 'a \<Rightarrow> 'a" where
  "flat h x \<equiv> x"

abbreviation no_cells :: "cells \<Rightarrow> 'a \<Rightarrow> nat set" where
  "no_cells h x \<equiv> {}"

lemma run_load [simp]: "run_state (load a) h = (h ! a, h)"
  by (simp add: load_def)

lemma run_alloc [simp]: "run_state (alloc c) h = (length h, h @ [c])"
  by (simp add: alloc_def)

text \<open>A flat struct is copied by assignment.\<close>

lemma flat_copy: "deep_copy flat no_cells State_Monad.return"
  by unfold_locales auto

lemma map_copy: "deep_copy (map_val unwrap) map_cells copy_map"
  by unfold_locales (auto simp: map_val_def map_cells_def copy_map_def split: option.splits)

text \<open>A slice, a pointer and an array of what can be copied can be copied.\<close>

context deep_copy
begin

lemma traverse_copies:
  "\<forall>x \<in> set xs. cells_of h x \<subseteq> {..<length h} \<Longrightarrow> run_state (State_Monad.traverse_list into xs) h = (ys, h')
    \<Longrightarrow> (\<exists>added. h' = h @ added) \<and> map (val h') ys = map (val h) xs
      \<and> (\<Union>y \<in> set ys. cells_of h' y) \<subseteq> {length h..<length h'}"
proof (induction xs arbitrary: h ys h')
  case (Cons x xs)
  obtain y h1 where y: "run_state (into x) h = (y, h1)" by fastforce
  obtain zs h2 where zs: "run_state (State_Monad.traverse_list into xs) h1 = (zs, h2)" by fastforce
  have ys: "ys = y # zs" "h' = h2" using Cons.prems(2) y zs by simp_all
  obtain m1 where m1: "h1 = h @ m1" "val h1 y = val h x" "cells_of h1 y \<subseteq> {length h..<length h1}"
    using copies [OF _ y] Cons.prems(1) by auto
  have xs: "\<forall>x \<in> set xs. cells_of h1 x \<subseteq> {..<length h1} \<and> val h1 x = val h x"
    using Cons.prems(1) kept [of h _ m1] by (fastforce simp: m1(1))
  then obtain m2 where m2: "h2 = h1 @ m2" "map (val h2) zs = map (val h1) xs"
      "(\<Union>z \<in> set zs. cells_of h2 z) \<subseteq> {length h1..<length h2}"
    using Cons.IH [OF _ zs] by auto
  have "cells_of h1 y \<subseteq> {..<length h1}" using m1(3) by auto
  from kept [OF this, of m2] m1 m2 xs show ?case by (auto simp: ys)
qed simp

lemma slice_copy:
  assumes "\<And>xs. unwrap (wrap xs) = xs"
  shows "deep_copy (slice_val unwrap val) (slice_cells unwrap cells_of) (copy_slice wrap unwrap into)"
proof
  fix h h' s
  assume same: "\<And>a. a \<in> slice_cells unwrap cells_of h s \<Longrightarrow> h' ! a = h ! a"
  show "slice_val unwrap val h' s = slice_val unwrap val h s \<and> slice_cells unwrap cells_of h' s = slice_cells unwrap cells_of h s"
  proof (cases s)
    case (Some an)
    obtain a n where an: "an = (a, n)" by (cases an)
    have "h' ! a = h ! a" using same by (simp add: Some an slice_cells_def)
    moreover have "val h' x = val h x \<and> cells_of h' x = cells_of h x" if "x \<in> set (take n (unwrap (h ! a)))" for x
      using that same by (intro local) (auto simp: Some an slice_cells_def)
    ultimately show ?thesis by (auto simp: Some an slice_val_def slice_cells_def)
  qed (simp add: slice_val_def slice_cells_def)
next
  fix h s t h'
  assume sub: "slice_cells unwrap cells_of h s \<subseteq> {..<length h}"
    and t: "run_state (copy_slice wrap unwrap into s) h = (t, h')"
  show "(\<exists>added. h' = h @ added) \<and> slice_val unwrap val h' t = slice_val unwrap val h s
      \<and> slice_cells unwrap cells_of h' t \<subseteq> {length h..<length h'}"
  proof (cases s)
    case (Some an)
    obtain a n where an: "an = (a, n)" by (cases an)
    obtain xs h1 where xs: "run_state (State_Monad.traverse_list into (take n (unwrap (h ! a)))) h = (xs, h1)" by fastforce
    have th': "t = Some (length h1, n)" "h' = h1 @ [wrap xs]" using t xs by (simp_all add: copy_slice_def Some an)
    have "\<forall>x \<in> set (take n (unwrap (h ! a))). cells_of h x \<subseteq> {..<length h}"
      using sub by (auto simp: Some an slice_cells_def)
    from traverse_copies [OF this xs] obtain added where m: "h1 = h @ added"
      "map (val h1) xs = map (val h) (take n (unwrap (h ! a)))" "(\<Union>y \<in> set xs. cells_of h1 y) \<subseteq> {length h..<length h1}"
      by blast
    have len: "length xs \<le> n" using arg_cong [OF m(2), of length] by simp
    have "\<forall>y \<in> set xs. cells_of h1 y \<subseteq> {..<length h1}" using m(3) by fastforce
    then have "\<forall>y \<in> set xs. val h' y = val h1 y \<and> cells_of h' y = cells_of h1 y" using kept by (simp add: th'(2))
    with m len show ?thesis
      by (auto simp: th' Some an slice_val_def slice_cells_def assms nth_append cong: map_cong)
  qed (use t in \<open>auto simp: copy_slice_def slice_val_def slice_cells_def\<close>)
qed

lemma pointer_copy:
  assumes "\<And>x. unwrap (wrap [x]) = [x]"
  shows "deep_copy (ref_val unwrap val) (ref_cells unwrap cells_of) (DeepCopy wrap unwrap into)"
proof
  fix h h' r
  assume same: "\<And>a. a \<in> ref_cells unwrap cells_of h r \<Longrightarrow> h' ! a = h ! a"
  show "ref_val unwrap val h' r = ref_val unwrap val h r \<and> ref_cells unwrap cells_of h' r = ref_cells unwrap cells_of h r"
  proof (cases r)
    case (Some a)
    let ?x = "hd (unwrap (h ! a))"
    have "h' ! a = h ! a" using same by (simp add: Some ref_cells_def)
    moreover have "val h' ?x = val h ?x \<and> cells_of h' ?x = cells_of h ?x"
      using same by (intro local) (auto simp: Some ref_cells_def)
    ultimately show ?thesis by (simp add: Some ref_val_def ref_cells_def)
  qed (simp add: ref_val_def ref_cells_def)
next
  fix h r t h'
  assume sub: "ref_cells unwrap cells_of h r \<subseteq> {..<length h}"
    and t: "run_state (DeepCopy wrap unwrap into r) h = (t, h')"
  show "(\<exists>added. h' = h @ added) \<and> ref_val unwrap val h' t = ref_val unwrap val h r
      \<and> ref_cells unwrap cells_of h' t \<subseteq> {length h..<length h'}"
  proof (cases r)
    case (Some a)
    let ?x = "hd (unwrap (h ! a))"
    obtain y h1 where y: "run_state (into ?x) h = (y, h1)" by fastforce
    have th': "t = Some (length h1)" "h' = h1 @ [wrap [y]]" using t y by (simp_all add: DeepCopy_def Some)
    have "cells_of h ?x \<subseteq> {..<length h}" using sub by (auto simp: Some ref_cells_def)
    from copies [OF this y] obtain added where m: "h1 = h @ added" "val h1 y = val h ?x"
      "cells_of h1 y \<subseteq> {length h..<length h1}" by blast
    have "cells_of h1 y \<subseteq> {..<length h1}" using m(3) by auto
    from kept [OF this, of "[wrap [y]]"] m show ?thesis
      by (auto simp: th' Some ref_val_def ref_cells_def assms)
  qed (use t in \<open>auto simp: DeepCopy_def ref_val_def ref_cells_def\<close>)
qed

text \<open>A struct is copied by assignment and then copies of the fields with references.\<close>

lemma struct_copy:
  assumes "\<And>a s. get (put a s) = a" and "\<And>a s w. build (put a s) w = build s w"
  shows "deep_copy (\<lambda>h s. build s (val h (get s))) (\<lambda>h s. cells_of h (get s))
     (\<lambda>s. do { a \<leftarrow> into (get s); State_Monad.return (put a s) })"
proof
  fix h h' s
  assume "\<And>a. a \<in> cells_of h (get s) \<Longrightarrow> h' ! a = h ! a"
  from local [OF this] show "build s (val h' (get s)) = build s (val h (get s)) \<and> cells_of h' (get s) = cells_of h (get s)"
    by simp
next
  fix h s t h'
  assume sub: "cells_of h (get s) \<subseteq> {..<length h}"
    and "run_state (do { a \<leftarrow> into (get s); State_Monad.return (put a s) }) h = (t, h')"
  then obtain y where "run_state (into (get s)) h = (y, h')" "t = put y s" by (auto split: prod.splits)
  with copies [OF sub] assms
  show "(\<exists>added. h' = h @ added) \<and> build t (val h' (get t)) = build s (val h (get s))
      \<and> cells_of h' (get t) \<subseteq> {length h..<length h'}" by simp
qed

end

definition both :: "('a \<Rightarrow> (cells, 'a) state) \<Rightarrow> ('b \<Rightarrow> (cells, 'b) state) \<Rightarrow> 'a \<times> 'b \<Rightarrow> (cells, 'a \<times> 'b) state" where
  "both f g = (\<lambda>(x, y). do { x' \<leftarrow> f x; y' \<leftarrow> g y; State_Monad.return (x', y') })"

lemma both_copy:
  assumes f: "deep_copy v c f" and g: "deep_copy w d g"
  shows "deep_copy (\<lambda>h (x, y). (v h x, w h y)) (\<lambda>h (x, y). c h x \<union> d h y) (both f g)"
proof
  fix h h' and xy :: "'a \<times> 'c"
  assume same: "\<And>a. a \<in> (case xy of (x, y) \<Rightarrow> c h x \<union> d h y) \<Longrightarrow> h' ! a = h ! a"
  show "(case xy of (x, y) \<Rightarrow> (v h' x, w h' y)) = (case xy of (x, y) \<Rightarrow> (v h x, w h y))
      \<and> (case xy of (x, y) \<Rightarrow> c h' x \<union> d h' y) = (case xy of (x, y) \<Rightarrow> c h x \<union> d h y)"
    using deep_copy.local [OF f, of h "fst xy" h'] deep_copy.local [OF g, of h "snd xy" h'] same
    by (simp add: split_def)
next
  fix h h' and xy zz :: "'a \<times> 'c"
  obtain x y where xy: "xy = (x, y)" by (cases xy)
  assume sub: "(case xy of (x, y) \<Rightarrow> c h x \<union> d h y) \<subseteq> {..<length h}" and run: "run_state (both f g xy) h = (zz, h')"
  obtain x' h1 where x': "run_state (f x) h = (x', h1)" by fastforce
  obtain y' h2 where y': "run_state (g y) h1 = (y', h2)" by fastforce
  have zz: "zz = (x', y')" "h' = h2" using run x' y' by (simp_all add: both_def xy)
  obtain m1 where m1: "h1 = h @ m1" "v h1 x' = v h x" "c h1 x' \<subseteq> {length h..<length h1}"
    using deep_copy.copies [OF f _ x'] sub by (auto simp: xy)
  have y1: "w h1 y = w h y" "d h1 y \<subseteq> {..<length h1}"
    using deep_copy.kept [OF g, of h y m1] sub by (auto simp: xy m1(1))
  obtain m2 where m2: "h2 = h1 @ m2" "w h2 y' = w h1 y" "d h2 y' \<subseteq> {length h1..<length h2}"
    using deep_copy.copies [OF g y1(2) y'] by auto
  have "c h1 x' \<subseteq> {..<length h1}" using m1(3) by auto
  from deep_copy.kept [OF f this, of m2] m1 m2 y1
  show "(\<exists>added. h' = h @ added) \<and> (case zz of (x, y) \<Rightarrow> (v h' x, w h' y)) = (case xy of (x, y) \<Rightarrow> (v h x, w h y))
      \<and> (case zz of (x, y) \<Rightarrow> c h' x \<union> d h' y) \<subseteq> {length h..<length h'}"
    by (auto simp: zz xy)
qed

section \<open>The values of the objects\<close>

definition metric_val :: "cells \<Rightarrow> p_metric \<Rightarrow> metric" where
  "metric_val h x =
     \<lparr>mt_Labels = slice_val labels_in flat h (pm_Labels x), mt_Value = pm_Value x, mt_Resolver = pm_Resolver x\<rparr>"

definition metric_cells :: "cells \<Rightarrow> p_metric \<Rightarrow> nat set" where
  "metric_cells h x = slice_cells labels_in no_cells h (pm_Labels x)"

definition family_val :: "cells \<Rightarrow> p_family \<Rightarrow> family_spec" where
  "family_val h x =
     \<lparr>fs_Name = pf_Name x, fs_Help = pf_Help x, fs_Metrics = slice_val metrics_in metric_val h (pf_Metrics x),
      fs_Starlark = ref_val scripts_in flat h (pf_Starlark x), fs_Resolver = pf_Resolver x,
      fs_Labels = slice_val labels_in flat h (pf_Labels x), fs_CardinalityLimit = pf_CardinalityLimit x\<rparr>"

definition family_cells :: "cells \<Rightarrow> p_family \<Rightarrow> nat set" where
  "family_cells h x = slice_cells metrics_in metric_cells h (pf_Metrics x)
     \<union> (ref_cells scripts_in no_cells h (pf_Starlark x) \<union> slice_cells labels_in no_cells h (pf_Labels x))"

definition store_val :: "cells \<Rightarrow> p_store \<Rightarrow> store_spec" where
  "store_val h x =
     \<lparr>ss_Group = ps_Group x, ss_Version = ps_Version x, ss_Kind = ps_Kind x, ss_Resource = ps_Resource x,
      ss_Selectors = ps_Selectors x, ss_Families = slice_val families_in family_val h (ps_Families x),
      ss_Resolver = ps_Resolver x, ss_Labels = slice_val labels_in flat h (ps_Labels x),
      ss_CardinalityLimit = ps_CardinalityLimit x\<rparr>"

definition store_cells :: "cells \<Rightarrow> p_store \<Rightarrow> nat set" where
  "store_cells h x = slice_cells families_in family_cells h (ps_Families x) \<union> slice_cells labels_in no_cells h (ps_Labels x)"

definition configuration_val :: "cells \<Rightarrow> p_configuration \<Rightarrow> configuration" where
  "configuration_val h x =
     \<lparr>cf_Stores = slice_val stores_in store_val h (pc_Stores x), cf_CardinalityLimit = pc_CardinalityLimit x\<rparr>"

definition configuration_cells :: "cells \<Rightarrow> p_configuration \<Rightarrow> nat set" where
  "configuration_cells h x = slice_cells stores_in store_cells h (pc_Stores x)"

definition spec_val :: "cells \<Rightarrow> p_spec \<Rightarrow> configuration" where
  "spec_val h x = configuration_val h (pe_Configuration x)"

definition spec_cells :: "cells \<Rightarrow> p_spec \<Rightarrow> nat set" where
  "spec_cells h x = configuration_cells h (pe_Configuration x)"

definition cardinality_val :: "cells \<Rightarrow> p_cardinality \<Rightarrow> cardinality_status" where
  "cardinality_val h x =
     \<lparr>cs_Total = pn_Total x, cs_PerStore = map_val counts_in h (pn_PerStore x),
      cs_PerFamily = map_val counts_in h (pn_PerFamily x), cs_ThresholdsExceeded = pn_ThresholdsExceeded x,
      cs_CutoffFamilies = slice_val strings_in flat h (pn_CutoffFamilies x), cs_LastUpdated = pn_LastUpdated x\<rparr>"

definition cardinality_cells :: "cells \<Rightarrow> p_cardinality \<Rightarrow> nat set" where
  "cardinality_cells h x = map_cells h (pn_PerStore x)
     \<union> (map_cells h (pn_PerFamily x) \<union> (slice_cells strings_in no_cells h (pn_CutoffFamilies x) \<union> {}))"

definition status_val :: "cells \<Rightarrow> p_status \<Rightarrow> rmm_status" where
  "status_val h x =
     \<lparr>st_Conditions = slice_val conditions_in flat h (pt_Conditions x),
      st_Cardinality = ref_val cardinalities_in cardinality_val h (pt_Cardinality x)\<rparr>"

definition status_cells :: "cells \<Rightarrow> p_status \<Rightarrow> nat set" where
  "status_cells h x = slice_cells conditions_in no_cells h (pt_Conditions x)
     \<union> ref_cells cardinalities_in cardinality_cells h (pt_Cardinality x)"

definition meta_val :: "cells \<Rightarrow> p_meta \<Rightarrow> p_meta \<times> (string, string) gomap" where
  "meta_val h x = (x\<lparr>po_Labels := None\<rparr>, map_val pairs_in h (po_Labels x))"

definition meta_cells :: "cells \<Rightarrow> p_meta \<Rightarrow> nat set" where
  "meta_cells h x = map_cells h (po_Labels x)"

definition monitor_of :: "p_meta \<times> (string, string) gomap \<Rightarrow> configuration \<Rightarrow> rmm_status \<Rightarrow> monitor" where
  "monitor_of = (\<lambda>(m, labels) spec status.
     \<lparr>rmm_Namespace = po_Namespace m, rmm_Name = po_Name m, rmm_UID = po_UID m, rmm_Generation = po_Generation m,
      rmm_ResourceVersion = po_ResourceVersion m, rmm_Labels = labels, rmm_Spec = spec, rmm_Status = status\<rparr>)"

definition monitor_val :: "cells \<Rightarrow> p_monitor \<Rightarrow> (string \<times> string) \<times> monitor" where
  "monitor_val h x =
     (pg_TypeMeta x, monitor_of (meta_val h (pg_ObjectMeta x)) (spec_val h (pg_Spec x)) (status_val h (pg_Status x)))"

definition monitor_cells :: "cells \<Rightarrow> p_monitor \<Rightarrow> nat set" where
  "monitor_cells h x = meta_cells h (pg_ObjectMeta x) \<union> (spec_cells h (pg_Spec x) \<union> status_cells h (pg_Status x))"

definition list_val :: "cells \<Rightarrow> p_list \<Rightarrow> (string \<times> string) \<times> string \<times> ((string \<times> string) \<times> monitor) list" where
  "list_val h x = (pl_TypeMeta x, pl_ListMeta x, slice_val monitors_in monitor_val h (pl_Items x))"

definition list_cells :: "cells \<Rightarrow> p_list \<Rightarrow> nat set" where
  "list_cells h x = {} \<union> slice_cells monitors_in monitor_cells h (pl_Items x)"

section \<open>Every type can be copied\<close>

interpretation count_map: deep_copy "map_val counts_in" map_cells copy_map
  by (rule map_copy)

interpretation label_slice: deep_copy "slice_val labels_in flat" "slice_cells labels_in no_cells" "copy_slice Labels labels_in State_Monad.return"
  by (rule deep_copy.slice_copy [OF flat_copy]) simp

interpretation script_pointer: deep_copy "ref_val scripts_in flat" "ref_cells scripts_in no_cells" "DeepCopy Scripts scripts_in State_Monad.return"
  by (rule deep_copy.pointer_copy [OF flat_copy]) simp

interpretation string_slice: deep_copy "slice_val strings_in flat" "slice_cells strings_in no_cells" "copy_slice Strings strings_in State_Monad.return"
  by (rule deep_copy.slice_copy [OF flat_copy]) simp

interpretation metric_copy: deep_copy metric_val metric_cells Metric_DeepCopyInto
  using label_slice.struct_copy [of pm_Labels "\<lambda>a x. x\<lparr>pm_Labels := a\<rparr>"
    "\<lambda>x w. \<lparr>mt_Labels = w, mt_Value = pm_Value x, mt_Resolver = pm_Resolver x\<rparr>"]
  by (simp add: metric_val_def [abs_def] metric_cells_def [abs_def] Metric_DeepCopyInto_def [abs_def])

interpretation metric_slice: deep_copy "slice_val metrics_in metric_val" "slice_cells metrics_in metric_cells" "copy_slice Metrics metrics_in Metric_DeepCopyInto"
  by (rule metric_copy.slice_copy) simp

interpretation family_copy: deep_copy family_val family_cells Family_DeepCopyInto
  using deep_copy.struct_copy [OF both_copy [OF metric_slice.deep_copy_axioms both_copy [OF script_pointer.deep_copy_axioms label_slice.deep_copy_axioms]],
    of "\<lambda>x. (pf_Metrics x, pf_Starlark x, pf_Labels x)" "\<lambda>(ms, sk, ls) x. x\<lparr>pf_Metrics := ms, pf_Starlark := sk, pf_Labels := ls\<rparr>"
      "\<lambda>x (ms, sk, ls). \<lparr>fs_Name = pf_Name x, fs_Help = pf_Help x, fs_Metrics = ms, fs_Starlark = sk, fs_Resolver = pf_Resolver x,
         fs_Labels = ls, fs_CardinalityLimit = pf_CardinalityLimit x\<rparr>"]
  by (simp add: family_val_def [abs_def] family_cells_def [abs_def] Family_DeepCopyInto_def [abs_def] both_def split_def)

interpretation family_slice: deep_copy "slice_val families_in family_val" "slice_cells families_in family_cells" "copy_slice Families families_in Family_DeepCopyInto"
  by (rule family_copy.slice_copy) simp

interpretation store_copy: deep_copy store_val store_cells Store_DeepCopyInto
  using deep_copy.struct_copy [OF both_copy [OF family_slice.deep_copy_axioms label_slice.deep_copy_axioms],
    of "\<lambda>x. (ps_Families x, ps_Labels x)" "\<lambda>(fs, ls) x. x\<lparr>ps_Families := fs, ps_Labels := ls\<rparr>"
      "\<lambda>x (fs, ls). \<lparr>ss_Group = ps_Group x, ss_Version = ps_Version x, ss_Kind = ps_Kind x, ss_Resource = ps_Resource x,
         ss_Selectors = ps_Selectors x, ss_Families = fs, ss_Resolver = ps_Resolver x, ss_Labels = ls,
         ss_CardinalityLimit = ps_CardinalityLimit x\<rparr>"]
  by (simp add: store_val_def [abs_def] store_cells_def [abs_def] Store_DeepCopyInto_def [abs_def] both_def split_def)

interpretation store_slice: deep_copy "slice_val stores_in store_val" "slice_cells stores_in store_cells" "copy_slice StoreArray stores_in Store_DeepCopyInto"
  by (rule store_copy.slice_copy) simp

interpretation configuration_copy: deep_copy configuration_val configuration_cells Configuration_DeepCopyInto
  using store_slice.struct_copy [of pc_Stores "\<lambda>a x. x\<lparr>pc_Stores := a\<rparr>"
    "\<lambda>x w. \<lparr>cf_Stores = w, cf_CardinalityLimit = pc_CardinalityLimit x\<rparr>"]
  by (simp add: configuration_val_def [abs_def] configuration_cells_def [abs_def] Configuration_DeepCopyInto_def [abs_def])

interpretation spec_copy: deep_copy spec_val spec_cells Spec_DeepCopyInto
  using configuration_copy.struct_copy [of pe_Configuration "\<lambda>a x. x\<lparr>pe_Configuration := a\<rparr>" "\<lambda>x w. w"]
  by (simp add: spec_val_def [abs_def] spec_cells_def [abs_def] Spec_DeepCopyInto_def [abs_def])

text \<open>What apimachinery documents of its own copies.\<close>

definition copy_laws :: "copy_lib \<Rightarrow> bool" where
  "copy_laws lib \<longleftrightarrow> deep_copy meta_val meta_cells (cl_ObjectMeta lib) \<and> deep_copy flat no_cells (cl_ListMeta lib)
     \<and> deep_copy flat no_cells (cl_Condition lib) \<and> deep_copy flat no_cells (cl_Time lib)"

lemma cardinality_copy:
  assumes "copy_laws lib"
  shows "deep_copy cardinality_val cardinality_cells (CardinalityStatus_DeepCopyInto lib)"
proof -
  have time: "deep_copy flat no_cells (cl_Time lib)" using assms by (simp add: copy_laws_def)
  show ?thesis
    using deep_copy.struct_copy [OF both_copy [OF count_map.deep_copy_axioms both_copy [OF count_map.deep_copy_axioms
        both_copy [OF string_slice.deep_copy_axioms time]]],
      of "\<lambda>x. (pn_PerStore x, pn_PerFamily x, pn_CutoffFamilies x, pn_LastUpdated x)"
        "\<lambda>(ps, pf, cf, t) x. x\<lparr>pn_PerStore := ps, pn_PerFamily := pf, pn_CutoffFamilies := cf, pn_LastUpdated := t\<rparr>"
        "\<lambda>x (ps, pf, cf, t). \<lparr>cs_Total = pn_Total x, cs_PerStore = ps, cs_PerFamily = pf,
           cs_ThresholdsExceeded = pn_ThresholdsExceeded x, cs_CutoffFamilies = cf, cs_LastUpdated = t\<rparr>"]
    by (simp add: cardinality_val_def [abs_def] cardinality_cells_def [abs_def] CardinalityStatus_DeepCopyInto_def [abs_def] both_def split_def)
qed

lemma status_copy:
  assumes "copy_laws lib"
  shows "deep_copy status_val status_cells (Status_DeepCopyInto lib)"
proof -
  have "deep_copy (slice_val conditions_in flat) (slice_cells conditions_in no_cells) (copy_slice Conditions conditions_in (cl_Condition lib))"
    by (rule deep_copy.slice_copy) (use assms in \<open>simp_all add: copy_laws_def\<close>)
  moreover have "deep_copy (ref_val cardinalities_in cardinality_val) (ref_cells cardinalities_in cardinality_cells)
      (DeepCopy Cardinalities cardinalities_in (CardinalityStatus_DeepCopyInto lib))"
    by (rule deep_copy.pointer_copy [OF cardinality_copy [OF assms]]) simp
  ultimately show ?thesis
    using deep_copy.struct_copy [OF both_copy, of "slice_val conditions_in flat" "slice_cells conditions_in no_cells"
        "copy_slice Conditions conditions_in (cl_Condition lib)" "ref_val cardinalities_in cardinality_val"
        "ref_cells cardinalities_in cardinality_cells" "DeepCopy Cardinalities cardinalities_in (CardinalityStatus_DeepCopyInto lib)"
        "\<lambda>x. (pt_Conditions x, pt_Cardinality x)" "\<lambda>(cs, c) x. x\<lparr>pt_Conditions := cs, pt_Cardinality := c\<rparr>"
        "\<lambda>x (cs, c). \<lparr>st_Conditions = cs, st_Cardinality = c\<rparr>"]
    by (simp add: status_val_def [abs_def] status_cells_def [abs_def] Status_DeepCopyInto_def [abs_def] both_def split_def)
qed

lemma monitor_copy:
  assumes "copy_laws lib"
  shows "deep_copy monitor_val monitor_cells (Monitor_DeepCopyInto lib)"
proof -
  have meta: "deep_copy meta_val meta_cells (cl_ObjectMeta lib)" using assms by (simp add: copy_laws_def)
  show ?thesis
    using deep_copy.struct_copy [OF both_copy [OF meta both_copy [OF spec_copy.deep_copy_axioms status_copy [OF assms]]],
      of "\<lambda>x. (pg_ObjectMeta x, pg_Spec x, pg_Status x)" "\<lambda>(m, sp, st) x. x\<lparr>pg_ObjectMeta := m, pg_Spec := sp, pg_Status := st\<rparr>"
        "\<lambda>x (m, sp, st). (pg_TypeMeta x, monitor_of m sp st)"]
    by (simp add: monitor_val_def [abs_def] monitor_cells_def [abs_def] Monitor_DeepCopyInto_def [abs_def] both_def split_def)
qed

lemma list_copy:
  assumes "copy_laws lib"
  shows "deep_copy list_val list_cells (List_DeepCopyInto lib)"
proof -
  have meta: "deep_copy flat no_cells (cl_ListMeta lib)" using assms by (simp add: copy_laws_def)
  have items: "deep_copy (slice_val monitors_in monitor_val) (slice_cells monitors_in monitor_cells)
      (copy_slice Monitors monitors_in (Monitor_DeepCopyInto lib))"
    by (rule deep_copy.slice_copy [OF monitor_copy [OF assms]]) simp
  show ?thesis
    using deep_copy.struct_copy [OF both_copy [OF meta items],
      of "\<lambda>x. (pl_ListMeta x, pl_Items x)" "\<lambda>(m, is) x. x\<lparr>pl_ListMeta := m, pl_Items := is\<rparr>"
        "\<lambda>x (m, is). (pl_TypeMeta x, m, is)"]
    by (simp add: list_val_def [abs_def] list_cells_def [abs_def] List_DeepCopyInto_def [abs_def] both_def split_def)
qed

section \<open>Properties\<close>

abbreviation monitor_at :: "cells \<Rightarrow> ref \<Rightarrow> ((string \<times> string) \<times> monitor) option" where
  "monitor_at \<equiv> ref_val monitors_in monitor_val"

abbreviation monitor_cells_at :: "cells \<Rightarrow> ref \<Rightarrow> nat set" where
  "monitor_cells_at \<equiv> ref_cells monitors_in monitor_cells"

text \<open>C22: deep copies are equal and separate. \<open>DeepCopyObject\<close> of a monitor in a heap returns a
  pointer to an equal monitor, and the nil interface for nil; nothing that was there is changed. The monitor and
  its copy have no cell in common: whatever is written to the cells of the copy leaves the value of
  the monitor, and whatever is written to those of the monitor leaves the value of the copy.\<close>

theorem deep_copy_isolated:
  assumes "copy_laws lib" and "monitor_cells_at h r \<subseteq> {..<length h}"
    and "run_state (Monitor_DeepCopyObject lib r) h = (y, h')"
  shows "\<exists>c. y = (if r = None then NilInterface else Holding c) \<and> (c = None \<longleftrightarrow> r = None)
     \<and> take (length h) h' = h \<and> monitor_at h' c = monitor_at h r
     \<and> monitor_cells_at h' r \<inter> monitor_cells_at h' c = {}
     \<and> (\<forall>h2. (\<forall>a. a \<notin> monitor_cells_at h' c \<longrightarrow> h2 ! a = h' ! a) \<longrightarrow> monitor_at h2 r = monitor_at h r)
     \<and> (\<forall>h2. (\<forall>a. a \<notin> monitor_cells_at h' r \<longrightarrow> h2 ! a = h' ! a) \<longrightarrow> monitor_at h2 c = monitor_at h r)"
proof -
  have pointer: "deep_copy monitor_at monitor_cells_at (Monitor_DeepCopy lib)"
    unfolding Monitor_DeepCopy_def by (rule deep_copy.pointer_copy [OF monitor_copy [OF assms(1)]]) simp
  obtain c where c: "run_state (Monitor_DeepCopy lib r) h = (c, h')" "y = (if c \<noteq> None then Holding c else NilInterface)"
    using assms(3) by (auto simp: Monitor_DeepCopyObject_def split: prod.splits)
  have nil: "c = None \<longleftrightarrow> r = None"
    using c(1) by (auto simp: Monitor_DeepCopy_def DeepCopy_def split: option.splits prod.splits)
  have "take (length h) h' = h" using deep_copy.copies [OF pointer assms(2) c(1)] by auto
  with nil c(2) show ?thesis
    using deep_copy.isolated [OF pointer assms(2) c(1)] by (intro exI [of _ c] conjI) auto
qed

definition demo_copy_lib :: copy_lib where
  "demo_copy_lib = \<lparr>cl_ObjectMeta = (\<lambda>x. do { ls \<leftarrow> copy_map (po_Labels x); State_Monad.return (x\<lparr>po_Labels := ls\<rparr>) }),
     cl_ListMeta = State_Monad.return, cl_Condition = State_Monad.return, cl_Time = State_Monad.return\<rparr>"

lemma demo_copy_laws: "copy_laws demo_copy_lib"
  using deep_copy.struct_copy [OF map_copy, of po_Labels "\<lambda>a x. x\<lparr>po_Labels := a\<rparr>" "\<lambda>x w. (x\<lparr>po_Labels := None\<rparr>, w)" pairs_in]
  by (simp add: copy_laws_def demo_copy_lib_def flat_copy meta_val_def [abs_def] meta_cells_def [abs_def])

text \<open>A monitor with a label and a store with a label; the copy is then overwritten.\<close>

theorem deep_copy_isolated_witness:
  "\<exists>h c h'. run_state (Monitor_DeepCopyObject demo_copy_lib (Some 3)) h = (Holding (Some c), h') \<and> length h = 4
     \<and> monitor_at h (Some 3) \<noteq> None \<and> monitor_at h' (Some c) = monitor_at h (Some 3)
     \<and> monitor_at (h'[c := Monitors []]) (Some 3) = monitor_at h (Some 3)"
proof -
  let ?store = "\<lparr>ps_Group = [], ps_Version = ''v1'', ps_Kind = ''Pod'', ps_Resource = ''pods'', ps_Selectors = \<lparr>sel_Label = [], sel_Field = []\<rparr>,
    ps_Families = None, ps_Resolver = ResolverTypeNone, ps_Labels = Some (1, 1), ps_CardinalityLimit = 0\<rparr>"
  let ?monitor = "\<lparr>pg_TypeMeta = ([], []), pg_ObjectMeta = \<lparr>po_Namespace = ''n'', po_Name = ''m'', po_UID = ''u'', po_Generation = 1,
      po_ResourceVersion = ''1'', po_Labels = Some 0\<rparr>,
    pg_Spec = \<lparr>pe_Configuration = \<lparr>pc_Stores = Some (2, 1), pc_CardinalityLimit = 0\<rparr>\<rparr>, pg_Status = \<lparr>pt_Conditions = None, pt_Cardinality = None\<rparr>\<rparr>"
  let ?h = "[StringPairs [(''a'', ''b'')], Labels [\<lparr>lb_Name = ''l'', lb_Value = ''v''\<rparr>], StoreArray [?store], Monitors [?monitor]]"
  have sub: "monitor_cells_at ?h (Some 3) \<subseteq> {..<length ?h}"
    by (auto simp: ref_cells_def monitor_cells_def meta_cells_def map_cells_def spec_cells_def configuration_cells_def
      slice_cells_def store_cells_def status_cells_def)
  obtain y h' where run: "run_state (Monitor_DeepCopyObject demo_copy_lib (Some 3)) ?h = (y, h')" by fastforce
  from deep_copy_isolated [OF demo_copy_laws sub run] obtain c where c: "y = Holding (Some c)"
      "monitor_at h' (Some c) = monitor_at ?h (Some 3)"
      "\<And>h2. (\<And>a. a \<notin> monitor_cells_at h' (Some c) \<Longrightarrow> h2 ! a = h' ! a) \<Longrightarrow> monitor_at h2 (Some 3) = monitor_at ?h (Some 3)"
    by (force simp: not_None_eq)
  have "monitor_at (h'[c := Monitors []]) (Some 3) = monitor_at ?h (Some 3)"
    by (rule c(3)) (auto simp: ref_cells_def nth_list_update)
  moreover have "length ?h = 4" "monitor_at ?h (Some 3) \<noteq> None" by (simp_all add: ref_val_def)
  ultimately show ?thesis using run c(1,2) by blast
qed

end
