(* ===== verification/Informer_Factory.thy ===== *)
theory Informer_Factory
  imports Reflector
begin

text \<open>
  The informer factory of \<open>pkg/generated/informers/externalversions\<close>, through which \<open>NewController\<close>
  and \<open>Run\<close> reach the informer of the monitors. Informers are pointers into a list of the informers
  made so far; what an informer does inside is client-go and is seen here as the list and watch functions,
  the handlers and the flag of \<open>HasSynced\<close>. A type stands for a \<open>reflect.Type\<close>, and a goroutine is an
  informer with the context it runs until.
\<close>

section \<open>Informers\<close>

record ('l, 'w) rsm_client =
  rl_List :: "string \<Rightarrow> list_options \<Rightarrow> 'l"
  rl_Watch :: "string \<Rightarrow> list_options \<Rightarrow> 'w"

type_synonym tweak = "(list_options \<Rightarrow> list_options) option"

record informer_options =
  io_ResyncPeriod :: int
  io_Indexers :: "string list"
  io_InformerName :: "string option"
  io_TweakListOptions :: tweak

record ('l, 'w, 'f) informer =
  in_List :: "list_options \<Rightarrow> 'l"
  in_Watch :: "list_options \<Rightarrow> 'w"
  in_ResyncPeriod :: int
  in_Indexers :: "string list"
  in_Identifier :: "string option \<times> string \<times> string \<times> string"
  in_transform :: "'f option"
  in_handlers :: "string list"
  in_synced :: bool

definition tweaked :: "tweak \<Rightarrow> list_options \<Rightarrow> list_options" where
  "tweaked tweakListOptions opts = (case tweakListOptions of None \<Rightarrow> opts | Some t \<Rightarrow> t opts)"

text \<open>The identifier of an informer is its name, if it has one, with the resource.\<close>

definition monitor_gvr :: "string \<times> string \<times> string" where
  "monitor_gvr = (''resource-state-metrics.instrumentation.k8s-sigs.io'', ''v1alpha1'', ''resourcemetricsmonitors'')"

definition NewTypedInformerWithOptions ::
    "('l, 'w) rsm_client \<Rightarrow> string \<Rightarrow> informer_options \<Rightarrow> ('l, 'w, 'f) informer" where
  "NewTypedInformerWithOptions client namespace options =
     \<lparr>in_List = (\<lambda>opts. rl_List client namespace (tweaked (io_TweakListOptions options) opts)),
      in_Watch = (\<lambda>opts. rl_Watch client namespace (tweaked (io_TweakListOptions options) opts)),
      in_ResyncPeriod = io_ResyncPeriod options, in_Indexers = io_Indexers options,
      in_Identifier = (io_InformerName options, monitor_gvr), in_transform = None, in_handlers = [], in_synced = False\<rparr>"

definition NewFilteredInformer ::
    "('l, 'w) rsm_client \<Rightarrow> string \<Rightarrow> int \<Rightarrow> string list \<Rightarrow> tweak \<Rightarrow> ('l, 'w, 'f) informer" where
  "NewFilteredInformer client namespace resyncPeriod indexers tweakListOptions =
     NewTypedInformerWithOptions client namespace
       \<lparr>io_ResyncPeriod = resyncPeriod, io_Indexers = indexers, io_InformerName = None, io_TweakListOptions = tweakListOptions\<rparr>"

definition NewInformer :: "('l, 'w) rsm_client \<Rightarrow> string \<Rightarrow> int \<Rightarrow> string list \<Rightarrow> ('l, 'w, 'f) informer" where
  "NewInformer client namespace resyncPeriod indexers =
     NewTypedInformerWithOptions client namespace
       \<lparr>io_ResyncPeriod = resyncPeriod, io_Indexers = indexers, io_InformerName = None, io_TweakListOptions = None\<rparr>"

section \<open>The factory\<close>

record ('l, 'w, 'f) factory =
  fa_client :: "('l, 'w) rsm_client"
  fa_namespace :: string
  fa_tweakListOptions :: tweak
  fa_defaultResync :: int
  fa_customResync :: "(string, int) gomap"
  fa_transform :: "'f option"
  fa_informerName :: "string option"
  fa_informers :: "(string, nat) gomap"
  fa_startedInformers :: "(string, bool) gomap"
  fa_wg :: nat
  fa_shuttingDown :: bool

type_synonym ('l, 'w, 'f) shared_informer_option = "('l, 'w, 'f) factory \<Rightarrow> ('l, 'w, 'f) factory"

definition WithCustomResyncConfig :: "(string, int) gomap \<Rightarrow> ('l, 'w, 'f) shared_informer_option" where
  "WithCustomResyncConfig resyncConfig f =
     f\<lparr>fa_customResync := fold (\<lambda>(k, v). gm_put k v) resyncConfig (fa_customResync f)\<rparr>"

definition WithTweakListOptions :: "tweak \<Rightarrow> ('l, 'w, 'f) shared_informer_option" where
  "WithTweakListOptions t f = f\<lparr>fa_tweakListOptions := t\<rparr>"

definition WithNamespace :: "string \<Rightarrow> ('l, 'w, 'f) shared_informer_option" where
  "WithNamespace ns f = f\<lparr>fa_namespace := ns\<rparr>"

definition WithTransform :: "'f option \<Rightarrow> ('l, 'w, 'f) shared_informer_option" where
  "WithTransform t f = f\<lparr>fa_transform := t\<rparr>"

definition WithInformerName :: "string option \<Rightarrow> ('l, 'w, 'f) shared_informer_option" where
  "WithInformerName n f = f\<lparr>fa_informerName := n\<rparr>"

definition NewSharedInformerFactoryWithOptions ::
    "('l, 'w) rsm_client \<Rightarrow> int \<Rightarrow> ('l, 'w, 'f) shared_informer_option list \<Rightarrow> ('l, 'w, 'f) factory" where
  "NewSharedInformerFactoryWithOptions client defaultResync options =
     fold (\<lambda>opt factory. opt factory) options
       \<lparr>fa_client = client, fa_namespace = [], fa_tweakListOptions = None, fa_defaultResync = defaultResync,
        fa_customResync = [], fa_transform = None, fa_informerName = None, fa_informers = [],
        fa_startedInformers = [], fa_wg = 0, fa_shuttingDown = False\<rparr>"

definition NewSharedInformerFactory :: "('l, 'w) rsm_client \<Rightarrow> int \<Rightarrow> ('l, 'w, 'f) factory" where
  "NewSharedInformerFactory client defaultResync = NewSharedInformerFactoryWithOptions client defaultResync []"

definition NewFilteredSharedInformerFactory ::
    "('l, 'w) rsm_client \<Rightarrow> int \<Rightarrow> string \<Rightarrow> tweak \<Rightarrow> ('l, 'w, 'f) factory" where
  "NewFilteredSharedInformerFactory client defaultResync namespace tweakListOptions =
     NewSharedInformerFactoryWithOptions client defaultResync [WithNamespace namespace, WithTweakListOptions tweakListOptions]"

text \<open>
  The factory with the informers made, the goroutines that run and all that were ever started,
  the contexts that are done, and the calls of \<open>Shutdown\<close> that wait and that returned.
\<close>

record ('l, 'w, 'f) world =
  wd_factory :: "('l, 'w, 'f) factory"
  wd_informers :: "('l, 'w, 'f) informer list"
  wd_running :: "(nat \<times> nat) list"
  wd_launched :: "(nat \<times> nat) list"
  wd_done :: "nat list"
  wd_waiting :: nat
  wd_returned :: nat

definition new_world :: "('l, 'w, 'f) factory \<Rightarrow> ('l, 'w, 'f) world" where
  "new_world f = \<lparr>wd_factory = f, wd_informers = [], wd_running = [], wd_launched = [], wd_done = [],
     wd_waiting = 0, wd_returned = 0\<rparr>"

definition InformerFor ::
    "string \<Rightarrow> (('l, 'w) rsm_client \<Rightarrow> int \<Rightarrow> ('l, 'w, 'f) informer) \<Rightarrow> ('l, 'w, 'f) world \<Rightarrow> nat \<times> ('l, 'w, 'f) world" where
  "InformerFor informerType newFunc w =
     (let f = wd_factory w in
      case map_of (fa_informers f) informerType of
        Some p \<Rightarrow> (p, w)
      | None \<Rightarrow>
          (let resyncPeriod = (case map_of (fa_customResync f) informerType of None \<Rightarrow> fa_defaultResync f | Some r \<Rightarrow> r);
               informer = newFunc (fa_client f) resyncPeriod;
               informer = (case fa_transform f of None \<Rightarrow> informer | Some t \<Rightarrow> informer\<lparr>in_transform := Some t\<rparr>);
               p = length (wd_informers w)
           in (p, w\<lparr>wd_informers := wd_informers w @ [informer],
                    wd_factory := f\<lparr>fa_informers := gm_put informerType p (fa_informers f)\<rparr>\<rparr>)))"

text \<open>One turn of the loop of \<open>StartWithContext\<close>.\<close>

definition start_informer :: "nat \<Rightarrow> string \<times> nat \<Rightarrow> ('l, 'w, 'f) world \<Rightarrow> ('l, 'w, 'f) world" where
  "start_informer ctx = (\<lambda>(informerType, p) w.
     (let f = wd_factory w in
      if \<not> gm_get False (fa_startedInformers f) informerType
      then w\<lparr>wd_running := wd_running w @ [(p, ctx)], wd_launched := wd_launched w @ [(p, ctx)],
             wd_factory := f\<lparr>fa_wg := fa_wg f + 1,
               fa_startedInformers := gm_put informerType True (fa_startedInformers f)\<rparr>\<rparr>
      else w))"

definition StartWithContext :: "nat \<Rightarrow> ('l, 'w, 'f) world \<Rightarrow> ('l, 'w, 'f) world" where
  "StartWithContext ctx w =
     (if fa_shuttingDown (wd_factory w) then w
      else fold (start_informer ctx) (fa_informers (wd_factory w)) w)"

text \<open>\<open>Shutdown\<close>: up to the wait, and what is behind it.\<close>

definition Shutdown_begin :: "('l, 'w, 'f) world \<Rightarrow> ('l, 'w, 'f) world" where
  "Shutdown_begin w = w\<lparr>wd_factory := (wd_factory w)\<lparr>fa_shuttingDown := True\<rparr>, wd_waiting := wd_waiting w + 1\<rparr>"

definition Shutdown_end :: "('l, 'w, 'f) world \<Rightarrow> ('l, 'w, 'f) world" where
  "Shutdown_end w = w\<lparr>wd_waiting := wd_waiting w - 1, wd_returned := wd_returned w + 1\<rparr>"

text \<open>\<open>WaitForCacheSyncWithContext\<close>: the informers it looks at, when it goes on, and its result, with
  the cause of the context.\<close>

definition sync_snapshot :: "('l, 'w, 'f) world \<Rightarrow> (string, nat) gomap" where
  "sync_snapshot w =
     filter (\<lambda>(informerType, p). gm_get False (fa_startedInformers (wd_factory w)) informerType) (fa_informers (wd_factory w))"

definition HasSynced :: "('l, 'w, 'f) world \<Rightarrow> nat \<Rightarrow> bool" where
  "HasSynced w p = in_synced (wd_informers w ! p)"

definition sync_over :: "(string, nat) gomap \<Rightarrow> nat \<Rightarrow> ('l, 'w, 'f) world \<Rightarrow> bool" where
  "sync_over informers ctx w \<longleftrightarrow> (\<forall>(informerType, p) \<in> set informers. HasSynced w p) \<or> ctx \<in> set (wd_done w)"

definition sync_result :: "(string, nat) gomap \<Rightarrow> 'e \<Rightarrow> ('l, 'w, 'f) world \<Rightarrow> (string, bool) gomap \<times> 'e option" where
  "sync_result informers cause w =
     (let synced = map (\<lambda>(informerType, p). (informerType, HasSynced w p)) informers
      in (synced, if \<exists>(_, hasSynced) \<in> set synced. \<not> hasSynced then Some cause else None))"

text \<open>The accessors that lead from the factory to the informer of the monitors.\<close>

definition monitor_type :: string where
  "monitor_type = ''*v1alpha1.ResourceMetricsMonitor''"

definition NamespaceIndex :: string where
  "NamespaceIndex = ''namespace''"

definition defaultInformer ::
    "('l, 'w, 'f) factory \<Rightarrow> ('l, 'w) rsm_client \<Rightarrow> int \<Rightarrow> ('l, 'w, 'f) informer" where
  "defaultInformer f client resyncPeriod =
     NewTypedInformerWithOptions client (fa_namespace f)
       \<lparr>io_ResyncPeriod = resyncPeriod, io_Indexers = [NamespaceIndex], io_InformerName = fa_informerName f,
        io_TweakListOptions = fa_tweakListOptions f\<rparr>"

definition Informer :: "('l, 'w, 'f) world \<Rightarrow> nat \<times> ('l, 'w, 'f) world" where
  "Informer w = InformerFor monitor_type (defaultInformer (wd_factory w)) w"

definition AddEventHandler :: "nat \<Rightarrow> string \<Rightarrow> ('l, 'w, 'f) world \<Rightarrow> ('l, 'w, 'f) world" where
  "AddEventHandler p handler w =
     w\<lparr>wd_informers := (wd_informers w)[p := (wd_informers w ! p)\<lparr>in_handlers := in_handlers (wd_informers w ! p) @ [handler]\<rparr>]\<rparr>"

text \<open>\<open>ForResource\<close>: an error for every other resource.\<close>

definition ForResource :: "string \<times> string \<times> string \<Rightarrow> ('l, 'w, 'f) world \<Rightarrow> nat option \<times> ('l, 'w, 'f) world" where
  "ForResource resource w =
     (if resource = monitor_gvr then (case Informer w of (p, w) \<Rightarrow> (Some p, w)) else (None, w))"

section \<open>The factory as a state machine\<close>

text \<open>
  The calls of the factory, each of which holds its lock, and its surroundings: contexts end, informers
  sync while they run, and the goroutine of an informer ends when its context is done. A call
  of \<open>Shutdown\<close> returns when the wait group is at zero.
\<close>

inductive world_step :: "('l, 'w, 'f) world \<Rightarrow> ('l, 'w, 'f) world \<Rightarrow> bool" where
  informer_for: "world_step w (snd (InformerFor informerType newFunc w))"
| add_handler: "p < length (wd_informers w) \<Longrightarrow> world_step w (AddEventHandler p handler w)"
| start: "world_step w (StartWithContext ctx w)"
| context_done: "world_step w (w\<lparr>wd_done := wd_done w @ [ctx]\<rparr>)"
| sync: "(p, ctx) \<in> set (wd_running w)
    \<Longrightarrow> world_step w (w\<lparr>wd_informers := (wd_informers w)[p := (wd_informers w ! p)\<lparr>in_synced := True\<rparr>]\<rparr>)"
| run_ends: "wd_running w = rs @ (p, ctx) # rs' \<Longrightarrow> ctx \<in> set (wd_done w)
    \<Longrightarrow> world_step w (w\<lparr>wd_running := rs @ rs', wd_factory := (wd_factory w)\<lparr>fa_wg := fa_wg (wd_factory w) - 1\<rparr>\<rparr>)"
| shutdown: "world_step w (Shutdown_begin w)"
| shutdown_returns: "0 < wd_waiting w \<Longrightarrow> fa_wg (wd_factory w) = 0 \<Longrightarrow> world_step w (Shutdown_end w)"

inductive world_steps :: "('l, 'w, 'f) world \<Rightarrow> ('l, 'w, 'f) world \<Rightarrow> bool" for w :: "('l, 'w, 'f) world" where
  here: "world_steps w w"
| further: "world_steps w w1 \<Longrightarrow> world_step w1 w2 \<Longrightarrow> world_steps w w2"

text \<open>Every type has one informer, a started one has one goroutine in its history.\<close>

definition informers_ok :: "(string, nat) gomap \<Rightarrow> ('l, 'w, 'f) informer list \<Rightarrow> bool" where
  "informers_ok infs heap \<longleftrightarrow> gm_ok infs \<and> distinct (map snd infs) \<and> (\<forall>(t, p) \<in> set infs. p < length heap)"

definition started_ok :: "(string, nat) gomap \<Rightarrow> (string, bool) gomap \<Rightarrow> (nat \<times> nat) list \<Rightarrow> bool" where
  "started_ok infs st launched \<longleftrightarrow>
     (\<forall>(t, p) \<in> set infs. gm_get False st t \<longleftrightarrow> p \<in> fst ` set launched)
     \<and> (\<forall>t. gm_get False st t \<longrightarrow> t \<in> fst ` set infs)
     \<and> distinct (map fst launched) \<and> fst ` set launched \<subseteq> snd ` set infs"

text \<open>The wait group counts what runs; nothing runs when a \<open>Shutdown\<close> has returned.\<close>

definition shutdown_ok :: "('l, 'w, 'f) world \<Rightarrow> bool" where
  "shutdown_ok w \<longleftrightarrow>
     set (wd_running w) \<subseteq> set (wd_launched w) \<and> fa_wg (wd_factory w) = length (wd_running w)
     \<and> (0 < wd_waiting w + wd_returned w \<longrightarrow> fa_shuttingDown (wd_factory w))
     \<and> (0 < wd_returned w \<longrightarrow> wd_running w = [])"

lemma world_steps_trans: "world_steps w1 w2 \<Longrightarrow> world_steps w w1 \<Longrightarrow> world_steps w w2"
  by (induction rule: world_steps.induct) (auto intro: world_steps.further)

definition world_ok :: "('l, 'w, 'f) world \<Rightarrow> bool" where
  "world_ok w \<longleftrightarrow> informers_ok (fa_informers (wd_factory w)) (wd_informers w)
     \<and> started_ok (fa_informers (wd_factory w)) (fa_startedInformers (wd_factory w)) (wd_launched w) \<and> shutdown_ok w"

lemma new_world_ok:
  "fa_informers f = [] \<Longrightarrow> fa_startedInformers f = [] \<Longrightarrow> fa_wg f = 0 \<Longrightarrow> world_ok (new_world f)"
  by (simp add: world_ok_def informers_ok_def started_ok_def shutdown_ok_def new_world_def)

lemma InformerFor_ok:
  assumes "world_ok w"
  shows "world_ok (snd (InformerFor t newFunc w))"
proof (cases "map_of (fa_informers (wd_factory w)) t")
  case None
  let ?infs = "fa_informers (wd_factory w)" and ?p = "length (wd_informers w)"
  have new: "t \<notin> fst ` set ?infs" using None by (simp add: map_of_eq_None_iff)
  have old: "\<forall>(u, p) \<in> set ?infs. p < ?p" using assms by (simp add: world_ok_def informers_ok_def)
  have "informers_ok (?infs @ [(t, ?p)]) (wd_informers w @ [x])" for x
    using assms new old by (fastforce simp: world_ok_def informers_ok_def gm_ok_def)
  moreover have "started_ok (?infs @ [(t, ?p)]) (fa_startedInformers (wd_factory w)) (wd_launched w)"
  proof -
    have st: "started_ok ?infs (fa_startedInformers (wd_factory w)) (wd_launched w)" using assms by (simp add: world_ok_def)
    have "snd ` set ?infs \<subseteq> {..<?p}" using old by auto
    then have "?p \<notin> fst ` set (wd_launched w)" using st by (auto simp: started_ok_def dest!: subsetD)
    moreover have "\<not> gm_get False (fa_startedInformers (wd_factory w)) t" using st new by (auto simp: started_ok_def)
    ultimately show ?thesis using st by (auto simp: started_ok_def)
  qed
  ultimately show ?thesis
    using assms None by (simp add: InformerFor_def Let_def world_ok_def shutdown_ok_def gm_put_fresh [OF new])
qed (use assms in \<open>simp add: InformerFor_def\<close>)

text \<open>The loop of \<open>StartWithContext\<close> over a part of the informers.\<close>

lemma start_informer_ok:
  assumes "world_ok w" and "\<not> fa_shuttingDown (wd_factory w)" and "(t, p) \<in> set (fa_informers (wd_factory w))"
  shows "world_ok (start_informer ctx (t, p) w)"
proof (cases "gm_get False (fa_startedInformers (wd_factory w)) t")
  case False
  let ?infs = "fa_informers (wd_factory w)" and ?st = "fa_startedInformers (wd_factory w)"
  have infs: "gm_ok ?infs" "distinct (map snd ?infs)" using assms(1) by (simp_all add: world_ok_def informers_ok_def)
  have st: "started_ok ?infs ?st (wd_launched w)" using assms(1) by (simp add: world_ok_def)
  have fresh: "p \<notin> fst ` set (wd_launched w)" using st False assms(3) by (auto simp: started_ok_def)
  have same: "u = t \<longleftrightarrow> q = p" if "(u, q) \<in> set ?infs" for u q
  proof
    show "q = p" if "u = t"
      using map_of_gm_mem [OF infs(1) \<open>(u, q) \<in> set ?infs\<close>] map_of_gm_mem [OF infs(1) assms(3)] that by simp
    show "u = t" if "q = p" using inj_onD [of snd "set ?infs" "(u, q)" "(t, p)"] infs(2) \<open>(u, q) \<in> set ?infs\<close> assms(3) that
      by (simp add: distinct_map)
  qed
  have "started_ok ?infs (gm_put t True ?st) (wd_launched w @ [(p, ctx)])"
    unfolding started_ok_def
  proof (intro conjI allI impI)
    show "\<forall>(u, q) \<in> set ?infs. gm_get False (gm_put t True ?st) u = (q \<in> fst ` set (wd_launched w @ [(p, ctx)]))"
    proof (intro ballI, clarify)
      fix u q assume uq: "(u, q) \<in> set ?infs"
      with st have "gm_get False ?st u = (q \<in> fst ` set (wd_launched w))" by (auto simp: started_ok_def)
      with same [OF uq] show "gm_get False (gm_put t True ?st) u = (q \<in> fst ` set (wd_launched w @ [(p, ctx)]))"
        by (cases "q = p") simp_all
    qed
    show "u \<in> fst ` set ?infs" if "gm_get False (gm_put t True ?st) u" for u
      using that st assms(3) by (cases "u = t") (auto simp: started_ok_def image_iff intro!: bexI [of _ "(t, p)"])
    show "distinct (map fst (wd_launched w @ [(p, ctx)]))" using st fresh by (simp add: started_ok_def)
    show "fst ` set (wd_launched w @ [(p, ctx)]) \<subseteq> snd ` set ?infs"
      using st assms(3) by (simp add: started_ok_def image_iff) (metis snd_conv)
  qed
  then show ?thesis
    using assms(1,2) False by (auto simp: world_ok_def start_informer_def shutdown_ok_def Let_def)
qed (use assms(1) in \<open>simp add: start_informer_def Let_def\<close>)

lemma start_informer_keeps [simp]:
  "fa_informers (wd_factory (start_informer ctx tp w)) = fa_informers (wd_factory w)"
  "fa_shuttingDown (wd_factory (start_informer ctx tp w)) = fa_shuttingDown (wd_factory w)"
  "wd_informers (start_informer ctx tp w) = wd_informers w"
  by (simp_all add: start_informer_def Let_def split_def)

lemma start_loop_ok:
  "world_ok w \<Longrightarrow> \<not> fa_shuttingDown (wd_factory w) \<Longrightarrow> set infs \<subseteq> set (fa_informers (wd_factory w))
    \<Longrightarrow> world_ok (fold (start_informer ctx) infs w)"
proof (induction infs arbitrary: w)
  case (Cons tp infs)
  then show ?case by (cases tp) (simp add: start_informer_ok)
qed simp

lemma world_step_ok:
  assumes "world_step w w'" and "world_ok w"
  shows "world_ok w'"
  using assms
proof (cases rule: world_step.cases)
  case (informer_for t newFunc)
  with assms(2) show ?thesis by (simp add: InformerFor_ok)
next
  case (start ctx)
  with assms(2) show ?thesis by (simp add: StartWithContext_def start_loop_ok)
next
  case (shutdown_returns)
  with assms(2) show ?thesis by (auto simp: world_ok_def shutdown_ok_def Shutdown_end_def)
next
  case (run_ends rs p ctx rs')
  with assms(2) show ?thesis by (auto simp: world_ok_def shutdown_ok_def)
qed (auto simp: world_ok_def informers_ok_def shutdown_ok_def AddEventHandler_def Shutdown_begin_def)

lemma world_steps_ok: "world_steps w w' \<Longrightarrow> world_ok w \<Longrightarrow> world_ok w'"
  by (induction rule: world_steps.induct) (auto intro: world_step_ok)

section \<open>What stays\<close>

definition informer_kept :: "('l, 'w, 'f) informer \<Rightarrow> ('l, 'w, 'f) informer \<Rightarrow> bool" where
  "informer_kept i j \<longleftrightarrow> (\<exists>hs b. j = i\<lparr>in_handlers := in_handlers i @ hs, in_synced := b\<rparr> \<and> (in_synced i \<longrightarrow> b))"

definition kept :: "('l, 'w, 'f) world \<Rightarrow> ('l, 'w, 'f) world \<Rightarrow> bool" where
  "kept w w' \<longleftrightarrow>
     (\<exists>l. wd_launched w' = wd_launched w @ l)
     \<and> (\<forall>t p. map_of (fa_informers (wd_factory w)) t = Some p \<longrightarrow> map_of (fa_informers (wd_factory w')) t = Some p)
     \<and> length (wd_informers w) \<le> length (wd_informers w')
     \<and> (\<forall>p < length (wd_informers w). informer_kept (wd_informers w ! p) (wd_informers w' ! p))
     \<and> (fa_shuttingDown (wd_factory w) \<longrightarrow> fa_shuttingDown (wd_factory w') \<and> wd_launched w' = wd_launched w)
     \<and> wd_returned w \<le> wd_returned w'"

lemma informer_kept_refl [simp]: "informer_kept i i"
  unfolding informer_kept_def by (intro exI [of _ "[]"] exI [of _ "in_synced i"]) simp

lemma informer_kept_more:
  "informer_kept i (i\<lparr>in_handlers := in_handlers i @ hs\<rparr>)" "informer_kept i (i\<lparr>in_synced := True\<rparr>)"
  unfolding informer_kept_def
   apply (intro exI [of _ hs] exI [of _ "in_synced i"]) apply simp
  apply (intro exI [of _ "[]"] exI [of _ True]) apply simp
  done

lemma informer_kept_trans: "informer_kept i j \<Longrightarrow> informer_kept j k \<Longrightarrow> informer_kept i k"
  unfolding informer_kept_def by clarsimp blast

lemma informer_kept_fields:
  assumes "informer_kept i j"
  shows "in_List j = in_List i" "in_Watch j = in_Watch i" "in_ResyncPeriod j = in_ResyncPeriod i"
    "set (in_handlers i) \<subseteq> set (in_handlers j)" "in_synced i \<Longrightarrow> in_synced j"
  using assms by (auto simp: informer_kept_def)

lemma kept_refl [simp]: "kept w w"
  by (simp add: kept_def)

lemma kept_trans:
  assumes "kept w w1" and "kept w1 w2"
  shows "kept w w2"
  unfolding kept_def
proof (intro conjI allI impI)
  show "\<exists>l. wd_launched w2 = wd_launched w @ l" using assms by (auto simp: kept_def)
  show "map_of (fa_informers (wd_factory w2)) t = Some p" if "map_of (fa_informers (wd_factory w)) t = Some p" for t p
    using assms that by (simp add: kept_def)
  show len: "length (wd_informers w) \<le> length (wd_informers w2)" using assms by (simp add: kept_def)
  show "informer_kept (wd_informers w ! p) (wd_informers w2 ! p)" if "p < length (wd_informers w)" for p
  proof (rule informer_kept_trans)
    show "informer_kept (wd_informers w ! p) (wd_informers w1 ! p)" using assms(1) that by (simp add: kept_def)
    show "informer_kept (wd_informers w1 ! p) (wd_informers w2 ! p)"
      using assms(2) order_less_le_trans [OF that] assms(1) unfolding kept_def by blast
  qed
qed (use assms in \<open>simp_all add: kept_def\<close>)

lemma start_loop_kept:
  "(\<exists>l. wd_launched (fold (start_informer ctx) infs w) = wd_launched w @ l)
    \<and> fa_informers (wd_factory (fold (start_informer ctx) infs w)) = fa_informers (wd_factory w)
    \<and> wd_informers (fold (start_informer ctx) infs w) = wd_informers w
    \<and> wd_returned (fold (start_informer ctx) infs w) = wd_returned w"
proof (induction infs arbitrary: w)
  case (Cons tp infs)
  have "(\<exists>l. wd_launched (start_informer ctx tp w) = wd_launched w @ l) \<and> wd_returned (start_informer ctx tp w) = wd_returned w"
    by (simp add: start_informer_def Let_def split_def)
  with Cons.IH [of "start_informer ctx tp w"] show ?case by auto
qed simp

lemma nth_kept: "informer_kept (infs ! p) x \<Longrightarrow> informer_kept (infs ! q) ((infs[p := x]) ! q)"
  by (cases "p = q"; cases "p < length infs") (simp_all add: list_update_beyond)

lemma world_step_kept:
  assumes "world_step w w'"
  shows "kept w w'"
  using assms
proof (cases rule: world_step.cases)
  case (informer_for t newFunc)
  then show ?thesis
    by (auto simp: kept_def InformerFor_def Let_def nth_append split: option.splits)
next
  case (start ctx)
  then show ?thesis using start_loop_kept [of ctx "fa_informers (wd_factory w)" w]
    by (auto simp: kept_def StartWithContext_def)
next
  case (add_handler p handler)
  then show ?thesis by (simp add: kept_def AddEventHandler_def nth_kept informer_kept_more)
next
  case (sync p ctx)
  then show ?thesis by (simp add: kept_def nth_kept informer_kept_more)
qed (auto simp: kept_def Shutdown_begin_def Shutdown_end_def)

lemma world_steps_kept: "world_steps w w' \<Longrightarrow> kept w w'"
  by (induction rule: world_steps.induct) (auto intro: kept_trans world_step_kept)

text \<open>The options of the factory, which leave its informers alone.\<close>

definition known_option :: "('l, 'w, 'f) shared_informer_option \<Rightarrow> bool" where
  "known_option opt \<longleftrightarrow> (\<exists>c t n f i. opt \<in> {WithCustomResyncConfig c, WithTweakListOptions t, WithNamespace n, WithTransform f, WithInformerName i})"

definition untouched :: "('l, 'w, 'f) factory \<Rightarrow> bool" where
  "untouched f \<longleftrightarrow> fa_informers f = [] \<and> fa_startedInformers f = [] \<and> fa_wg f = 0 \<and> \<not> fa_shuttingDown f"

lemma known_option_untouched: "known_option opt \<Longrightarrow> untouched f \<Longrightarrow> untouched (opt f)"
  unfolding known_option_def
  by (auto simp: untouched_def WithCustomResyncConfig_def WithTweakListOptions_def WithNamespace_def
    WithTransform_def WithInformerName_def)

lemma new_factory_untouched:
  assumes "\<forall>opt \<in> set options. known_option opt"
  shows "untouched (NewSharedInformerFactoryWithOptions client defaultResync options)"
proof -
  have "untouched f \<Longrightarrow> untouched (fold (\<lambda>opt f. opt f) options f)" for f
    using assms by (induction options arbitrary: f) (simp_all add: known_option_untouched)
  then show ?thesis by (simp add: NewSharedInformerFactoryWithOptions_def untouched_def)
qed

lemma factory_world_ok: "untouched f \<Longrightarrow> world_steps (new_world f) w \<Longrightarrow> world_ok w"
  by (rule world_steps_ok) (auto simp: untouched_def intro: new_world_ok)

section \<open>The controller and its informer\<close>

text \<open>What \<open>NewController\<close> and \<open>Run\<close> do with the factory: the handlers are added to the informer of the
  monitors, which makes it, and then the factory is started.\<close>

definition controller_informer :: "('l, 'w) rsm_client \<Rightarrow> string \<Rightarrow> nat \<Rightarrow> nat \<times> ('l, 'w, 'f) world" where
  "controller_informer rsmClientset handler ctx =
     (case Informer (new_world (NewSharedInformerFactory rsmClientset 0)) of
        (p, w) \<Rightarrow> (p, StartWithContext ctx (AddEventHandler p handler w)))"

section \<open>Properties\<close>

text \<open>C23: the factory runs every informer once and shuts down completely. In every reachable state no
  informer was started twice, only informers of the factory run, each type has one informer and
  keeps it. When a call of \<open>Shutdown\<close> has returned, nothing runs, and nothing is started any more.\<close>

theorem factory_starts_once:
  assumes "\<forall>opt \<in> set options. known_option opt"
    and "world_steps (new_world (NewSharedInformerFactoryWithOptions client defaultResync options)) w"
    and "world_steps w w'"
  shows "distinct (map fst (wd_launched w)) \<and> set (wd_running w) \<subseteq> set (wd_launched w)
     \<and> fst ` set (wd_launched w) \<subseteq> snd ` set (fa_informers (wd_factory w))
     \<and> (map_of (fa_informers (wd_factory w)) t = Some p \<longrightarrow> map_of (fa_informers (wd_factory w')) t = Some p)
     \<and> (0 < wd_returned w \<longrightarrow> wd_running w' = [] \<and> wd_launched w' = wd_launched w)"
proof -
  have ok: "world_ok w" "world_ok w'"
    using factory_world_ok [OF new_factory_untouched [OF assms(1)] assms(2)] world_steps_ok [OF assms(3)] by simp_all
  have kept: "kept w w'" using assms(3) by (rule world_steps_kept)
  have launched: "distinct (map fst (wd_launched w))" "fst ` set (wd_launched w) \<subseteq> snd ` set (fa_informers (wd_factory w))"
    "set (wd_running w) \<subseteq> set (wd_launched w)"
    using ok(1) by (simp_all add: world_ok_def started_ok_def shutdown_ok_def)
  have "wd_running w' = [] \<and> wd_launched w' = wd_launched w" if "0 < wd_returned w"
  proof -
    have "fa_shuttingDown (wd_factory w)" using ok(1) that by (simp add: world_ok_def shutdown_ok_def)
    moreover have "0 < wd_returned w'" using kept that by (simp add: kept_def)
    ultimately show ?thesis using kept ok(2) by (simp add: kept_def world_ok_def shutdown_ok_def)
  qed
  with launched kept show ?thesis by (simp add: kept_def)
qed

text \<open>The informer of the monitors is started, its context ends, and \<open>Shutdown\<close> returns.\<close>

theorem factory_starts_once_witness:
  "\<exists>w :: (nat, nat, nat) world.
     world_steps (new_world (NewSharedInformerFactoryWithOptions \<lparr>rl_List = \<lambda>_ _. 0, rl_Watch = \<lambda>_ _. 0\<rparr> 0 [WithNamespace ''n''])) w
     \<and> 0 < wd_returned w \<and> distinct (map fst (wd_launched w)) \<and> wd_running w = []"
proof -
  let ?f = "NewSharedInformerFactoryWithOptions \<lparr>rl_List = \<lambda>_ _. 0 :: nat, rl_Watch = \<lambda>_ _. 0 :: nat\<rparr> 0 [WithNamespace ''n''] :: (nat, nat, nat) factory"
  define w1 where "w1 = snd (Informer (new_world ?f))"
  define w2 where "w2 = StartWithContext 7 w1"
  define w3 where "w3 = w2\<lparr>wd_done := wd_done w2 @ [7]\<rparr>"
  define w4 where "w4 = w3\<lparr>wd_running := [] @ [], wd_factory := (wd_factory w3)\<lparr>fa_wg := fa_wg (wd_factory w3) - 1\<rparr>\<rparr>"
  define w5 where "w5 = Shutdown_begin w4"
  have option: "\<forall>opt \<in> set [WithNamespace ''n'' :: (nat, nat, nat) shared_informer_option]. known_option opt"
    by (auto simp: known_option_def)
  have f: "untouched ?f" by (rule new_factory_untouched [OF option])
  have w1: "wd_running w1 = [] \<and> fa_informers (wd_factory w1) = [(monitor_type, 0)] \<and> fa_startedInformers (wd_factory w1) = []
      \<and> fa_wg (wd_factory w1) = 0 \<and> \<not> fa_shuttingDown (wd_factory w1)"
    using f by (simp add: w1_def Informer_def InformerFor_def new_world_def untouched_def Let_def)
  then have w2: "wd_running w2 = [(0, 7)] \<and> fa_wg (wd_factory w2) = 1"
    by (simp add: w2_def StartWithContext_def start_informer_def Let_def)
  have w5: "0 < wd_waiting w5" "fa_wg (wd_factory w5) = 0"
    using w2 by (simp_all add: w5_def w4_def w3_def Shutdown_begin_def)
  have "world_step (new_world ?f) w1" unfolding w1_def Informer_def by (rule world_step.informer_for)
  moreover have "world_step w1 w2" unfolding w2_def by (rule world_step.start)
  moreover have "world_step w2 w3" unfolding w3_def by (rule world_step.context_done)
  moreover have "world_step w3 w4" unfolding w4_def by (rule world_step.run_ends [of _ _ 0 7]) (use w2 in \<open>simp_all add: w3_def\<close>)
  moreover have "world_step w4 w5" unfolding w5_def by (rule world_step.shutdown)
  moreover have "world_step w5 (Shutdown_end w5)" using w5 by (rule world_step.shutdown_returns)
  ultimately have steps: "world_steps (new_world ?f) (Shutdown_end w5)" by (meson world_steps.intros)
  have "0 < wd_returned (Shutdown_end w5)" by (simp add: Shutdown_end_def)
  with factory_starts_once [OF option steps world_steps.here] steps show ?thesis by blast
qed

text \<open>A call of \<open>Shutdown\<close> that waits can return once all contexts are done: the goroutines end.\<close>

lemma shutdown_can_return:
  "world_ok w \<Longrightarrow> 0 < wd_waiting w \<Longrightarrow> \<forall>(p, ctx) \<in> set (wd_running w). ctx \<in> set (wd_done w)
    \<Longrightarrow> \<exists>w'. world_steps w w' \<and> wd_returned w' = Suc (wd_returned w)"
proof (induction "wd_running w" arbitrary: w)
  case Nil
  then have "world_step w (Shutdown_end w)" by (intro world_step.shutdown_returns) (simp_all add: world_ok_def shutdown_ok_def)
  then have "world_steps w (Shutdown_end w)" by (rule world_steps.further [OF world_steps.here])
  then show ?case by (rule exI [of _ "Shutdown_end w", OF conjI]) (simp add: Shutdown_end_def)
next
  case (Cons r rs)
  obtain p ctx where r: "r = (p, ctx)" by (cases r)
  let ?w = "w\<lparr>wd_running := [] @ rs, wd_factory := (wd_factory w)\<lparr>fa_wg := fa_wg (wd_factory w) - 1\<rparr>\<rparr>"
  have step: "world_step w ?w"
  proof (rule world_step.run_ends)
    show "wd_running w = [] @ (p, ctx) # rs" using Cons.hyps(2) r by simp
    show "ctx \<in> set (wd_done w)" using Cons.prems(3) r by (simp flip: Cons.hyps(2))
  qed
  have "\<exists>w'. world_steps ?w w' \<and> wd_returned w' = Suc (wd_returned ?w)"
  proof (rule Cons.hyps(1))
    show "world_ok ?w" using step Cons.prems(1) by (rule world_step_ok)
    show "\<forall>(p, ctx) \<in> set (wd_running ?w). ctx \<in> set (wd_done ?w)" using Cons.prems(3) by (simp flip: Cons.hyps(2))
  qed (use Cons.prems(2) in simp_all)
  then show ?case using world_steps_trans [OF _ world_steps.further [OF world_steps.here step]] by auto
qed

text \<open>C24: the controller is wired to one informer. Whatever happens after the start, the informer whose
  sync \<open>Run\<close> waits for and which the lister reads is the one that has the event handlers, and it was
  started with the context of the controller; it lists and watches the monitors of all namespaces, with the options unchanged, and
  without resync. \<open>ForResource\<close> finds the same informer for the resource of the monitors and
  an error for any other.\<close>

theorem controller_has_one_informer:
  assumes "controller_informer rsmClientset handler ctx = (p, w0)" and "world_steps w0 w"
  shows "Informer w = (p, w) \<and> (p, ctx) \<in> set (wd_launched w) \<and> handler \<in> set (in_handlers (wd_informers w ! p))
     \<and> in_List (wd_informers w ! p) opts = rl_List rsmClientset [] opts
     \<and> in_Watch (wd_informers w ! p) opts = rl_Watch rsmClientset [] opts \<and> in_ResyncPeriod (wd_informers w ! p) = 0
     \<and> ForResource gvr w = (if gvr = monitor_gvr then (Some p, w) else (None, w))"
proof -
  have w0: "map_of (fa_informers (wd_factory w0)) monitor_type = Some p" "p < length (wd_informers w0)" "wd_launched w0 = [(p, ctx)]"
    "handler \<in> set (in_handlers (wd_informers w0 ! p))" "in_List (wd_informers w0 ! p) opts = rl_List rsmClientset [] opts"
    "in_Watch (wd_informers w0 ! p) opts = rl_Watch rsmClientset [] opts" "in_ResyncPeriod (wd_informers w0 ! p) = 0"
    using assms(1)
    by (auto simp: controller_informer_def Informer_def InformerFor_def new_world_def NewSharedInformerFactory_def
      NewSharedInformerFactoryWithOptions_def AddEventHandler_def StartWithContext_def start_informer_def Let_def
      defaultInformer_def NewTypedInformerWithOptions_def tweaked_def)
  have kept: "kept w0 w" using assms(2) by (rule world_steps_kept)
  then have "informer_kept (wd_informers w0 ! p) (wd_informers w ! p)" using w0(2) by (simp add: kept_def)
  note fields = informer_kept_fields [OF this]
  have informer: "Informer w = (p, w)" using kept w0(1) by (simp add: kept_def Informer_def InformerFor_def)
  moreover have "(p, ctx) \<in> set (wd_launched w)" using kept w0(3) by (auto simp: kept_def)
  ultimately show ?thesis using fields w0 by (auto simp: ForResource_def)
qed

theorem controller_has_one_informer_witness:
  "\<exists>p w0. controller_informer \<lparr>rl_List = \<lambda>ns _. ns, rl_Watch = \<lambda>ns _. ns\<rparr> ''enqueue'' 7 = (p, w0 :: (string, string, nat) world)
     \<and> (p, 7) \<in> set (wd_launched w0) \<and> Informer w0 = (p, w0)"
proof -
  obtain p and w0 :: "(string, string, nat) world"
    where w0: "controller_informer \<lparr>rl_List = \<lambda>ns _. ns, rl_Watch = \<lambda>ns _. ns\<rparr> ''enqueue'' 7 = (p, w0)" by fastforce
  from controller_has_one_informer [OF w0 world_steps.here] w0 show ?thesis by blast
qed

text \<open>What \<open>WaitForCacheSync\<close> returns: the types that were started when it was called, each with the
  flag of its informer, and an error exactly if one has not synced, which is only possible when
  the context is done.\<close>

lemma cache_sync_exact:
  assumes "world_ok w" and "sync_over (sync_snapshot w) ctx w'"
    and "sync_result (sync_snapshot w) cause w' = (synced, err)"
  shows "fst ` set synced = {t. gm_get False (fa_startedInformers (wd_factory w)) t}
     \<and> (err = None \<longleftrightarrow> (\<forall>(t, b) \<in> set synced. b)) \<and> (err \<noteq> None \<longrightarrow> ctx \<in> set (wd_done w'))"
proof -
  have synced: "synced = map (\<lambda>(t, p). (t, HasSynced w' p)) (sync_snapshot w)" and
    err: "err = (if \<exists>(t, b) \<in> set synced. \<not> b then Some cause else None)"
    using assms(3) unfolding sync_result_def Let_def by (auto simp only: prod.inject)
  have started: "gm_get False (fa_startedInformers (wd_factory w)) t \<Longrightarrow> t \<in> fst ` set (fa_informers (wd_factory w))" for t
    using assms(1) by (simp add: world_ok_def started_ok_def)
  have "fst ` set synced = {t. gm_get False (fa_startedInformers (wd_factory w)) t}"
    using started by (force simp: synced sync_snapshot_def image_iff)
  moreover have "err = None \<longleftrightarrow> (\<forall>(t, b) \<in> set synced. b)" by (auto simp: err)
  moreover have "ctx \<in> set (wd_done w')" if "err \<noteq> None"
    using that assms(2) by (auto simp: err synced sync_over_def split: if_splits)
  ultimately show ?thesis by blast
qed

end
