(* ===== verification/Clientset.thy ===== *)
theory Clientset
  imports Go_Float
begin

text \<open>
  How the client of the monitors is made from a configuration: \<open>clientset.go\<close> and
  \<open>resourcestatemetrics_client.go\<close> of \<open>pkg/generated\<close>, and the group and version of
  \<open>register.go\<close>. The constructors of client-go are parameters; an error is its text.
\<close>

section \<open>Configurations\<close>

record 'r rest_config =
  rc_UserAgent :: string
  rc_RateLimiter :: "'r option"
  rc_QPS :: float64
  rc_Burst :: int
  rc_GroupVersion :: "(string \<times> string) option"
  rc_APIPath :: string
  rc_Serializer :: string

text \<open>The constructors. A \<open>float32\<close> is the \<open>float64\<close> of the same value.\<close>

record ('r, 'h, 'c, 'd) rest_lib =
  rb_DefaultUserAgent :: string
  rb_HTTPClientFor :: "'r rest_config \<Rightarrow> string + 'h"
  rb_RESTClientFor :: "'r rest_config \<Rightarrow> 'h \<Rightarrow> string + 'c"
  rb_DiscoveryClientFor :: "'r rest_config \<Rightarrow> 'h \<Rightarrow> string + 'd"
  rb_NewTokenBucket :: "float64 \<Rightarrow> int \<Rightarrow> 'r"

definition GroupName :: string where
  "GroupName = ''resource-state-metrics.instrumentation.k8s-sigs.io''"

definition SchemeGroupVersion :: "string \<times> string" where
  "SchemeGroupVersion = (GroupName, ''v1alpha1'')"

definition Scheme_Kind :: "string \<Rightarrow> string \<times> string" where
  "Scheme_Kind kind = (fst SchemeGroupVersion, kind)"

definition Scheme_Resource :: "string \<Rightarrow> string \<times> string" where
  "Scheme_Resource resource = (fst SchemeGroupVersion, resource)"

text \<open>The types that a scheme has under a group and version; what apimachinery adds to every group is a
  parameter.\<close>

type_synonym scheme = "((string \<times> string) \<times> string) list"

definition addKnownTypes :: "(string \<times> string \<Rightarrow> scheme \<Rightarrow> scheme) \<Rightarrow> scheme \<Rightarrow> scheme" where
  "addKnownTypes addToGroupVersion scheme =
     addToGroupVersion SchemeGroupVersion
       (scheme @ map (Pair SchemeGroupVersion) [''ResourceMetricsMonitor'', ''ResourceMetricsMonitorList''])"

section \<open>The client of the group\<close>

definition setConfigDefaults :: "('r, 'h, 'c, 'd) rest_lib \<Rightarrow> 'r rest_config \<Rightarrow> 'r rest_config" where
  "setConfigDefaults lib config =
     (let config = config\<lparr>rc_GroupVersion := Some SchemeGroupVersion, rc_APIPath := ''/apis'',
        rc_Serializer := ''WithoutConversion''\<rparr>
      in if rc_UserAgent config = [] then config\<lparr>rc_UserAgent := rb_DefaultUserAgent lib\<rparr> else config)"

definition group_NewForConfigAndClient ::
    "('r, 'h, 'c, 'd) rest_lib \<Rightarrow> 'r rest_config \<Rightarrow> 'h \<Rightarrow> string + 'c" where
  "group_NewForConfigAndClient lib c h = rb_RESTClientFor lib (setConfigDefaults lib c) h"

definition group_NewForConfig :: "('r, 'h, 'c, 'd) rest_lib \<Rightarrow> 'r rest_config \<Rightarrow> string + 'c" where
  "group_NewForConfig lib c =
     (let config = setConfigDefaults lib c in
      case rb_HTTPClientFor lib config of
        Inl err \<Rightarrow> Inl err
      | Inr httpClient \<Rightarrow> group_NewForConfigAndClient lib config httpClient)"

text \<open>\<open>None\<close> is a panic.\<close>

definition group_NewForConfigOrDie :: "('r, 'h, 'c, 'd) rest_lib \<Rightarrow> 'r rest_config \<Rightarrow> 'c option" where
  "group_NewForConfigOrDie lib c = (case group_NewForConfig lib c of Inl err \<Rightarrow> None | Inr client \<Rightarrow> Some client)"

section \<open>The clientset\<close>

record ('c, 'd) clientset =
  cl_resourceStateMetricsV1alpha1 :: 'c
  cl_DiscoveryClient :: 'd

definition burst_error :: string where
  "burst_error = ''burst is required to be greater than 0 when RateLimiter is not set and QPS is set to greater than 0''"

definition NewForConfigAndClient ::
    "('r, 'h, 'c, 'd) rest_lib \<Rightarrow> 'r rest_config \<Rightarrow> 'h \<Rightarrow> string + ('c, 'd) clientset" where
  "NewForConfigAndClient lib c httpClient =
     (let limited = rc_RateLimiter c = None \<and> f64_less f64_zero (rc_QPS c) in
      if limited \<and> rc_Burst c \<le> 0 then Inl burst_error
      else
        let config = (if limited then c\<lparr>rc_RateLimiter := Some (rb_NewTokenBucket lib (rc_QPS c) (rc_Burst c))\<rparr> else c) in
        case group_NewForConfigAndClient lib config httpClient of
          Inl err \<Rightarrow> Inl err
        | Inr client \<Rightarrow>
            (case rb_DiscoveryClientFor lib config httpClient of
               Inl err \<Rightarrow> Inl err
             | Inr discovery \<Rightarrow> Inr \<lparr>cl_resourceStateMetricsV1alpha1 = client, cl_DiscoveryClient = discovery\<rparr>))"

definition NewForConfig :: "('r, 'h, 'c, 'd) rest_lib \<Rightarrow> 'r rest_config \<Rightarrow> string + ('c, 'd) clientset" where
  "NewForConfig lib c =
     (let config = (if rc_UserAgent c = [] then c\<lparr>rc_UserAgent := rb_DefaultUserAgent lib\<rparr> else c) in
      case rb_HTTPClientFor lib config of
        Inl err \<Rightarrow> Inl err
      | Inr httpClient \<Rightarrow> NewForConfigAndClient lib config httpClient)"

definition NewForConfigOrDie :: "('r, 'h, 'c, 'd) rest_lib \<Rightarrow> 'r rest_config \<Rightarrow> ('c, 'd) clientset option" where
  "NewForConfigOrDie lib c = (case NewForConfig lib c of Inl err \<Rightarrow> None | Inr cs \<Rightarrow> Some cs)"

text \<open>The discovery client of a nil clientset is nil.\<close>

definition Discovery_client :: "('c, 'd) clientset option \<Rightarrow> 'd option" where
  "Discovery_client = map_option cl_DiscoveryClient"

text \<open>A clientset has one HTTP client and, unless the configuration has none, one rate limiter for both of
  its clients, which also identify themselves in the same way; only the client of the group is bound to the group.\<close>

lemma clients_share_limits:
  assumes "NewForConfig lib c = Inr cs"
  shows "\<exists>config http. rb_HTTPClientFor lib (config\<lparr>rc_RateLimiter := rc_RateLimiter c\<rparr>) = Inr http
     \<and> rb_RESTClientFor lib (config\<lparr>rc_GroupVersion := Some SchemeGroupVersion, rc_APIPath := ''/apis'',
         rc_Serializer := ''WithoutConversion''\<rparr>) http = Inr (cl_resourceStateMetricsV1alpha1 cs)
     \<and> rb_DiscoveryClientFor lib config http = Inr (cl_DiscoveryClient cs)
     \<and> rc_UserAgent config = (if rc_UserAgent c = [] then rb_DefaultUserAgent lib else rc_UserAgent c)
     \<and> rc_RateLimiter config = (if rc_RateLimiter c = None \<and> f64_less f64_zero (rc_QPS c)
         then Some (rb_NewTokenBucket lib (rc_QPS c) (rc_Burst c)) else rc_RateLimiter c)"
proof -
  let ?c = "if rc_UserAgent c = [] then c\<lparr>rc_UserAgent := rb_DefaultUserAgent lib\<rparr> else c"
  let ?limited = "rc_RateLimiter c = None \<and> f64_less f64_zero (rc_QPS c)"
  let ?config = "if ?limited then ?c\<lparr>rc_RateLimiter := Some (rb_NewTokenBucket lib (rc_QPS c) (rc_Burst c))\<rparr> else ?c"
  have c: "rc_RateLimiter ?c = rc_RateLimiter c" "rc_QPS ?c = rc_QPS c" "rc_Burst ?c = rc_Burst c" by simp_all
  obtain http where http: "rb_HTTPClientFor lib ?c = Inr http" "NewForConfigAndClient lib ?c http = Inr cs"
    using assms unfolding NewForConfig_def Let_def by (auto split: sum.splits)
  have clients: "group_NewForConfigAndClient lib ?config http = Inr (cl_resourceStateMetricsV1alpha1 cs)"
      "rb_DiscoveryClientFor lib ?config http = Inr (cl_DiscoveryClient cs)"
    using http(2) unfolding NewForConfigAndClient_def Let_def c by (auto split: sum.splits if_splits)
  define config where "config = ?config"
  have "config\<lparr>rc_RateLimiter := rc_RateLimiter c\<rparr> = ?c" by (simp add: config_def)
  moreover have "setConfigDefaults lib config = config\<lparr>rc_GroupVersion := Some SchemeGroupVersion, rc_APIPath := ''/apis'',
      rc_Serializer := ''WithoutConversion''\<rparr>"
    by (simp add: config_def setConfigDefaults_def Let_def)
  moreover have "rc_UserAgent config = (if rc_UserAgent c = [] then rb_DefaultUserAgent lib else rc_UserAgent c)"
    "rc_RateLimiter config = (if ?limited then Some (rb_NewTokenBucket lib (rc_QPS c) (rc_Burst c)) else rc_RateLimiter c)"
    by (simp_all add: config_def)
  ultimately show ?thesis
    using http(1) clients unfolding config_def [symmetric] group_NewForConfigAndClient_def
    by (intro exI [of _ config] exI [of _ http]) simp
qed

text \<open>A configuration without a limiter must allow bursts if it limits the rate.\<close>

lemma burst_is_required:
  assumes "rb_HTTPClientFor lib c = Inr http" and "rc_UserAgent c \<noteq> []"
    and "rc_RateLimiter c = None" and "f64_less f64_zero (rc_QPS c)" and "rc_Burst c \<le> 0"
  shows "NewForConfig lib c = Inl burst_error" and "NewForConfigOrDie lib c = None"
  using assms by (simp_all add: NewForConfig_def NewForConfigOrDie_def NewForConfigAndClient_def)

end
