(* ===== verification/Cel_Flatten.thy ===== *)
theory Cel_Flatten
  imports Resolvers "HOL-Library.Multiset"
begin

text \<open>
  What \<open>resolveListInner\<close> and \<open>resolveMapInner\<close> of \<open>pkg/resolver/cel.go\<close> make of a nested result: the
  pairs they store one after the other, and when the outcome depends on the order in which Go
  walks its maps, which is random.
\<close>

section \<open>The pairs of a nested value\<close>

fun list_pairs :: "string \<Rightarrow> nat \<Rightarrow> gval list \<Rightarrow> (string \<times> string) list"
  and map_pairs :: "(string \<times> gval) list \<Rightarrow> (string \<times> string) list" where
  "list_pairs parent i [] = []"
| "list_pairs parent i (v # vs) =
     (case v of
        GSlice l \<Rightarrow> list_pairs parent 0 l
      | GMap m \<Rightarrow> map_pairs m
      | GNil \<Rightarrow> []
      | GOther _ _ \<Rightarrow> []
      | _ \<Rightarrow> [(index_suffix parent i, format_v v)]) @ list_pairs parent (Suc i) vs"
| "map_pairs [] = []"
| "map_pairs ((k, v) # m) =
     (case v of
        GSlice l \<Rightarrow> list_pairs k 0 l
      | GMap m' \<Rightarrow> map_pairs m'
      | GNil \<Rightarrow> []
      | GOther _ _ \<Rightarrow> []
      | _ \<Rightarrow> [(k, format_v v)]) @ map_pairs m"

text \<open>A scalar is stored under \<open>key\<close>, the elements of a list under the indices of \<open>parent\<close>.\<close>

definition value_pairs :: "string \<Rightarrow> string \<Rightarrow> gval \<Rightarrow> (string \<times> string) list" where
  "value_pairs parent key v =
     (case v of
        GSlice l \<Rightarrow> list_pairs parent 0 l
      | GMap m \<Rightarrow> map_pairs m
      | GNil \<Rightarrow> []
      | GOther _ _ \<Rightarrow> []
      | _ \<Rightarrow> [(key, format_v v)])"

lemma pairs_Cons:
  "list_pairs p i (v # vs) = value_pairs p (index_suffix p i) v @ list_pairs p (Suc i) vs"
  "map_pairs ((k, v) # m) = value_pairs k k v @ map_pairs m"
  by (simp_all add: value_pairs_def)

lemma map_pairs_concat: "map_pairs m = concat (map (\<lambda>(k, v). value_pairs k k v) m)"
  by (induction m) (auto simp: pairs_Cons simp del: map_pairs.simps(2))

abbreviation put_all :: "(string \<times> string) list \<Rightarrow> (string, string) gomap \<Rightarrow> (string, string) gomap" where
  "put_all kvs m \<equiv> fold (\<lambda>(k, v). gm_put k v) kvs m"

lemma resolve_inner_pairs:
  "resolveListInner p i vs out = put_all (list_pairs p i vs) out"
  "resolveMapInner m out = put_all (map_pairs m) out"
  by (induction p i vs out and m out rule: resolveListInner_resolveMapInner.induct)
    (auto split: gval.split)

section \<open>Maps in another order\<close>

text \<open>The same Go value: the maps inside it may be walked in any order, lists keep theirs.\<close>

inductive same_value :: "gval \<Rightarrow> gval \<Rightarrow> bool" where
  refl: "same_value v v"
| slice: "list_all2 same_value l l' \<Longrightarrow> same_value (GSlice l) (GSlice l')"
| gmap: "map fst m = map fst m' \<Longrightarrow> list_all2 same_value (map snd m) (map snd m') \<Longrightarrow> mset m' = mset m''
    \<Longrightarrow> same_value (GMap m) (GMap m'')"
monos list_all2_mono

lemma mset_concat_sum: "mset (concat xss) = sum_mset (image_mset mset (mset xss))"
  by (induction xss) simp_all

lemma same_pairs: "same_value v v' \<Longrightarrow> mset (value_pairs p key v) = mset (value_pairs p key v')"
proof (induction arbitrary: p key rule: same_value.induct)
  case (slice l l')
  then have "mset (list_pairs p i l) = mset (list_pairs p i l')" for i
    by (induction arbitrary: i rule: list_all2_induct) (simp_all add: pairs_Cons del: list_pairs.simps(2))
  then show ?case by (simp add: value_pairs_def)
next
  case (gmap m m' m'')
  have "mset (map_pairs m) = mset (map_pairs m')"
    using gmap(1,3)
  proof (induction m arbitrary: m')
    case (Cons kv m)
    obtain k v where kv: "kv = (k, v)" by (cases kv)
    obtain v' m1 where m': "m' = (k, v') # m1" using Cons.prems(1) kv by (cases m') auto
    with Cons kv show ?case by (simp add: pairs_Cons del: map_pairs.simps(2))
  qed simp
  also have "\<dots> = mset (map_pairs m'')"
  proof -
    have "mset (map (\<lambda>(k, v). value_pairs k k v) m') = mset (map (\<lambda>(k, v). value_pairs k k v) m'')"
      using gmap(2) by simp
    then show ?thesis by (simp only: map_pairs_concat mset_concat_sum)
  qed
  finally show ?case by (simp add: value_pairs_def)
qed simp

lemma put_all_distinct:
  "distinct (map fst kvs) \<Longrightarrow> fst ` set kvs \<inter> fst ` set m = {} \<Longrightarrow> put_all kvs m = m @ kvs"
proof (induction kvs arbitrary: m)
  case (Cons kv kvs)
  obtain k v where kv: "kv = (k, v)" by (cases kv)
  with Cons.prems have "gm_put k v m = m @ [(k, v)]" by (intro gm_put_fresh) auto
  with Cons kv show ?case by auto
qed simp

text \<open>C25: a map that CEL returns has one outcome if its leaves have different keys. Whatever the order
  in which the maps inside it are walked, the resolved labels are then the same Go map, the
  leaves under their keys.\<close>

theorem cel_map_order_free:
  assumes "same_value (GMap m) (GMap m')" and "distinct (map fst (map_pairs m))"
  shows "gm_same (processResult q (CELMapNative m)) (processResult q (CELMapNative m'))
     \<and> mset (processResult q (CELMapNative m')) = mset (map_pairs m)"
proof -
  have pairs: "mset (map_pairs m) = mset (map_pairs m')"
    using same_pairs [OF assms(1), of "[]" "[]"] by (simp add: value_pairs_def)
  then have "distinct (map fst (map_pairs m'))"
    using assms(2) by (metis distinct_map mset_eq_setD mset_map mset_eq_imp_distinct_iff)
  then have "processResult q (CELMapNative m') = map_pairs m'" "processResult q (CELMapNative m) = map_pairs m"
    using assms(2) put_all_distinct [of _ "[]"] by (simp_all add: processResult_def resolve_inner_pairs)
  with pairs assms(2) \<open>distinct (map fst (map_pairs m'))\<close> show ?thesis
    by (simp add: gm_same_def gm_ok_def)
qed

theorem cel_map_order_free_witness:
  "gm_same (processResult [] (CELMapNative [(''a'', GBool True), (''m'', GMap [(''x'', GBool False), (''y'', GNil)])]))
     (processResult [] (CELMapNative [(''m'', GMap [(''y'', GNil), (''x'', GBool False)]), (''a'', GBool True)]))"
proof -
  have "same_value (GMap [(''x'', GBool False), (''y'', GNil)]) (GMap [(''y'', GNil), (''x'', GBool False)])"
    by (rule same_value.gmap [of _ "[(''x'', GBool False), (''y'', GNil)]"]) (simp_all add: same_value.refl)
  then have "same_value (GMap [(''a'', GBool True), (''m'', GMap [(''x'', GBool False), (''y'', GNil)])])
      (GMap [(''m'', GMap [(''y'', GNil), (''x'', GBool False)]), (''a'', GBool True)])"
    by (intro same_value.gmap [of _ "[(''a'', GBool True), (''m'', GMap [(''y'', GNil), (''x'', GBool False)])]"])
      (simp_all add: same_value.refl)
  then show ?thesis by (rule cel_map_order_free [THEN conjunct1]) simp
qed

text \<open>Where two leaves have one key, the walk decides: the last one stored stays. And the elements of
  nested lists share the keys of their indices, so that a later list overwrites an earlier one.\<close>

lemma colliding_leaves_depend_on_the_walk:
  "\<exists>m m'. same_value (GMap m) (GMap m')
     \<and> \<not> gm_same (processResult q (CELMapNative m)) (processResult q (CELMapNative m'))"
proof (intro exI conjI)
  let ?m = "[(''a'', GMap [(''x'', GBool True)]), (''b'', GMap [(''x'', GBool False)])]"
  show "same_value (GMap ?m) (GMap (rev ?m))"
    by (rule same_value.gmap [of _ ?m]) (simp_all add: same_value.refl)
  show "\<not> gm_same (processResult q (CELMapNative ?m)) (processResult q (CELMapNative (rev ?m)))"
    by (simp add: gm_same_def processResult_def format_bool_def)
qed

lemma nested_lists_overwrite:
  "processResult q (CELListNative [GSlice [GBool True], GSlice [GBool False]])
     = [(index_suffix (resolved_field_parent q) 0, ''false'')]"
  by (simp add: processResult_def format_bool_def)

end
