(* ===== verification/Go_Time.thy ===== *)
theory Go_Time
  imports Go_Text
begin

text \<open>
  The part of package \<open>time\<close> the program uses: \<open>time.Parse\<close> with the layout \<open>time.RFC3339\<close> and
  \<open>Unix\<close>. The parser follows the general loop of \<open>time.parse\<close> for that layout; the fast path of
  \<open>Parse\<close> accepts some of the same texts with the same result. An instant is its Unix second.
\<close>

section \<open>The calendar\<close>

definition is_leap :: "int \<Rightarrow> bool" where
  "is_leap y \<longleftrightarrow> y mod 4 = 0 \<and> (y mod 100 \<noteq> 0 \<or> y mod 400 = 0)"

definition days_in :: "int \<Rightarrow> int \<Rightarrow> int" where
  "days_in m y = (if m = 2 then (if is_leap y then 29 else 28)
                  else if m \<in> {4, 6, 9, 11} then 30 else 31)"

text \<open>Days before a year, counted from the year 1, and before a month of a year.\<close>

definition days_before_year :: "int \<Rightarrow> int" where
  "days_before_year y = 365 * (y - 1) + (y - 1) div 4 - (y - 1) div 100 + (y - 1) div 400"

definition days_before_month :: "int \<Rightarrow> int \<Rightarrow> int" where
  "days_before_month m y = sum_list (map (\<lambda>k. days_in k y) [1..m - 1])"

definition unix_day :: "int \<Rightarrow> int \<Rightarrow> int \<Rightarrow> int" where
  "unix_day y m d = days_before_year y + days_before_month m y + (d - 1) - 719162"

definition unix_second :: "int \<Rightarrow> int \<Rightarrow> int \<Rightarrow> int \<Rightarrow> int \<Rightarrow> int \<Rightarrow> int" where
  "unix_second y m d hour minute sec = unix_day y m d * 86400 + hour * 3600 + minute * 60 + sec"

text \<open>The count is the calendar's: it starts at the epoch and each day is the day before plus one.\<close>

fun next_day :: "int \<times> int \<times> int \<Rightarrow> int \<times> int \<times> int" where
  "next_day (y, m, d) =
     (if d < days_in m y then (y, m, d + 1) else if m < 12 then (y, m + 1, 1) else (y + 1, 1, 1))"

definition valid_date :: "int \<Rightarrow> int \<Rightarrow> int \<Rightarrow> bool" where
  "valid_date y m d \<longleftrightarrow> 1 \<le> m \<and> m \<le> 12 \<and> 1 \<le> d \<and> d \<le> days_in m y"

lemma unix_day_epoch: "unix_day 1970 1 1 = 0"
  by (simp add: unix_day_def days_before_year_def days_before_month_def)

lemma days_before_month_Suc: "1 \<le> m \<Longrightarrow> days_before_month (m + 1) y = days_before_month m y + days_in m y"
  using upto_rec2 [of 1 m] by (simp add: days_before_month_def)

lemma days_in_year: "days_before_month 12 y + days_in 12 y = (if is_leap y then 366 else 365)"
  by (simp add: days_before_month_def upto.simps days_in_def)

lemma div_step:
  fixes y k :: int
  assumes "1 < k"
  shows "y div k = (y - 1) div k + (if y mod k = 0 then 1 else 0)"
proof (cases "y mod k = 0")
  case True
  then obtain q where q: "y = k * q" by auto
  have "(y - 1) div k = q - 1"
    by (rule int_div_pos_eq [where r = "k - 1"]) (use assms in \<open>simp_all add: q algebra_simps\<close>)
  then show ?thesis using assms by (simp add: q)
next
  case False
  have r: "0 \<le> y mod k" "y mod k < k" using assms by simp_all
  have "(y - 1) div k = y div k"
    by (rule int_div_pos_eq [where r = "y mod k - 1"])
      (use False r mult_div_mod_eq [of k y] in \<open>simp_all\<close>)
  with False show ?thesis by simp
qed

lemma days_before_next_year: "days_before_year (y + 1) = days_before_year y + (if is_leap y then 366 else 365)"
proof -
  have a: "y div 4 = (y - 1) div 4 + (if y mod 4 = 0 then 1 else 0)"
    "y div 100 = (y - 1) div 100 + (if y mod 100 = 0 then 1 else 0)"
    "y div 400 = (y - 1) div 400 + (if y mod 400 = 0 then 1 else 0)"
    by (rule div_step; simp)+
  have "y mod 400 = 0 \<Longrightarrow> y mod 100 = 0" "y mod 100 = 0 \<Longrightarrow> y mod 4 = 0"
    by (auto simp: mod_eq_0_iff_dvd intro: dvd_trans [of "100 :: int" 400 y] dvd_trans [of "4 :: int" 100 y])
  then have leap: "(if y mod 4 = 0 then 1 else 0) - (if y mod 100 = 0 then 1 else 0) + (if y mod 400 = 0 then 1 else 0)
      = (if is_leap y then 1 else 0 :: int)"
    by (cases "y mod 4 = 0"; cases "y mod 100 = 0"; cases "y mod 400 = 0") (simp_all add: is_leap_def)
  have "365 * y + (A + a) - (B + b) + (C + c) = 365 * (y - 1) + A - B + C + (365 + (a - b + c))"
    for A B C a b c :: int by (simp add: algebra_simps)
  from this [of "(y - 1) div 4" _ "(y - 1) div 100" _ "(y - 1) div 400"]
  have "days_before_year (y + 1) = days_before_year y + (365 + (if is_leap y then 1 else 0))"
    by (simp only: days_before_year_def add_diff_cancel_right' a leap)
  then show ?thesis by simp
qed

lemma unix_day_next:
  assumes "valid_date y m d" and "next_day (y, m, d) = (y', m', d')"
  shows "unix_day y' m' d' = unix_day y m d + 1 \<and> valid_date y' m' d'"
proof -
  consider "d < days_in m y" | "d = days_in m y" "m < 12" | "d = days_in m y" "m = 12"
    using assms(1) by (fastforce simp: valid_date_def)
  then show ?thesis
  proof cases
    case 2
    then show ?thesis using assms days_before_month_Suc [of m y]
      by (auto simp: unix_day_def valid_date_def days_in_def)
  next
    case 3
    then show ?thesis using assms days_before_next_year [of y] days_in_year [of y]
      by (auto simp: unix_day_def valid_date_def days_in_def days_before_month_def)
  qed (use assms in \<open>auto simp: unix_day_def valid_date_def\<close>)
qed

section \<open>Parsing\<close>

text \<open>\<open>getnum\<close>: two digits, or one where the layout does not insist.\<close>

fun getnum :: "string \<Rightarrow> bool \<Rightarrow> (int \<times> string) option" where
  "getnum [] is_fixed = None"
| "getnum (c # s) is_fixed =
     (if \<not> is_digit c then None
      else (case s of
          e # t \<Rightarrow> if is_digit e then Some (int (digit_val c) * 10 + int (digit_val e), t)
                   else if is_fixed then None else Some (int (digit_val c), s)
        | [] \<Rightarrow> if is_fixed then None else Some (int (digit_val c), s)))"

definition skip_char :: "char \<Rightarrow> string \<Rightarrow> string option" where
  "skip_char c s = (case s of e # t \<Rightarrow> if e = c then Some t else None | [] \<Rightarrow> None)"

definition get_year :: "string \<Rightarrow> (int \<times> string) option" where
  "get_year s = (if length s < 4 \<or> \<not> list_all is_digit (take 4 s) then None
                 else Some (int (digits_val (take 4 s)), drop 4 s))"

text \<open>A number in a range, after a separator.\<close>

definition get_part :: "char \<Rightarrow> bool \<Rightarrow> int \<Rightarrow> int \<Rightarrow> string \<Rightarrow> (int \<times> string) option" where
  "get_part sep is_fixed lo hi s =
     (case skip_char sep s of
        None \<Rightarrow> None
      | Some s \<Rightarrow> (case getnum s is_fixed of
            None \<Rightarrow> None
          | Some (n, s) \<Rightarrow> if n < lo \<or> hi < n then None else Some (n, s)))"

text \<open>A fraction of a second, which the layout does not mention, is read and does not count.\<close>

definition skip_fraction :: "string \<Rightarrow> string" where
  "skip_fraction s = (case s of
      c # e # t \<Rightarrow> if (c = CHR ''.'' \<or> c = CHR '','') \<and> is_digit e then dropWhile is_digit t else s
    | _ \<Rightarrow> s)"

text \<open>The zone: its offset in seconds.\<close>

definition get_zone :: "string \<Rightarrow> (int \<times> string) option" where
  "get_zone s =
     (if s \<noteq> [] \<and> hd s = CHR ''Z'' then Some (0, tl s)
      else if length s < 6 \<or> s ! 3 \<noteq> CHR '':'' then None
      else (case (getnum (take 2 (drop 1 s)) True, getnum (take 2 (drop 4 s)) True) of
          (Some (hr, _), Some (mm, _)) \<Rightarrow>
            if 24 < hr \<or> 60 < mm then None
            else if hd s = CHR ''+'' then Some ((hr * 60 + mm) * 60, drop 6 s)
            else if hd s = CHR ''-'' then Some (- ((hr * 60 + mm) * 60), drop 6 s)
            else None
        | _ \<Rightarrow> None))"

definition parse_RFC3339 :: "string \<Rightarrow> int option" where
  "parse_RFC3339 s =
     (case get_year s of None \<Rightarrow> None | Some (year, s) \<Rightarrow>
      (case get_part (CHR ''-'') True 1 12 s of None \<Rightarrow> None | Some (month, s) \<Rightarrow>
      (case get_part (CHR ''-'') True 0 99 s of None \<Rightarrow> None | Some (day, s) \<Rightarrow>
      (case get_part (CHR ''T'') False 0 23 s of None \<Rightarrow> None | Some (hour, s) \<Rightarrow>
      (case get_part (CHR '':'') True 0 59 s of None \<Rightarrow> None | Some (minute, s) \<Rightarrow>
      (case get_part (CHR '':'') True 0 59 s of None \<Rightarrow> None | Some (sec, s) \<Rightarrow>
      (case get_zone (skip_fraction s) of None \<Rightarrow> None | Some (zoneOffset, s) \<Rightarrow>
         if s \<noteq> [] then None
         else if day < 1 \<or> days_in month year < day then None
         else Some (unix_second year month day hour minute sec - zoneOffset))))))))"

section \<open>Formatting and reading back\<close>

definition digit :: "int \<Rightarrow> char" where
  "digit n = dec_digit (nat (n mod 10))"

definition two_digits :: "int \<Rightarrow> string" where
  "two_digits n = [digit (n div 10), digit n]"

definition four_digits :: "int \<Rightarrow> string" where
  "four_digits n = [digit (n div 1000), digit (n div 100), digit (n div 10), digit n]"

definition rfc3339_zone :: "bool \<Rightarrow> int \<Rightarrow> int \<Rightarrow> string" where
  "rfc3339_zone east hr mm = (if east then ''+'' else ''-'') @ two_digits hr @ '':'' @ two_digits mm"

definition rfc3339_local :: "int \<Rightarrow> int \<Rightarrow> int \<Rightarrow> int \<Rightarrow> int \<Rightarrow> int \<Rightarrow> string" where
  "rfc3339_local y m d h mi s = four_digits y @ ''-'' @ two_digits m @ ''-'' @ two_digits d @ ''T''
     @ two_digits h @ '':'' @ two_digits mi @ '':'' @ two_digits s"

lemma digit_digit [simp]: "is_digit (digit n)" "int (digit_val (digit n)) = n mod 10"
  by (simp_all add: digit_def nat_less_iff)

lemma getnum_two: "0 \<le> n \<Longrightarrow> n \<le> 99 \<Longrightarrow> getnum (two_digits n @ s) b = Some (n, s)"
  by (simp add: two_digits_def)

lemma get_part_two:
  "0 \<le> n \<Longrightarrow> n \<le> 99 \<Longrightarrow> lo \<le> n \<Longrightarrow> n \<le> hi \<Longrightarrow> get_part c b lo hi (c # two_digits n @ s) = Some (n, s)"
  by (simp add: get_part_def skip_char_def getnum_two)

lemma get_year_four: "0 \<le> y \<Longrightarrow> y \<le> 9999 \<Longrightarrow> get_year (four_digits y @ s) = Some (y, s)"
proof -
  assume y: "0 \<le> y" "y \<le> 9999"
  have "int (digits_val (four_digits y)) = y div 1000 mod 10 * 1000 + y div 100 mod 10 * 100 + y div 10 mod 10 * 10 + y mod 10"
    by (simp add: digits_val_def four_digits_def)
  also have "\<dots> = y"
  proof -
    have "y div 100 = y div 10 div 10" "y div 1000 = y div 10 div 10 div 10"
      by (simp_all flip: zdiv_zmult2_eq)
    moreover have "y div 1000 mod 10 = y div 1000" using y by (intro mod_pos_pos_trivial) auto
    moreover have "q3 * 1000 + c * 100 + b * 10 + a = t" if "t = 10 * q1 + a" "q1 = 10 * q2 + b" "q2 = 10 * q3 + c"
      for t q1 q2 q3 a b c :: int using that by simp
    from this [OF mult_div_mod_eq [symmetric] mult_div_mod_eq [symmetric] mult_div_mod_eq [symmetric], of y]
    have "y div 10 div 10 div 10 * 1000 + y div 10 div 10 mod 10 * 100 + y div 10 mod 10 * 10 + y mod 10 = y" .
    ultimately show ?thesis by (simp only:)
  qed
  finally show ?thesis by (simp add: get_year_def) (simp add: four_digits_def)
qed

lemma get_zone_format:
  "0 \<le> hr \<Longrightarrow> hr \<le> 24 \<Longrightarrow> 0 \<le> mm \<Longrightarrow> mm \<le> 60 \<Longrightarrow>
     get_zone (rfc3339_zone east hr mm) = Some ((if east then 1 else - 1) * ((hr * 60 + mm) * 60), [])"
  by (simp add: get_zone_def rfc3339_zone_def two_digits_def)

lemma days_in_le: "days_in m y \<le> 31"
  by (simp add: days_in_def)

lemma parse_local:
  assumes "0 \<le> y" "y \<le> 9999" "valid_date y m d" "0 \<le> h" "h < 24" "0 \<le> mi" "mi < 60" "0 \<le> s" "s < 60"
    and "get_zone (skip_fraction rest) = Some (z, [])"
  shows "parse_RFC3339 (rfc3339_local y m d h mi s @ rest) = Some (unix_second y m d h mi s - z)"
proof -
  have "m \<le> 12" "1 \<le> m" "1 \<le> d" "d \<le> 31" "d \<le> days_in m y"
    using assms(3) days_in_le [of m y] by (auto simp: valid_date_def)
  note md = this
  have parts: "get_part (CHR ''-'') True 1 12 (CHR ''-'' # two_digits m @ r) = Some (m, r)"
    "get_part (CHR ''-'') True 0 99 (CHR ''-'' # two_digits d @ r) = Some (d, r)"
    "get_part (CHR ''T'') False 0 23 (CHR ''T'' # two_digits h @ r) = Some (h, r)"
    "get_part (CHR '':'') True 0 59 (CHR '':'' # two_digits mi @ r) = Some (mi, r)"
    "get_part (CHR '':'') True 0 59 (CHR '':'' # two_digits s @ r) = Some (s, r)" for r
    by (rule get_part_two; use md assms(4-9) in linarith)+
  have "\<not> (d < 1 \<or> days_in m y < d)" using assms(3) by (simp add: valid_date_def)
  then show ?thesis
    by (simp only: parse_RFC3339_def rfc3339_local_def append_assoc append_Cons append_Nil get_year_four [OF assms(1,2)]
        parts assms(10) option.case prod.case if_False simp_thms)
qed

text \<open>A fraction is read and dropped.\<close>

definition fraction_text :: "string \<Rightarrow> bool" where
  "fraction_text t \<longleftrightarrow> t = [] \<or> (\<exists>e ds. t = CHR ''.'' # e # ds \<and> is_digit e \<and> list_all is_digit ds)"

lemma skip_fraction_text:
  assumes "fraction_text t" and "c \<noteq> CHR ''.''" "c \<noteq> CHR '',''" "\<not> is_digit c"
  shows "skip_fraction (t @ c # rest) = c # rest"
proof (cases "t = []")
  case True
  with assms(2,3) show ?thesis by (simp add: skip_fraction_def split: list.split)
next
  case False
  with assms(1) obtain e ds where t: "t = CHR ''.'' # e # ds" "is_digit e" "list_all is_digit ds"
    by (auto simp: fraction_text_def)
  have "dropWhile is_digit (ds @ c # rest) = c # rest"
    using t(3) assms(4) by (simp add: dropWhile_append3 list_all_iff)
  with t(1,2) show ?thesis by (simp add: skip_fraction_def)
qed

lemma skip_fraction_zone:
  assumes "fraction_text t"
  shows "skip_fraction (t @ ''Z'') = ''Z''"
    and "skip_fraction (t @ rfc3339_zone east hr mm) = rfc3339_zone east hr mm"
  using skip_fraction_text [OF assms, of "CHR ''Z''" "[]"]
    skip_fraction_text [OF assms, of "if east then CHR ''+'' else CHR ''-''" "two_digits hr @ '':'' @ two_digits mm"]
  by (cases east; simp add: rfc3339_zone_def is_digit_def)+

end
