(* ===== verification/Cel_Program.thy ===== *)
theory Cel_Program
  imports Family Go_Time
begin

text \<open>
  The rest of \<open>pkg/resolver/cel.go\<close>: the environment with the custom functions, the stages from a
  query to its result, the race with the timer, and the functions of time. The stages of the CEL
  library are a parameter, each \<open>None\<close> where it returns an error; whether the timer fires first is
  a parameter too. \<open>cel_eval_of\<close> makes the field \<open>cel_eval\<close> that \<open>Resolve\<close> uses of them.
\<close>

section \<open>The functions of time\<close>

definition unixSecondsBinding :: "gval \<Rightarrow> float64 cel_binding" where
  "unixSecondsBinding arg =
     (case arg of
        GString s \<Rightarrow>
          if s = [] then BindOk f64_zero
          else (case parse_RFC3339 s of None \<Rightarrow> BindErr | Some t \<Rightarrow> BindOk (f64_of_int64 (word_of_int t)))
      | _ \<Rightarrow> BindErr)"

text \<open>The clock is given as Unix seconds.\<close>

definition nowBinding :: "int \<Rightarrow> float64" where
  "nowBinding now = f64_of_int64 (word_of_int now)"

section \<open>The environment\<close>

datatype cel_type = StringType | DoubleType | MapType cel_type cel_type

record cel_overload =
  cv_function :: string
  cv_overload :: string
  cv_args :: "cel_type list"
  cv_result :: cel_type

definition cel_functions :: "cel_overload list" where
  "cel_functions =
     [\<lparr>cv_function = ''unixSeconds'', cv_overload = ''unixSeconds_string'', cv_args = [StringType],
       cv_result = DoubleType\<rparr>,
      \<lparr>cv_function = ''quantity'', cv_overload = ''quantity_string'', cv_args = [StringType],
       cv_result = DoubleType\<rparr>,
      \<lparr>cv_function = ''labelPrefix'', cv_overload = ''labelPrefix_map_string'',
       cv_args = [MapType StringType StringType, StringType], cv_result = MapType StringType StringType\<rparr>,
      \<lparr>cv_function = ''now'', cv_overload = ''now_void'', cv_args = [], cv_result = DoubleType\<rparr>]"

record ('env, 'ast, 'program) cel_lib =
  cel_NewEnv :: "cel_overload list \<Rightarrow> 'env option"
  env_Parse :: "'env \<Rightarrow> string \<Rightarrow> 'ast option"
  env_Program :: "'env \<Rightarrow> 'ast \<Rightarrow> int64 \<Rightarrow> (string \<Rightarrow> int64) \<Rightarrow> 'program option"
  program_Eval :: "'program \<Rightarrow> (string \<times> gval) list \<Rightarrow> cel_val option"

text \<open>Built once; the same value every time after.\<close>

definition getCELEnv :: "('env, 'ast, 'program) cel_lib \<Rightarrow> 'env option" where
  "getCELEnv lib = cel_NewEnv lib cel_functions"

section \<open>From a query to its result\<close>

definition compileProgram ::
    "('env, 'ast, 'program) cel_lib \<Rightarrow> int64 \<Rightarrow> 'env \<Rightarrow> 'ast \<Rightarrow> 'program option" where
  "compileProgram lib costLimit env ast = env_Program lib env ast costLimit CallCost"

definition evaluateProgram ::
    "('env, 'ast, 'program) cel_lib \<Rightarrow> 'program \<Rightarrow> object \<Rightarrow> cel_val option" where
  "evaluateProgram lib program obj = program_Eval lib program [(''o'', GMap obj)]"

definition evaluate_query ::
    "('env, 'ast, 'program) cel_lib \<Rightarrow> int64 \<Rightarrow> string \<Rightarrow> object \<Rightarrow> cel_val option" where
  "evaluate_query lib costLimit query obj =
     (case getCELEnv lib of None \<Rightarrow> None
      | Some env \<Rightarrow> (case env_Parse lib env query of None \<Rightarrow> None
        | Some ast \<Rightarrow> (case compileProgram lib costLimit env ast of None \<Rightarrow> None
          | Some program \<Rightarrow> evaluateProgram lib program obj)))"

definition resolveWithTimeout ::
    "('env, 'ast, 'program) cel_lib \<Rightarrow> int64 \<Rightarrow> string \<Rightarrow> object \<Rightarrow> (string, string) gomap option" where
  "resolveWithTimeout lib costLimit query obj =
     map_option (processResult query) (evaluate_query lib costLimit query obj)"

definition cel_eval_of ::
    "('env, 'ast, 'program) cel_lib \<Rightarrow> (int \<Rightarrow> string \<Rightarrow> object \<Rightarrow> bool) \<Rightarrow> int64 \<Rightarrow> int \<Rightarrow> string \<Rightarrow> object
      \<Rightarrow> cel_outcome" where
  "cel_eval_of lib timer_first costLimit timeout query obj =
     (if timer_first timeout query obj then CELTimeout
      else (case evaluate_query lib costLimit query obj of None \<Rightarrow> CELFailed | Some out \<Rightarrow> CELResult out))"

section \<open>Lemmas\<close>

text \<open>Every declared function has a cost of its own, and every cost is for a declared function.\<close>

lemma costs_of_functions: "map cv_function cel_functions = map fst customFunctionsCosts"
  by (simp add: cel_functions_def customFunctionsCosts_def)

lemma CallCost_declared: "f \<in> set cel_functions \<Longrightarrow> 1 < CallCost (cv_function f)"
  by (auto simp: cel_functions_def CallCost_def customFunctionsCosts_def gm_get_def)

text \<open>\<open>Resolve\<close> over the stages: the result of the last one, or the query itself.\<close>

lemma cel_Resolve_stages:
  assumes "cel_eval lib = cel_eval_of cl timer_first"
  shows "cel_Resolve lib costLimit timeout query obj =
     (if timer_first timeout query obj then (defaultMapping query, ''timeout'')
      else (case resolveWithTimeout cl costLimit query obj of
          None \<Rightarrow> (defaultMapping query, ''error'') | Some out \<Rightarrow> (out, ''success'')))"
  by (simp add: cel_Resolve_def assms cel_eval_of_def resolveWithTimeout_def split: option.split)

text \<open>With no list among the values of a metric every sample of it carries the scalar value.\<close>

lemma extract_no_values:
  assumes "index_sorter (SortIndices lib)" and "gm_get [] ex expandedValueSentinel = []"
    and "extractAndSortExpandedMetricValues lib ex = (evs, ex')"
  shows "evs = []"
proof -
  have "length (SortIndices lib []) = 0" using index_sorter.length_srt [OF assms(1)] by simp
  then show ?thesis
    using assms(2,3) by (auto simp: extractAndSortExpandedMetricValues_def sortLabels_def apply_idx_def
        Let_def split: if_splits)
qed

lemma metric_rows_failed:
  assumes "index_sorter (SortIndices lib)" and "family_resolver f (mt_Resolver m) = Inr r"
    and "Resolve lib r (mt_Value m) (uo_Object raw) = defaultMapping (mt_Value m)"
    and "\<forall>l \<in> set (inheritMetricLabels f m). sanitizeKey lib (lb_Name l) \<noteq> expandedValueSentinel"
    and "resolveLabels lib (inheritMetricLabels f m) (\<lambda>q. Resolve lib r q (uo_Object raw)) = (ks, vs, ex)"
  shows "metric_rows lib f raw m = (if value_accepted (family_kind f) (mt_Value m)
    then sample_rows ks vs (mt_Value m) [] (snd (extractAndSortExpandedMetricValues lib ex)) else [])"
proof -
  let ?labels = "inheritMetricLabels f m" and ?res = "\<lambda>q. Resolve lib r q (uo_Object raw)"
  note lab = assms(5)
  obtain ks' vs' ex' where fo: "fold (resolve_label lib ?res) ?labels ([], [], []) = (ks', vs', ex')"
    by (cases "fold (resolve_label lib ?res) ?labels ([], [], [])") auto
  have "ex' = ex" using lab by (auto simp: resolveLabels_def fo sortLabels_def Let_def)
  note spec = resolve_labels_fold [OF fo, simplified, unfolded this]
  have "expandedValueSentinel \<notin> fst ` set ex" using assms(4) unfolding spec(4) by force
  then have "gm_get [] ex expandedValueSentinel = []" by (simp add: gm_get_def map_of_eq_None_iff [THEN iffD2])
  moreover obtain evs ex2 where x: "extractAndSortExpandedMetricValues lib ex = (evs, ex2)" by fastforce
  ultimately have evs: "evs = []" using extract_no_values [OF assms(1)] by blast
  have scalar: "resolveMetricValue ?res (mt_Value m) ex = (ValueOK (mt_Value m), ex)"
    by (simp add: resolveMetricValue_def assms(3) defaultMapping_def)
  let ?rows = "sample_rows ks vs (mt_Value m) [] ex2"
  have all: "v = mt_Value m" if "(k, vs', v) \<in> set ?rows" for k vs' v
    using that by (auto simp: sample_rows_def Let_def split: if_splits)
  have acc: "list_all (\<lambda>(_, _, v). value_accepted (family_kind f) v) ?rows"
    if "value_accepted (family_kind f) (mt_Value m)"
    unfolding list_all_iff using all that by blast
  have rej: "?rows = []"
    if "list_all (\<lambda>(_, _, v). value_accepted (family_kind f) v) ?rows" "\<not> value_accepted (family_kind f) (mt_Value m)"
  proof (rule ccontr)
    assume "?rows \<noteq> []"
    then obtain p where p: "p \<in> set ?rows" by (cases ?rows) auto
    obtain k vs' v where "p = (k, vs', v)" by (cases p) auto
    with p all that show False unfolding list_all_iff by blast
  qed
  have "metric_rows lib f raw m
      = (if list_all (\<lambda>(_, _, v). value_accepted (family_kind f) v) ?rows then ?rows else [])"
    using lab x evs scalar by (simp add: metric_rows_def assms(2) Let_def)
  then show ?thesis using acc rej by (auto simp: x)
qed

section \<open>Properties\<close>

text \<open>C38: \<open>unixSeconds\<close> is exact. A timestamp of any valid date from the year 0 to 9999, with Z or
  with an offset, with or without a fraction, is read as its second of Unix time; the day number
  in it is the calendar's, 0 for the epoch and one more for each next day.\<close>

theorem unix_seconds_exact:
  assumes "0 \<le> y" "y \<le> 9999" "valid_date y m d" "0 \<le> h" "h < 24" "0 \<le> mi" "mi < 60" "0 \<le> s" "s < 60"
    and "fraction_text fraction"
    and "zone = ''Z'' \<and> offset = 0
      \<or> (\<exists>hr mm. 0 \<le> hr \<and> hr < 24 \<and> 0 \<le> mm \<and> mm < 60
           \<and> zone = rfc3339_zone east hr mm \<and> offset = (if east then 1 else - 1) * ((hr * 60 + mm) * 60))"
  shows "unixSecondsBinding (GString (rfc3339_local y m d h mi s @ fraction @ zone))
       = BindOk (f64_of_int64 (word_of_int (unix_day y m d * 86400 + h * 3600 + mi * 60 + s - offset)))
     \<and> unix_day 1970 1 1 = 0
     \<and> (case next_day (y, m, d) of (y', m', d') \<Rightarrow> unix_day y' m' d' = unix_day y m d + 1)"
proof -
  have "get_zone (skip_fraction (fraction @ zone)) = Some (offset, [])"
    using assms(11)
  proof (elim disjE exE conjE)
    fix hr mm :: int
    assume z: "0 \<le> hr" "hr < 24" "0 \<le> mm" "mm < 60" "zone = rfc3339_zone east hr mm"
      "offset = (if east then 1 else - 1) * ((hr * 60 + mm) * 60)"
    then show ?thesis
      unfolding z(5) skip_fraction_zone(2) [OF assms(10)] using get_zone_format [of hr mm east] by simp
  qed (simp add: skip_fraction_zone [OF assms(10)] get_zone_def)
  from parse_local [OF assms(1-9) this]
  have "parse_RFC3339 (rfc3339_local y m d h mi s @ fraction @ zone) = Some (unix_second y m d h mi s - offset)" .
  moreover have "rfc3339_local y m d h mi s \<noteq> []" by (simp add: rfc3339_local_def four_digits_def)
  moreover have "case next_day (y, m, d) of (y', m', d') \<Rightarrow> unix_day y' m' d' = unix_day y m d + 1"
    using unix_day_next [OF assms(3)] by (simp split: prod.split)
  ultimately show ?thesis by (simp add: unixSecondsBinding_def unix_second_def unix_day_epoch)
qed

theorem unix_seconds_exact_witness:
  "unixSecondsBinding (GString ''2024-01-15T10:30:00.5+01:00'') = BindOk (f64_of_int64 1705311000)
   \<and> unixSecondsBinding (GString ''2024-01-15T10:30:00Z'') = BindOk (f64_of_int64 1705314600)"
proof -
  have z: "''+01:00'' = ''Z'' \<and> (3600 :: int) = 0 \<or> (\<exists>hr mm. 0 \<le> hr \<and> hr < 24 \<and> 0 \<le> mm \<and> mm < 60
      \<and> ''+01:00'' = rfc3339_zone True hr mm \<and> 3600 = (if True then 1 else - 1) * ((hr * 60 + mm) * 60))"
    by (intro disjI2 exI [of _ 1] exI [of _ 0]) (simp add: rfc3339_zone_def two_digits_def digit_def)
  have f: "fraction_text ''.5''" by (simp add: fraction_text_def is_digit_def)
  have v: "valid_date 2024 1 15" by (simp add: valid_date_def days_in_def)
  have t: "''2024-01-15T10:30:00.5+01:00'' = rfc3339_local 2024 1 15 10 30 0 @ ''.5'' @ ''+01:00''"
    by (simp add: rfc3339_local_def four_digits_def two_digits_def digit_def)
  have "unix_day 2024 1 15 = 19737"
    by (simp add: unix_day_def days_before_year_def days_before_month_def)
  note day = this
  have t': "''2024-01-15T10:30:00Z'' = rfc3339_local 2024 1 15 10 30 0 @ [] @ ''Z''"
    by (simp add: rfc3339_local_def four_digits_def two_digits_def digit_def)
  have "unixSecondsBinding (GString ''2024-01-15T10:30:00.5+01:00'') = BindOk (f64_of_int64 1705311000)"
    using unix_seconds_exact [OF _ _ v _ _ _ _ _ _ f z, of 10 30 0] unfolding t by (simp add: day)
  moreover have "unixSecondsBinding (GString ''2024-01-15T10:30:00Z'') = BindOk (f64_of_int64 1705314600)"
    using unix_seconds_exact [OF _ _ v _ _ _ _ _ _ _ disjI1 [OF conjI [OF refl refl]], of 10 30 0 "[]"]
    unfolding t' by (simp add: day fraction_text_def)
  ultimately show ?thesis ..
qed

text \<open>C39: an expression that fails stands for itself. If the value of a metric is a CEL expression
  whose evaluation times out or fails at any stage, building the environment, parsing, compiling
  or evaluating, the metric is resolved to the text of the expression. Unless that is itself a
  number the kind of the family accepts, the metric adds no text and no sample to its family,
  whatever its labels resolve to; if it is one, as \<open>inf\<close> is, it is written as the value of every
  sample of the metric. (No label name may be the key the expanded values are kept under.)\<close>

theorem failed_expression_falls_back:
  assumes "index_sorter (SortIndices lib)" and "cel_eval lib = cel_eval_of cl timer_first"
    and "family_resolver f (mt_Resolver m) = Inr (CELResolver costLimit timeout)"
    and "timer_first timeout (mt_Value m) (uo_Object raw)
      \<or> resolveWithTimeout cl costLimit (mt_Value m) (uo_Object raw) = None"
    and "\<forall>l \<in> set (inheritMetricLabels f m). sanitizeKey lib (lb_Name l) \<noteq> expandedValueSentinel"
    and "resolveLabels lib (inheritMetricLabels f m) (\<lambda>q. Resolve lib (CELResolver costLimit timeout) q (uo_Object raw))
      = (ks, vs, ex)"
  shows "build_metric lib f raw m (w, c) =
     (if value_accepted (family_kind f) (mt_Value m)
      then (let rows = sample_rows ks vs (mt_Value m) [] (snd (extractAndSortExpandedMetricValues lib ex))
            in Some (w @ concat (map (sample_line (fs_Name f) raw) rows), c + of_nat (length rows)))
      else Some (w, c))"
proof -
  have "Resolve lib (CELResolver costLimit timeout) (mt_Value m) (uo_Object raw) = defaultMapping (mt_Value m)"
    using assms(4) by (auto simp: cel_Resolve_stages [OF assms(2)])
  from metric_rows_failed [OF assms(1,3) this assms(5,6)] show ?thesis
    by (simp add: build_metric_eq [OF assms(1)] Let_def)
qed

text \<open>A library whose parser accepts nothing.\<close>

definition demo_cel :: "(unit, unit, unit) cel_lib" where
  "demo_cel = \<lparr>cel_NewEnv = (\<lambda>_. Some ()), env_Parse = (\<lambda>_ _. None),
     env_Program = (\<lambda>_ _ _ _. Some ()), program_Eval = (\<lambda>_ _. None)\<rparr>"

text \<open>The same failing library: \<open>o.\<close> adds nothing, \<open>inf\<close> is written.\<close>

theorem failed_expression_falls_back_witness:
  "build_metric ((demo_lib GNil)\<lparr>cel_eval := cel_eval_of demo_cel (\<lambda>_ _ _. False)\<rparr>) (demo_family ''m'' [] [])
     demo_object \<lparr>mt_Labels = [], mt_Value = ''o.'', mt_Resolver = ResolverTypeCEL\<rparr> (''w'', 1) = Some (''w'', 1)
   \<and> build_metric ((demo_lib GNil)\<lparr>cel_eval := cel_eval_of demo_cel (\<lambda>_ _ _. False)\<rparr>) (demo_family ''m'' [] [])
     demo_object \<lparr>mt_Labels = [], mt_Value = ''inf'', mt_Resolver = ResolverTypeCEL\<rparr> (''w'', 1)
     = Some (''w'' @ sample_line ''m'' demo_object ([], [], ''inf''), 2)"
proof -
  let ?lib = "(demo_lib GNil)\<lparr>cel_eval := cel_eval_of demo_cel (\<lambda>_ _ _. False)\<rparr>"
  let ?m = "\<lambda>q. \<lparr>mt_Labels = [], mt_Value = q, mt_Resolver = ResolverTypeCEL\<rparr>"
  have "read_special ''o.'' = None" "read_float ''o.'' = None"
    by (simp_all add: read_special_def read_float_def strip_sign_def hex_literal_def is_digit_def Let_def)
  then have "\<not> value_accepted k ''o.''" for k by (simp add: value_accepted_def ParseFloat_def)
  moreover have "value_accepted (family_kind (demo_family ''m'' [] [])) ''inf''"
  proof -
    have "lower (CHR ''i'') = CHR ''i''" "lower (CHR ''n'') = CHR ''n''" "lower (CHR ''f'') = CHR ''f''" by code_simp+
    then show ?thesis
      by (simp add: value_accepted_def ParseFloat_def read_special_def strip_sign_def Let_def value_ok_def
          family_kind_def HasSuffix_def demo_family_def)
  qed
  moreover have r: "family_resolver (demo_family ''m'' [] []) (mt_Resolver (?m q))
      = Inr (CELResolver CELDefaultCostLimit (CELDefaultTimeout * 1000000000))" for q
    by (simp add: family_resolver_def demo_family_def)
  moreover have s: "index_sorter (SortIndices ?lib)" using demo_sorter [of GNil] by simp
  moreover have l: "resolveLabels ?lib (inheritMetricLabels (demo_family ''m'' [] []) (?m q)) res = ([], [], [])" for q res
  proof -
    have "insertion_indices [] = []" by code_simp
    then show ?thesis
      by (simp add: resolveLabels_def inheritMetricLabels_def demo_family_def sortLabels_def demo_lib_def
          apply_idx_def Let_def)
  qed
  moreover have "build_metric ?lib (demo_family ''m'' [] []) demo_object (?m q) (''w'', 1) =
      (if value_accepted (family_kind (demo_family ''m'' [] [])) (mt_Value (?m q))
       then (let rows = sample_rows [] [] (mt_Value (?m q)) [] (snd (extractAndSortExpandedMetricValues ?lib []))
             in Some (''w'' @ concat (map (sample_line (fs_Name (demo_family ''m'' [] [])) demo_object) rows), 1 + of_nat (length rows)))
       else Some (''w'', 1))" for q
    by (rule failed_expression_falls_back [where cl = demo_cel and timer_first = "\<lambda>_ _ _. False", OF s _ r _ _ l])
      (auto simp: inheritMetricLabels_def demo_family_def resolveWithTimeout_def evaluate_query_def getCELEnv_def demo_cel_def)
  ultimately show ?thesis
    by (simp add: extractAndSortExpandedMetricValues_def sample_rows_def Let_def) (simp add: demo_family_def)
qed

end
