(* ===== verification/Global_Cardinality.thy ===== *)
theory Global_Cardinality
  imports Cardinality_Tracker
begin

text \<open>
  \<open>internal/cardinality_manager.go\<close>: the cardinality of every monitor (RMM) and the global
  total, keyed by the UID of the monitor. The struct field by field without its mutex, one
  definition per method.
\<close>

record global_manager =
  gcm_perResource :: "(uid, int64) gomap"
  gcm_globalTotal :: int64
  gcm_globalThreshold :: int64
  gcm_resourceDefaultThreshold :: int64
  gcm_warningRatio :: float64
  gcm_cutoffResources :: "(uid, bool) gomap"

definition NewGlobalCardinalityManager :: "int64 \<Rightarrow> int64 \<Rightarrow> float64 \<Rightarrow> global_manager" where
  "NewGlobalCardinalityManager globalThreshold resourceDefaultThreshold warningRatio =
     \<lparr>gcm_perResource = [], gcm_globalTotal = 0, gcm_globalThreshold = globalThreshold,
      gcm_resourceDefaultThreshold = resourceDefaultThreshold, gcm_warningRatio = warningRatio,
      gcm_cutoffResources = []\<rparr>"

definition UpdateResource :: "uid \<Rightarrow> int64 \<Rightarrow> global_manager \<Rightarrow> global_manager" where
  "UpdateResource uid cardinality m =
     (let t = (case map_of (gcm_perResource m) uid of
                 Some oldCardinality \<Rightarrow> gcm_globalTotal m - oldCardinality
               | None \<Rightarrow> gcm_globalTotal m)
      in m\<lparr>gcm_perResource := gm_put uid cardinality (gcm_perResource m),
           gcm_globalTotal := t + cardinality\<rparr>)"

definition DeleteResource :: "uid \<Rightarrow> global_manager \<Rightarrow> global_manager" where
  "DeleteResource uid m =
     (let m = (case map_of (gcm_perResource m) uid of
                 Some cardinality \<Rightarrow>
                   m\<lparr>gcm_globalTotal := gcm_globalTotal m - cardinality,
                     gcm_perResource := gm_del uid (gcm_perResource m)\<rparr>
               | None \<Rightarrow> m)
      in m\<lparr>gcm_cutoffResources := gm_del uid (gcm_cutoffResources m)\<rparr>)"

definition GetResourceCardinality :: "global_manager \<Rightarrow> uid \<Rightarrow> int64" where
  "GetResourceCardinality m uid = gm_get 0 (gcm_perResource m) uid"

definition GetGlobalTotal :: "global_manager \<Rightarrow> int64" where
  "GetGlobalTotal m = gcm_globalTotal m"

definition GetResourceDefaultThreshold :: "global_manager \<Rightarrow> int64" where
  "GetResourceDefaultThreshold m = gcm_resourceDefaultThreshold m"

definition GetGlobalThreshold :: "global_manager \<Rightarrow> int64" where
  "GetGlobalThreshold m = gcm_globalThreshold m"

definition GetWarningRatio :: "global_manager \<Rightarrow> float64" where
  "GetWarningRatio m = gcm_warningRatio m"

text \<open>The two parts of \<open>CheckThresholds\<close>: the monitor's own limit, then the global one.\<close>

definition check_resource ::
    "global_manager \<Rightarrow> uid \<Rightarrow> int64 \<Rightarrow> (uid, bool) gomap \<times> threshold_violation list
      \<Rightarrow> (uid, bool) gomap \<times> threshold_violation list" where
  "check_resource m uid resourceThreshold = (\<lambda>(cr, vs).
     let resourceCardinality = gm_get 0 (gcm_perResource m) uid;
         threshold = (if resourceThreshold \<le>s 0 then gcm_resourceDefaultThreshold m else resourceThreshold)
     in if 0 <s threshold
        then
          (let ratio = f64_ratio resourceCardinality threshold
           in if f64_less f64_one ratio
              then (gm_put uid True cr,
                    vs @ [violation ThresholdLevelResource ''resource'' resourceCardinality threshold SeverityCutoff])
              else if f64_leq (gcm_warningRatio m) ratio
              then (gm_put uid False cr,
                    vs @ [violation ThresholdLevelResource ''resource'' resourceCardinality threshold SeverityWarning])
              else (gm_put uid False cr, vs))
        else (cr, vs))"

definition check_global ::
    "global_manager \<Rightarrow> (uid, bool) gomap \<times> threshold_violation list
      \<Rightarrow> (uid, bool) gomap \<times> threshold_violation list" where
  "check_global m = (\<lambda>(cr, vs).
     if 0 <s gcm_globalThreshold m
     then
       (let ratio = f64_ratio (gcm_globalTotal m) (gcm_globalThreshold m)
        in if f64_less f64_one ratio
           then (fold (\<lambda>(r, _). gm_put r True) (gcm_perResource m) cr,
                 vs @ [violation ThresholdLevelGlobal ''global'' (gcm_globalTotal m)
                         (gcm_globalThreshold m) SeverityCutoff])
           else if f64_leq (gcm_warningRatio m) ratio
           then (cr, vs @ [violation ThresholdLevelGlobal ''global'' (gcm_globalTotal m)
                         (gcm_globalThreshold m) SeverityWarning])
           else (cr, vs))
     else (cr, vs))"

definition gcm_CheckThresholds ::
    "uid \<Rightarrow> int64 \<Rightarrow> global_manager \<Rightarrow> threshold_violation list \<times> global_manager" where
  "gcm_CheckThresholds uid resourceThreshold m =
     (let (cr, vs) = check_global m (check_resource m uid resourceThreshold (gcm_cutoffResources m, []))
      in (vs, m\<lparr>gcm_cutoffResources := cr\<rparr>))"

definition IsResourceCutoff :: "global_manager \<Rightarrow> uid \<Rightarrow> bool" where
  "IsResourceCutoff m uid = gm_get False (gcm_cutoffResources m) uid"

definition SetResourceCutoff :: "uid \<Rightarrow> bool \<Rightarrow> global_manager \<Rightarrow> global_manager" where
  "SetResourceCutoff uid cutoff m =
     m\<lparr>gcm_cutoffResources := gm_put uid cutoff (gcm_cutoffResources m)\<rparr>"

definition GetAllResourceCardinalities :: "global_manager \<Rightarrow> (uid, int64) gomap" where
  "GetAllResourceCardinalities m = gcm_perResource m"

section \<open>The manager is a ledger over the monitors\<close>

lemma UpdateResource_fields [simp]:
  "gcm_perResource (UpdateResource u c m) = gm_put u c (gcm_perResource m)"
  "gcm_cutoffResources (UpdateResource u c m) = gcm_cutoffResources m"
  "gcm_globalThreshold (UpdateResource u c m) = gcm_globalThreshold m"
  by (simp_all add: UpdateResource_def Let_def)

lemma DeleteResource_fields [simp]:
  "gcm_perResource (DeleteResource u m) = gm_del u (gcm_perResource m)"
  "gcm_cutoffResources (DeleteResource u m) = gm_del u (gcm_cutoffResources m)"
  "gcm_globalThreshold (DeleteResource u m) = gcm_globalThreshold m"
  by (auto simp: DeleteResource_def Let_def gm_del_absent map_of_eq_None_iff split: option.splits)

lemma UpdateResource_total:
  "gcm_globalTotal (UpdateResource u c m) = gcm_globalTotal m
     - (case map_of (gcm_perResource m) u of None \<Rightarrow> 0 | Some n \<Rightarrow> n) + c"
  by (simp add: UpdateResource_def Let_def split: option.splits)

lemma DeleteResource_total:
  "gcm_globalTotal (DeleteResource u m) = gcm_globalTotal m
     - (case map_of (gcm_perResource m) u of None \<Rightarrow> 0 | Some n \<Rightarrow> n)"
  by (simp add: DeleteResource_def Let_def split: option.splits)

interpretation gcm: ledger gcm_perResource "\<lambda>n. n" gcm_globalTotal UpdateResource DeleteResource
    "\<lambda>_. True" "\<lambda>m. gm_ok (gcm_perResource m)"
  by unfold_locales (auto simp: UpdateResource_total DeleteResource_total)

datatype manager_op =
    MUpdate uid int64
  | MDelete uid
  | MCheck uid int64
  | MSetCutoff uid bool

fun manager_step :: "manager_op \<Rightarrow> global_manager \<Rightarrow> global_manager" where
  "manager_step (MUpdate u c) m = UpdateResource u c m"
| "manager_step (MDelete u) m = DeleteResource u m"
| "manager_step (MCheck u t) m = snd (gcm_CheckThresholds u t m)"
| "manager_step (MSetCutoff u b) m = SetResourceCutoff u b m"

fun manager_spec :: "manager_op \<Rightarrow> (uid, int64) gomap \<Rightarrow> (uid, int64) gomap" where
  "manager_spec (MUpdate u c) r = gm_put u c r"
| "manager_spec (MDelete u) r = gm_del u r"
| "manager_spec _ r = r"

lemma gcm_check_keeps [simp]:
  "gcm_perResource (snd (gcm_CheckThresholds u t m)) = gcm_perResource m"
  "gcm_globalTotal (snd (gcm_CheckThresholds u t m)) = gcm_globalTotal m"
  by (simp_all add: gcm_CheckThresholds_def Let_def split_def)

lemma manager_step_balanced: "gcm.balanced m \<Longrightarrow> gcm.balanced (manager_step a m)"
proof (cases a)
  case (MCheck u t)
  then show "gcm.balanced m \<Longrightarrow> ?thesis" by (simp add: gcm.balanced_def)
next
  case (MSetCutoff u b)
  then show "gcm.balanced m \<Longrightarrow> ?thesis" by (simp add: gcm.balanced_def SetResourceCutoff_def)
qed (auto intro: gcm.balanced_put gcm.balanced_del)

lemma manager_step_spec: "gcm_perResource (manager_step a m) = manager_spec a (gcm_perResource m)"
  by (cases a) (simp_all add: SetResourceCutoff_def)

text \<open>C29: after any sequence of updates, deletes, checks and cutoff settings on a new manager,
  the entries kept are those of the last update of each monitor that was not deleted since, and
  the global total is their sum.\<close>

theorem manager_total_refines:
  "let m = fold manager_step ops (NewGlobalCardinalityManager gt rt wr); live = fold manager_spec ops []
   in gcm_perResource m = live \<and> GetGlobalTotal m = gm_sum (\<lambda>n. n) live
      \<and> (\<forall>u. GetResourceCardinality m u = gm_get 0 live u)"
proof -
  have run: "gcm.balanced m \<Longrightarrow> gcm.balanced (fold manager_step ops m)
      \<and> gcm_perResource (fold manager_step ops m) = fold manager_spec ops (gcm_perResource m)" for m
    by (induction ops arbitrary: m) (simp_all add: manager_step_balanced manager_step_spec)
  have "gcm.balanced (NewGlobalCardinalityManager gt rt wr)"
    by (simp add: gcm.balanced_def NewGlobalCardinalityManager_def)
  from run [OF this] show ?thesis
    by (simp add: Let_def gcm.balanced_def GetGlobalTotal_def GetResourceCardinality_def
        NewGlobalCardinalityManager_def)
qed

section \<open>The limits\<close>

definition resource_limit :: "global_manager \<Rightarrow> int64 \<Rightarrow> int64" where
  "resource_limit m t = (if t \<le>s 0 then gcm_resourceDefaultThreshold m else t)"

definition global_exceeded :: "global_manager \<Rightarrow> bool" where
  "global_exceeded m \<longleftrightarrow> 0 <s gcm_globalThreshold m
     \<and> f64_less f64_one (f64_ratio (gcm_globalTotal m) (gcm_globalThreshold m))"

lemma check_resource_fst:
  "gm_get False (fst (check_resource m u t (cr, vs))) u' =
     (if u' = u \<and> 0 <s resource_limit m t
      then f64_less f64_one (f64_ratio (GetResourceCardinality m u) (resource_limit m t))
      else gm_get False cr u')"
  by (auto simp: check_resource_def resource_limit_def GetResourceCardinality_def Let_def)

lemma check_global_fst:
  "gm_get False (fst (check_global m (cr, vs))) u \<longleftrightarrow>
     global_exceeded m \<and> u \<in> fst ` set (gcm_perResource m) \<or> gm_get False cr u"
  by (auto simp: check_global_def global_exceeded_def Let_def split_def cut_all_get)

lemma gcm_cutoff_iff:
  "IsResourceCutoff (snd (gcm_CheckThresholds u t m)) u' \<longleftrightarrow>
     global_exceeded m \<and> u' \<in> fst ` set (gcm_perResource m) \<or>
     (if u' = u \<and> 0 <s resource_limit m t
      then f64_less f64_one (f64_ratio (GetResourceCardinality m u) (resource_limit m t))
      else IsResourceCutoff m u')"
proof -
  obtain cr vs where "check_resource m u t (gcm_cutoffResources m, []) = (cr, vs)" by fastforce
  then show ?thesis
    using check_resource_fst [of m u t "gcm_cutoffResources m" "[]" u']
    by (simp add: IsResourceCutoff_def gcm_CheckThresholds_def Let_def split_def check_global_fst)
qed

text \<open>Within the exact range of the ratio, a check of a tracked monitor leaves it cut off
  exactly when its count is above its limit (its own when positive, otherwise the default) or
  the global total is above a positive global limit. A check of one monitor changes another
  only by cutting it off when the global limit is exceeded.\<close>

theorem manager_check_exact:
  assumes "u \<in> fst ` set (gcm_perResource m)"
    and "0 < sint (resource_limit m t)" and "sint (resource_limit m t) \<le> 2 ^ 53"
    and "sint (gcm_globalThreshold m) \<le> 2 ^ 53"
    and "sint (GetResourceCardinality m u) \<le> 2 ^ 53" and "sint (GetGlobalTotal m) \<le> 2 ^ 53"
  shows "(IsResourceCutoff (snd (gcm_CheckThresholds u t m)) u \<longleftrightarrow>
        sint (resource_limit m t) < sint (GetResourceCardinality m u)
        \<or> 0 < sint (GetGlobalThreshold m) \<and> sint (GetGlobalThreshold m) < sint (GetGlobalTotal m))
     \<and> (\<forall>u'. u' \<noteq> u \<longrightarrow> (IsResourceCutoff (snd (gcm_CheckThresholds u t m)) u' \<longleftrightarrow>
        IsResourceCutoff m u' \<or> u' \<in> fst ` set (gcm_perResource m)
          \<and> 0 < sint (GetGlobalThreshold m) \<and> sint (GetGlobalThreshold m) < sint (GetGlobalTotal m)))"
proof -
  have "global_exceeded m \<longleftrightarrow>
      0 < sint (GetGlobalThreshold m) \<and> sint (GetGlobalThreshold m) < sint (GetGlobalTotal m)"
    using assms f64_ratio_exceeds [of "gcm_globalTotal m" "gcm_globalThreshold m"]
    by (auto simp: global_exceeded_def GetGlobalThreshold_def GetGlobalTotal_def word_sless_alt)
  then show ?thesis
    using assms f64_ratio_exceeds [of "GetResourceCardinality m u" "resource_limit m t"]
    by (auto simp: gcm_cutoff_iff word_sless_alt)
qed

theorem manager_check_exact_witness:
  "\<not> IsResourceCutoff (snd (gcm_CheckThresholds ''a'' 0
      (UpdateResource ''a'' 5 (NewGlobalCardinalityManager 0 10 f64_0_8)))) ''a''"
proof -
  let ?m = "UpdateResource ''a'' 5 (NewGlobalCardinalityManager 0 10 f64_0_8)"
  have fields: "resource_limit ?m 0 = 10" "GetResourceCardinality ?m ''a'' = 5"
    "GetGlobalThreshold ?m = 0" "GetGlobalTotal ?m = 5"
    by (simp_all add: resource_limit_def GetResourceCardinality_def GetGlobalThreshold_def
        GetGlobalTotal_def UpdateResource_def NewGlobalCardinalityManager_def)
  have "gcm_globalThreshold ?m = 0" using fields(3) by (simp add: GetGlobalThreshold_def)
  then show ?thesis
    using manager_check_exact [of "''a''" ?m 0] by (simp add: fields)
qed

end
