(* ===== verification/Cardinality_Status.thy ===== *)
theory Cardinality_Status
  imports Configurer Global_Cardinality
begin

text \<open>
  The cardinality half of \<open>internal/events.go\<close>: adding up the trackers of the stores of a monitor,
  the telemetry gauges, and the cardinality part of the status. Checking the thresholds while
  aggregating updates the stores, so the stores are returned. A condition is set through
  \<open>status_Set\<close>, which panics only on a type outside its table; \<open>set_condition\<close> is used with the
  types of the table, for which it never does (\<open>set_condition_ok\<close>).
\<close>

section \<open>Aggregation\<close>

record cardinality_aggregation =
  ag_totalCardinality :: int64
  ag_perStore :: "(string, int64) gomap"
  ag_perStoreLimit :: "(string, int64) gomap"
  ag_perFamily :: "(string, int64) gomap"
  ag_perFamilyLimit :: "(string, int64) gomap"
  ag_cutoffFamilies :: "string list"
  ag_violations :: "threshold_violation list"

definition empty_aggregation :: cardinality_aggregation where
  "empty_aggregation = \<lparr>ag_totalCardinality = 0, ag_perStore = [], ag_perStoreLimit = [],
     ag_perFamily = [], ag_perFamilyLimit = [], ag_cutoffFamilies = [], ag_violations = []\<rparr>"

definition add_families :: "(string, int64) gomap \<Rightarrow> (string, int64) gomap \<Rightarrow> (string, int64) gomap" where
  "add_families familyCards m = fold (\<lambda>(family, n) m. gm_put family (gm_get 0 m family + n) m) familyCards m"

definition max_limits :: "(string, int64) gomap \<Rightarrow> (string, int64) gomap \<Rightarrow> (string, int64) gomap" where
  "max_limits familyLimits m =
     fold (\<lambda>(family, limit) m. if gm_get 0 m family <s limit then gm_put family limit m else m) familyLimits m"

text \<open>The body of the loop over the stores.\<close>

definition aggregate_store ::
    "monitor \<Rightarrow> store \<Rightarrow> cardinality_aggregation \<Rightarrow> cardinality_aggregation \<times> store" where
  "aggregate_store resource s agg =
     (case so_cardinalityTracker s of
        None \<Rightarrow> (agg, s)
      | Some ct \<Rightarrow>
          (let storeID = GetStoreIdentifier s;
               storeTotal = GetStoreTotal ct;
               (violations, s') = checkAndApplyThresholds s;
               violations = map (\<lambda>v. v\<lparr>v_StoreName := storeID, v_RMMName := rmm_Name resource,
                                      v_RMMNamespace := rmm_Namespace resource\<rparr>) violations
           in (\<lparr>ag_totalCardinality = ag_totalCardinality agg + storeTotal,
                ag_perStore = gm_put storeID storeTotal (ag_perStore agg),
                ag_perStoreLimit = gm_put storeID (GetStoreThreshold ct) (ag_perStoreLimit agg),
                ag_perFamily = add_families (GetAllFamilyCardinalities ct) (ag_perFamily agg),
                ag_perFamilyLimit = max_limits (GetAllFamilyThresholds ct) (ag_perFamilyLimit agg),
                ag_cutoffFamilies = ag_cutoffFamilies agg @ GetCutoffFamilies ct,
                ag_violations = ag_violations agg @ violations\<rparr>, s')))"

fun aggregate_stores ::
    "monitor \<Rightarrow> store list \<Rightarrow> cardinality_aggregation \<Rightarrow> cardinality_aggregation \<times> store list" where
  "aggregate_stores resource [] agg = (agg, [])"
| "aggregate_stores resource (s # ss) agg =
     (let (agg, s) = aggregate_store resource s agg;
          (agg, ss) = aggregate_stores resource ss agg
      in (agg, s # ss))"

definition aggregateStoreCardinality ::
    "monitor \<Rightarrow> store list \<Rightarrow> cardinality_aggregation \<times> store list" where
  "aggregateStoreCardinality resource stores = aggregate_stores resource stores empty_aggregation"

fun hasThresholdExceeded :: "threshold_violation list \<Rightarrow> bool" where
  "hasThresholdExceeded [] = False"
| "hasThresholdExceeded (v # vs) = (if v_Severity v = SeverityCutoff then True else hasThresholdExceeded vs)"

section \<open>Conditions\<close>

definition set_condition :: "int \<Rightarrow> nat \<Rightarrow> condition_status \<Rightarrow> string \<Rightarrow> string \<Rightarrow> monitor \<Rightarrow> monitor" where
  "set_condition now i st reason message r =
     (case status_Set now r \<lparr>cd_Type = ConditionType ! i, cd_Status = st, cd_ObservedGeneration = 0,
              cd_LastTransitionTime = 0, cd_Reason = reason, cd_Message = message\<rparr> (rmm_Status r) of
        None \<Rightarrow> r
      | Some status \<Rightarrow> r\<lparr>rmm_Status := status\<rparr>)"

definition setCardinalityConditions :: "int \<Rightarrow> threshold_violation list \<Rightarrow> monitor \<Rightarrow> monitor" where
  "setCardinalityConditions now violations r =
     (let (hasWarning, hasCutoff) =
            fold (\<lambda>v (hasWarning, hasCutoff).
                    case v_Severity v of SeverityWarning \<Rightarrow> (True, hasCutoff) | SeverityCutoff \<Rightarrow> (hasWarning, True))
              violations (False, False);
          r = (if hasCutoff then set_condition now ConditionTypeCardinalityCutoff ConditionTrue [] [] r
               else
                 (let reason = (if hasWarning then ConditionReasonTrue ! ConditionTypeCardinalityWarning
                                else ConditionReasonFalse ! ConditionTypeCardinalityCutoff)
                  in set_condition now ConditionTypeCardinalityCutoff ConditionFalse reason [] r))
      in if hasWarning \<or> hasCutoff
         then set_condition now ConditionTypeCardinalityWarning ConditionTrue [] [] r
         else set_condition now ConditionTypeCardinalityWarning ConditionFalse [] [] r)"

section \<open>Lemmas\<close>

lemma hasThresholdExceeded_iff: "hasThresholdExceeded vs \<longleftrightarrow> SeverityCutoff \<in> v_Severity ` set vs"
  by (induction vs) auto

lemma hasThresholdExceeded_Max:
  "vs \<noteq> [] \<Longrightarrow> hasThresholdExceeded vs \<longleftrightarrow> Max (v_Severity ` set vs) = SeverityCutoff"
proof -
  assume "vs \<noteq> []"
  then have "Max (v_Severity ` set vs) \<in> v_Severity ` set vs" by simp
  moreover have "SeverityCutoff \<le> Max (v_Severity ` set vs)" if "SeverityCutoff \<in> v_Severity ` set vs"
    using that by (rule Max_ge [rotated]) simp
  ultimately show ?thesis
    by (auto simp: hasThresholdExceeded_iff less_eq_violation_severity_def)
qed

lemma severities_fold:
  "fold (\<lambda>v (hasWarning, hasCutoff).
       case v_Severity v of SeverityWarning \<Rightarrow> (True, hasCutoff) | SeverityCutoff \<Rightarrow> (hasWarning, True))
     vs (a, b) = (a \<or> SeverityWarning \<in> v_Severity ` set vs, b \<or> SeverityCutoff \<in> v_Severity ` set vs)"
  by (induction vs arbitrary: a b) (auto split: violation_severity.split)

lemma add_families_get:
  "gm_ok fc \<Longrightarrow> gm_get 0 (add_families fc m) f = gm_get 0 m f + gm_get 0 fc f"
proof (induction fc arbitrary: m)
  case (Cons p fc)
  obtain g n where p: "p = (g, n)" by (cases p)
  have ok: "gm_ok fc" and g: "map_of fc g = None" using Cons.prems by (auto simp: p gm_ok_def map_of_eq_None_iff)
  have "add_families (p # fc) m = add_families fc (gm_put g (gm_get 0 m g + n) m)"
    by (simp add: add_families_def p)
  with Cons.IH [OF ok] g show ?case by (simp add: p gm_get_def update_conv)
qed (simp add: add_families_def gm_get_def)

text \<open>One condition: the shape of \<open>status_Set\<close> for the types of the table.\<close>

lemma set_condition_ok:
  assumes "i < length ConditionType"
  shows "set_condition now i st reason message r = r\<lparr>rmm_Status := (rmm_Status r)\<lparr>st_Conditions :=
     put_condition \<lparr>cd_Type = ConditionType ! i, cd_Status = st, cd_ObservedGeneration = rmm_Generation r,
        cd_LastTransitionTime = now,
        cd_Reason = (if reason \<noteq> [] then reason
                     else if st = ConditionTrue then ConditionReasonTrue ! i else ConditionReasonFalse ! i),
        cd_Message = (if st = ConditionTrue then ConditionMessageTrue ! i else ConditionMessageFalse ! i)\<rparr>
       (st_Conditions (rmm_Status r))\<rparr>\<rparr>"
  by (simp add: set_condition_def status_Set_def ConditionType_index [OF assms] Let_def)

lemmas condition_indices = ConditionTypeProcessed_def ConditionTypeFailed_def
  ConditionTypeCardinalityWarning_def ConditionTypeCardinalityCutoff_def

lemma condition_types [simp]:
  "ConditionTypeProcessed < length ConditionType" "ConditionTypeFailed < length ConditionType"
  "ConditionTypeCardinalityWarning < length ConditionType" "ConditionTypeCardinalityCutoff < length ConditionType"
  by (simp_all add: condition_indices ConditionType_def)

definition condition_of :: "nat \<Rightarrow> monitor \<Rightarrow> condition option" where
  "condition_of i r = find_condition (ConditionType ! i) (st_Conditions (rmm_Status r))"

lemma ConditionType_inj:
  "i < length ConditionType \<Longrightarrow> j < length ConditionType \<Longrightarrow> ConditionType ! i = ConditionType ! j \<longleftrightarrow> i = j"
  by (metis ConditionType_index option.inject)

lemma condition_of_set:
  assumes "i < length ConditionType" and "j < length ConditionType"
  shows "condition_of j (set_condition now i st reason message r) =
     (if i = j then Some \<lparr>cd_Type = ConditionType ! i, cd_Status = st, cd_ObservedGeneration = rmm_Generation r,
        cd_LastTransitionTime = now,
        cd_Reason = (if reason \<noteq> [] then reason
                     else if st = ConditionTrue then ConditionReasonTrue ! i else ConditionReasonFalse ! i),
        cd_Message = (if st = ConditionTrue then ConditionMessageTrue ! i else ConditionMessageFalse ! i)\<rparr>
      else condition_of j r)"
  by (auto simp: condition_of_def set_condition_ok [OF assms(1)] find_put_condition
      ConditionType_inj [OF assms] ConditionType_inj [OF assms(2,1)])

lemma set_condition_fields [simp]:
  assumes "i < length ConditionType"
  shows "rmm_Generation (set_condition now i st reason message r) = rmm_Generation r"
    "st_Cardinality (rmm_Status (set_condition now i st reason message r)) = st_Cardinality (rmm_Status r)"
    "rmm_UID (set_condition now i st reason message r) = rmm_UID r"
    "rmm_Spec (set_condition now i st reason message r) = rmm_Spec r"
    "rmm_Name (set_condition now i st reason message r) = rmm_Name r"
    "rmm_Namespace (set_condition now i st reason message r) = rmm_Namespace r"
  by (simp_all add: set_condition_ok [OF assms])

text \<open>The effect of aggregating on a store: its thresholds are checked once more.\<close>

lemma aggregate_store_eq:
  assumes "so_cardinalityTracker s = Some ct"
  shows "ag_totalCardinality (fst (aggregate_store r s agg)) = ag_totalCardinality agg + GetStoreTotal ct"
    "ag_perStore (fst (aggregate_store r s agg)) = gm_put (GetStoreIdentifier s) (GetStoreTotal ct) (ag_perStore agg)"
    "ag_perFamily (fst (aggregate_store r s agg)) = add_families (GetAllFamilyCardinalities ct) (ag_perFamily agg)"
    "snd (aggregate_store r s agg) = snd (checkAndApplyThresholds s)"
  by (simp_all add: aggregate_store_def assms Let_def split_def)

lemma aggregate_stores_snd: "snd (aggregate_stores r ss agg) = map (\<lambda>s. snd (checkAndApplyThresholds s)) ss"
proof (induction ss arbitrary: agg)
  case (Cons s ss)
  have "snd (aggregate_store r s agg) = snd (checkAndApplyThresholds s)"
    by (cases "so_cardinalityTracker s")
      (simp_all add: aggregate_store_def checkAndApplyThresholds_def Let_def split_def)
  with Cons.IH show ?case by (simp add: Let_def split_def)
qed simp

lemma checkAndApply_keeps [simp]:
  "so_metrics (snd (checkAndApplyThresholds s)) = so_metrics s"
  "so_headers (snd (checkAndApplyThresholds s)) = so_headers s"
  "length (so_Families (snd (checkAndApplyThresholds s))) = length (so_Families s)"
  "GetStoreIdentifier (snd (checkAndApplyThresholds s)) = GetStoreIdentifier s"
  by (simp_all add: checkAndApplyThresholds_def GetStoreIdentifier_def Let_def split_def split: option.split)

lemma store_inv_check:
  assumes "store_inv s"
  shows "store_inv (snd (checkAndApplyThresholds s))"
  using assms
proof (rule store_invE)
  fix ct
  assume a: "so_cardinalityTracker s = Some ct" "ct_inv ct" "gm_ok (so_metrics s)"
    "fst ` set (so_metrics s) = fst ` set (ct_perObject ct)"
    "\<forall>ts \<in> snd ` set (so_metrics s). length ts = length (so_Families s)"
    "\<forall>cs \<in> snd ` set (ct_perObject ct). fst ` set cs = fs_Name ` set (so_Families s)"
  define ct' where "ct' = snd (ct_CheckThresholds ct)"
  have s': "snd (checkAndApplyThresholds s) = s\<lparr>so_cardinalityTracker := Some ct',
      so_Families := with_cutoffs ct' (so_Families s)\<rparr>"
    by (simp add: checkAndApplyThresholds_def a(1) ct'_def with_cutoffs_def Let_def split_def)
  have "ct_inv ct'" unfolding ct'_def by (rule ct_inv_cong [OF a(2)]) simp_all
  then show ?thesis
    unfolding s' by (intro store_invI [where ct = ct' and fs = "so_Families s"])
      (use a in \<open>simp_all add: ct'_def\<close>)
qed

lemma conditions_keep_cardinality:
  "st_Cardinality (rmm_Status (setCardinalityConditions now vs r)) = st_Cardinality (rmm_Status r)"
  by (simp add: setCardinalityConditions_def Let_def split_def)

section \<open>Properties\<close>

text \<open>The samples a store's tracker accounts for, in all and of one family.\<close>

definition store_samples :: "store \<Rightarrow> int64" where
  "store_samples s = (case so_cardinalityTracker s of
     None \<Rightarrow> 0 | Some ct \<Rightarrow> gm_sum (gm_sum (\<lambda>n. n)) (ct_perObject ct))"

definition family_samples :: "string \<Rightarrow> store \<Rightarrow> int64" where
  "family_samples f s = (case so_cardinalityTracker s of
     None \<Rightarrow> 0 | Some ct \<Rightarrow> gm_sum (\<lambda>cs. gm_get 0 cs f) (ct_perObject ct))"

lemma gm_sum_put_fresh: "k \<notin> fst ` set m \<Longrightarrow> gm_sum w (gm_put k v m) = gm_sum w m + w v"
  by (induction m) (auto simp: algebra_simps)

lemma aggregate_stores_totals:
  assumes "list_all store_inv ss" and "distinct (map GetStoreIdentifier ss)"
    and "fst ` set (ag_perStore agg) \<inter> GetStoreIdentifier ` set ss = {}"
  shows "ag_totalCardinality (fst (aggregate_stores r ss agg)) = ag_totalCardinality agg + sum_list (map store_samples ss)"
    and "gm_sum (\<lambda>n. n) (ag_perStore (fst (aggregate_stores r ss agg)))
       = gm_sum (\<lambda>n. n) (ag_perStore agg) + sum_list (map store_samples ss)"
    and "gm_get 0 (ag_perFamily (fst (aggregate_stores r ss agg))) f
       = gm_get 0 (ag_perFamily agg) f + sum_list (map (family_samples f) ss)"
    and "\<forall>k. map_of (ag_perStore (fst (aggregate_stores r ss agg))) k =
       (case map_of (map (\<lambda>s. (GetStoreIdentifier s, store_samples s)) ss) k of
          None \<Rightarrow> map_of (ag_perStore agg) k | Some n \<Rightarrow> Some n)"
proof -
  have "ag_totalCardinality (fst (aggregate_stores r ss agg)) = ag_totalCardinality agg + sum_list (map store_samples ss)
    \<and> gm_sum (\<lambda>n. n) (ag_perStore (fst (aggregate_stores r ss agg)))
       = gm_sum (\<lambda>n. n) (ag_perStore agg) + sum_list (map store_samples ss)
    \<and> gm_get 0 (ag_perFamily (fst (aggregate_stores r ss agg))) f
       = gm_get 0 (ag_perFamily agg) f + sum_list (map (family_samples f) ss)
    \<and> (\<forall>k. map_of (ag_perStore (fst (aggregate_stores r ss agg))) k =
       (case map_of (map (\<lambda>s. (GetStoreIdentifier s, store_samples s)) ss) k of
          None \<Rightarrow> map_of (ag_perStore agg) k | Some n \<Rightarrow> Some n))"
    using assms
  proof (induction ss arbitrary: agg)
    case (Cons s ss)
    obtain ct where ct: "so_cardinalityTracker s = Some ct" "ct_inv ct"
      using Cons.prems(1) by (auto simp: store_inv_def)
    let ?agg = "fst (aggregate_store r s agg)" and ?id = "GetStoreIdentifier s"
    note step = aggregate_store_eq [OF ct(1), of r agg]
    have samples: "GetStoreTotal ct = store_samples s"
      "gm_get 0 (GetAllFamilyCardinalities ct) f = family_samples f s" "gm_ok (GetAllFamilyCardinalities ct)"
      using ct by (auto simp: ct_inv_def store_samples_def family_samples_def GetFamilyCardinality_def
          GetAllFamilyCardinalities_def ct_ok_def)
    have fresh: "?id \<notin> fst ` set (ag_perStore agg)" "?id \<notin> GetStoreIdentifier ` set ss"
      using Cons.prems(2,3) by auto
    have rest: "map_of (map (\<lambda>s. (GetStoreIdentifier s, store_samples s)) ss) ?id = None"
      using fresh(2) by (simp add: map_of_eq_None_iff image_image)
    have "fst ` set (ag_perStore ?agg) \<inter> GetStoreIdentifier ` set ss = {}"
      using Cons.prems(3) fresh(2) by (auto simp: step(2))
    from Cons.IH [OF _ _ this] Cons.prems(1,2) rest show ?case
      by (auto simp: Let_def split_def step(1-3) samples gm_sum_put_fresh [OF fresh(1)] add_families_get
          update_conv algebra_simps split: option.split)
  qed simp
  then show "ag_totalCardinality (fst (aggregate_stores r ss agg)) = ag_totalCardinality agg + sum_list (map store_samples ss)"
    and "gm_sum (\<lambda>n. n) (ag_perStore (fst (aggregate_stores r ss agg)))
       = gm_sum (\<lambda>n. n) (ag_perStore agg) + sum_list (map store_samples ss)"
    and "gm_get 0 (ag_perFamily (fst (aggregate_stores r ss agg))) f
       = gm_get 0 (ag_perFamily agg) f + sum_list (map (family_samples f) ss)"
    and "\<forall>k. map_of (ag_perStore (fst (aggregate_stores r ss agg))) k =
       (case map_of (map (\<lambda>s. (GetStoreIdentifier s, store_samples s)) ss) k of
          None \<Rightarrow> map_of (ag_perStore agg) k | Some n \<Rightarrow> Some n)"
    by blast+
qed

lemma aggregate_counts:
  assumes "list_all store_inv ss" and "distinct (map GetStoreIdentifier ss)"
    and "aggregateStoreCardinality r ss = (agg, ss')"
  shows "ag_totalCardinality agg = sum_list (map store_samples ss)
     \<and> gm_sum (\<lambda>n. n) (ag_perStore agg) = ag_totalCardinality agg
     \<and> (\<forall>s \<in> set ss. map_of (ag_perStore agg) (GetStoreIdentifier s) = Some (store_samples s))
     \<and> (\<forall>f. gm_get 0 (ag_perFamily agg) f = sum_list (map (family_samples f) ss))"
proof -
  have agg: "agg = fst (aggregate_stores r ss empty_aggregation)"
    using assms(3) by (simp add: aggregateStoreCardinality_def)
  have e: "fst ` set (ag_perStore empty_aggregation) \<inter> GetStoreIdentifier ` set ss = {}"
    by (simp add: empty_aggregation_def)
  note totals = aggregate_stores_totals [OF assms(1,2) e, of r]
  have "map_of (ag_perStore agg) (GetStoreIdentifier s) = Some (store_samples s)" if "s \<in> set ss" for s
  proof -
    have "(GetStoreIdentifier s, store_samples s) \<in> set (map (\<lambda>s. (GetStoreIdentifier s, store_samples s)) ss)"
      using that by auto
    moreover have "distinct (map fst (map (\<lambda>s. (GetStoreIdentifier s, store_samples s)) ss))"
      using assms(2) by (simp add: comp_def)
    ultimately have "map_of (map (\<lambda>s. (GetStoreIdentifier s, store_samples s)) ss) (GetStoreIdentifier s)
        = Some (store_samples s)" by (rule map_of_is_SomeI [rotated])
    then show ?thesis using totals(4) by (simp add: agg)
  qed
  with totals(1-3) show ?thesis by (simp add: agg) (simp add: empty_aggregation_def gm_get_def)
qed

text \<open>C13: the aggregation of consistent stores with distinct identifiers counts every sample once.
  The total is the number of samples of all objects of all stores, it is the sum of the
  per-store numbers, each store is listed with its own number, and each family with the
  number of its samples over all stores.\<close>

theorem aggregate_totals:
  assumes "list_all store_inv ss" and "distinct (map GetStoreIdentifier ss)"
    and "aggregateStoreCardinality r ss = (agg, ss')"
  shows "ag_totalCardinality agg = sum_list (map store_samples ss)
     \<and> gm_sum (\<lambda>n. n) (ag_perStore agg) = ag_totalCardinality agg
     \<and> (\<forall>s \<in> set ss. map_of (ag_perStore agg) (GetStoreIdentifier s) = Some (store_samples s))
     \<and> (\<forall>f. gm_get 0 (ag_perFamily agg) f = sum_list (map (family_samples f) ss))"
  by (rule aggregate_counts [OF assms])

theorem aggregate_totals_witness:
  "\<exists>s agg ss'. store_Add (demo_lib GNil) (Some demo_object) demo_store = Some (s, False)
     \<and> aggregateStoreCardinality (demo_monitor []) [s] = (agg, ss')
     \<and> map_of (ag_perStore agg) (GetStoreIdentifier s) = Some (ag_totalCardinality agg)"
proof -
  obtain s where a: "store_Add (demo_lib GNil) (Some demo_object) demo_store = Some (s, False)" "store_inv s"
    using store_inv_Add [OF demo_sorter [of GNil] demo_store_inv, where obj = demo_object] by blast
  obtain agg ss' where g: "aggregateStoreCardinality (demo_monitor []) [s] = (agg, ss')"
    by (cases "aggregateStoreCardinality (demo_monitor []) [s]") auto
  from aggregate_totals [OF _ _ g] a g show ?thesis by auto
qed

text \<open>C32: the conditions say whether there is a cutoff and whether there is a violation. The cutoff
  condition is true, with its own reason, exactly when some violation is a cutoff, which is also
  what \<open>ThresholdsExceeded\<close> reports; when it is false its reason is the warning if there are
  violations and OK if there are none. The warning condition is true, with the warning as its
  reason, exactly when there is a violation of either severity, and false with OK otherwise. Both
  carry the generation of the monitor and the time, and no other condition changes.\<close>

theorem cardinality_conditions_exact:
  assumes "r' = setCardinalityConditions now vs r"
  shows "(\<exists>c. condition_of ConditionTypeCardinalityCutoff r' = Some c
        \<and> cd_Status c = (if SeverityCutoff \<in> v_Severity ` set vs then ConditionTrue else ConditionFalse)
        \<and> cd_Reason c = (if SeverityCutoff \<in> v_Severity ` set vs then ''CardinalityCutoff''
                         else if vs = [] then ''CardinalityOK'' else ''CardinalityWarning'')
        \<and> cd_ObservedGeneration c = rmm_Generation r \<and> cd_LastTransitionTime c = now)
     \<and> (\<exists>c. condition_of ConditionTypeCardinalityWarning r' = Some c
        \<and> cd_Status c = (if vs \<noteq> [] then ConditionTrue else ConditionFalse)
        \<and> cd_Reason c = (if vs \<noteq> [] then ''CardinalityWarning'' else ''CardinalityOK'')
        \<and> cd_ObservedGeneration c = rmm_Generation r \<and> cd_LastTransitionTime c = now)
     \<and> (hasThresholdExceeded vs \<longleftrightarrow> SeverityCutoff \<in> v_Severity ` set vs)
     \<and> condition_of ConditionTypeProcessed r' = condition_of ConditionTypeProcessed r
     \<and> condition_of ConditionTypeFailed r' = condition_of ConditionTypeFailed r
     \<and> st_Cardinality (rmm_Status r') = st_Cardinality (rmm_Status r)"
proof -
  let ?sev = "v_Severity ` set vs"
  have some: "vs \<noteq> [] \<longleftrightarrow> SeverityWarning \<in> ?sev \<or> SeverityCutoff \<in> ?sev"
    by (cases vs) (auto, metis violation_severity.exhaust)
  have r': "r' = (let r = (if SeverityCutoff \<in> ?sev
             then set_condition now ConditionTypeCardinalityCutoff ConditionTrue [] [] r
             else set_condition now ConditionTypeCardinalityCutoff ConditionFalse
               (if SeverityWarning \<in> ?sev then ''CardinalityWarning'' else ''CardinalityOK'') [] r)
       in set_condition now ConditionTypeCardinalityWarning (if vs \<noteq> [] then ConditionTrue else ConditionFalse) [] [] r)"
    by (auto simp: assms setCardinalityConditions_def severities_fold some Let_def
        condition_indices ConditionReasonTrue_def ConditionReasonFalse_def)
  have neq: "ConditionTypeCardinalityWarning \<noteq> ConditionTypeCardinalityCutoff"
    "ConditionTypeCardinalityWarning \<noteq> ConditionTypeProcessed" "ConditionTypeCardinalityCutoff \<noteq> ConditionTypeProcessed"
    "ConditionTypeCardinalityWarning \<noteq> ConditionTypeFailed" "ConditionTypeCardinalityCutoff \<noteq> ConditionTypeFailed"
    by (simp_all add: condition_indices)
  have reason: "ConditionReasonTrue ! ConditionTypeCardinalityCutoff = ''CardinalityCutoff''"
    "ConditionReasonTrue ! ConditionTypeCardinalityWarning = ''CardinalityWarning''"
    "ConditionReasonFalse ! ConditionTypeCardinalityWarning = ''CardinalityOK''"
    by (simp_all add: condition_indices ConditionReasonTrue_def ConditionReasonFalse_def)
  show ?thesis
    using some unfolding r' Let_def hasThresholdExceeded_iff
    by (simp add: condition_of_set neq neq [symmetric] reason)
qed

theorem cardinality_conditions_exact_witness:
  "\<exists>c c'. condition_of ConditionTypeCardinalityCutoff (setCardinalityConditions 0
        [violation ThresholdLevelStore ''store'' 2 1 SeverityCutoff] (demo_monitor [])) = Some c
     \<and> cd_Status c = ConditionTrue \<and> cd_Reason c = ''CardinalityCutoff''
     \<and> condition_of ConditionTypeCardinalityWarning (setCardinalityConditions 0
        [violation ThresholdLevelStore ''store'' 2 1 SeverityCutoff] (demo_monitor [])) = Some c'
     \<and> cd_Status c' = ConditionTrue \<and> cd_Reason c' = ''CardinalityWarning''"
  using cardinality_conditions_exact [OF refl, of 0 "[violation ThresholdLevelStore ''store'' 2 1 SeverityCutoff]"
      "demo_monitor []"]
  by auto

end
