(* ===== verification/Metric_Writer.thy ===== *)
theory Metric_Writer
  imports Metric_Store
begin

text \<open>
  \<open>internal/writer.go\<close>: writing the cached texts of the stores to the connection of a scrape.
  The \<open>io.Writer\<close> is a parameter, a function from its state and the bytes of one call to its
  next state, the number of bytes it took and whether it returned an error; the bytes taken are
  recorded beside its state. \<open>io_contract\<close> is the documented contract of \<open>io.Writer\<close>: a call that
  takes fewer bytes than it was given returns an error. The order in which Go ranges over the
  map of texts is the order of the association list \<open>so_metrics\<close>; the properties hold for each.
\<close>

type_synonym 'w io_writer = "'w \<Rightarrow> string \<Rightarrow> 'w \<times> nat \<times> bool"

type_synonym 'w sink = "'w \<times> string"

definition io_contract :: "'w io_writer \<Rightarrow> bool" where
  "io_contract wr \<longleftrightarrow>
     (\<forall>w p. case wr w p of (_, n, err) \<Rightarrow> n \<le> length p \<and> (n < length p \<longrightarrow> err))"

section \<open>The code\<close>

definition sink_Write :: "'w io_writer \<Rightarrow> string \<Rightarrow> 'w sink \<Rightarrow> 'w sink \<times> bool" where
  "sink_Write wr p = (\<lambda>(w, out). case wr w p of (w', n, err) \<Rightarrow> ((w', out @ take n p), err))"

definition writeHeader :: "'w io_writer \<Rightarrow> string \<Rightarrow> 'w sink \<Rightarrow> 'w sink \<times> bool" where
  "writeHeader wr header k =
     (let header = (if header \<noteq> [] \<and> header \<noteq> [CHR 0x0A] then header @ [CHR 0x0A] else header)
      in sink_Write wr header k)"

definition writeMetricFamily :: "'w io_writer \<Rightarrow> string \<Rightarrow> 'w sink \<Rightarrow> 'w sink \<times> bool" where
  "writeMetricFamily wr metric k = sink_Write wr metric k"

text \<open>The loop over the map of texts, at family index \<open>i\<close>.\<close>

fun write_objects :: "'w io_writer \<Rightarrow> nat \<Rightarrow> (uid, string list) gomap \<Rightarrow> 'w sink \<Rightarrow> 'w sink \<times> bool" where
  "write_objects wr i [] k = (k, False)"
| "write_objects wr i ((_, metricFamilies) # rest) k =
     (if length metricFamilies \<le> i then write_objects wr i rest k
      else (case writeMetricFamily wr (metricFamilies ! i) k of
              (k, err) \<Rightarrow> if err then (k, True) else write_objects wr i rest k))"

text \<open>One round of the loop over the headers.\<close>

definition write_index :: "'w io_writer \<Rightarrow> store \<Rightarrow> nat \<Rightarrow> string \<Rightarrow> 'w sink \<Rightarrow> 'w sink \<times> bool" where
  "write_index wr s i header k =
     (case writeHeader wr header k of (k, err) \<Rightarrow>
        if err then (k, True)
        else (case write_objects wr i (so_metrics s) k of (k, err) \<Rightarrow>
          if err then (k, True)
          else if i < length (so_Families s)
          then (let ph = buildPeripheralHeader (so_Families s ! i)
                in if ph \<noteq> [] then writeHeader wr ph k else (k, False))
          else (k, False)))"

fun write_indices :: "'w io_writer \<Rightarrow> store \<Rightarrow> nat \<Rightarrow> string list \<Rightarrow> 'w sink \<Rightarrow> 'w sink \<times> bool" where
  "write_indices wr s i [] k = (k, False)"
| "write_indices wr s i (header # headers) k =
     (case write_index wr s i header k of (k, err) \<Rightarrow>
        if err then (k, True) else write_indices wr s (Suc i) headers k)"

definition writeFromStore :: "'w io_writer \<Rightarrow> store \<Rightarrow> 'w sink \<Rightarrow> 'w sink \<times> bool" where
  "writeFromStore wr s k = write_indices wr s 0 (so_headers s) k"

fun writeStores :: "'w io_writer \<Rightarrow> store list \<Rightarrow> 'w sink \<Rightarrow> 'w sink \<times> bool" where
  "writeStores wr [] k = (k, False)"
| "writeStores wr (s # ss) k =
     (case writeFromStore wr s k of (k, err) \<Rightarrow> if err then (k, True) else writeStores wr ss k)"

section \<open>What is written\<close>

text \<open>The exposition of a store: for each header in order, the header as a line, the texts of the
  objects for that family, and the creation sample of a counter.\<close>

definition header_line :: "string \<Rightarrow> string" where
  "header_line h = (if h \<noteq> [] \<and> h \<noteq> [CHR 0x0A] then h @ [CHR 0x0A] else h)"

definition family_block :: "store \<Rightarrow> nat \<Rightarrow> string list" where
  "family_block s i =
     header_line (so_headers s ! i)
     # map (\<lambda>ts. ts ! i) (filter (\<lambda>ts. i < length ts) (map snd (so_metrics s)))
     @ (if i < length (so_Families s) \<and> buildPeripheralHeader (so_Families s ! i) \<noteq> []
        then [header_line (buildPeripheralHeader (so_Families s ! i))] else [])"

definition exposition :: "store list \<Rightarrow> string list" where
  "exposition ss = concat (map (\<lambda>s. concat (map (family_block s) [0..<length (so_headers s)])) ss)"

text \<open>Every writer above is a sequence of calls, cut short at the first error.\<close>

fun write_seq_to :: "'w io_writer \<Rightarrow> string list \<Rightarrow> 'w sink \<Rightarrow> 'w sink \<times> bool" where
  "write_seq_to wr [] k = (k, False)"
| "write_seq_to wr (p # ps) k =
     (case sink_Write wr p k of (k, err) \<Rightarrow> if err then (k, True) else write_seq_to wr ps k)"

named_theorems write_calls \<open>a writer as the sequence of its calls\<close>

lemma write_seq_to_append:
  "write_seq_to wr (ps @ qs) k =
     (case write_seq_to wr ps k of (k, err) \<Rightarrow> if err then (k, True) else write_seq_to wr qs k)"
  by (induction ps arbitrary: k) (auto split: prod.split)

lemma write_seq_to_single: "write_seq_to wr [p] k = sink_Write wr p k"
  by (simp split: prod.split)

lemma writeHeader_calls [write_calls]: "writeHeader wr h k = write_seq_to wr [header_line h] k"
  unfolding writeHeader_def Let_def header_line_def [symmetric] by (rule write_seq_to_single [symmetric])

lemma write_objects_calls [write_calls]:
  "write_objects wr i ms k =
     write_seq_to wr (map (\<lambda>ts. ts ! i) (filter (\<lambda>ts. i < length ts) (map snd ms))) k"
  by (induction wr i ms k rule: write_objects.induct)
    (auto simp: writeMetricFamily_def split: prod.split)

lemma write_index_calls [write_calls]:
  "i < length (so_headers s) \<Longrightarrow> write_index wr s i (so_headers s ! i) k = write_seq_to wr (family_block s i) k"
  unfolding write_index_def family_block_def write_calls Let_def
  by (auto simp: write_seq_to_append split: prod.split)

lemma write_indices_calls [write_calls]:
  "i \<le> length (so_headers s) \<Longrightarrow> write_indices wr s i (drop i (so_headers s)) k
     = write_seq_to wr (concat (map (family_block s) [i..<length (so_headers s)])) k"
proof (induction "length (so_headers s) - i" arbitrary: i k)
  case (Suc n)
  then have i: "i < length (so_headers s)" by simp
  with Suc have ih: "\<And>k. write_indices wr s (Suc i) (drop (Suc i) (so_headers s)) k
      = write_seq_to wr (concat (map (family_block s) [Suc i..<length (so_headers s)])) k"
    by simp
  show ?case
    by (simp add: upt_conv_Cons [OF i] ih write_seq_to_append write_index_calls [OF i]
        split: prod.split flip: Cons_nth_drop_Suc [OF i])
qed simp

lemma writeStores_calls: "writeStores wr ss k = write_seq_to wr (exposition ss) k"
  by (induction wr ss k rule: writeStores.induct)
    (simp_all add: exposition_def write_seq_to_append writeFromStore_def
      write_indices_calls [of 0, simplified] split: prod.split)

lemma write_seq_to_prefix:
  assumes "io_contract wr" and "write_seq_to wr ps (w, out) = ((w', out'), err)"
  shows "\<exists>m. out' = out @ take m (concat ps) \<and> (\<not> err \<longrightarrow> out' = out @ concat ps)"
  using assms(2)
proof (induction ps arbitrary: w out)
  case (Cons p ps)
  obtain w1 n e where wr: "wr w p = (w1, n, e)" by (cases "wr w p")
  have n: "n \<le> length p" "n < length p \<Longrightarrow> e"
    using assms(1) wr unfolding io_contract_def by (force split: prod.splits)+
  show ?case
  proof (cases e)
    case True
    with Cons.prems wr n have "out' = out @ take n (concat (p # ps))" "err"
      by (auto simp: sink_Write_def)
    then show ?thesis by blast
  next
    case False
    with n have "n = length p" by (cases "n < length p") auto
    with Cons.prems wr False have "write_seq_to wr ps (w1, out @ p) = ((w', out'), err)"
      by (simp add: sink_Write_def)
    then obtain m where "out' = (out @ p) @ take m (concat ps)"
        "\<not> err \<longrightarrow> out' = (out @ p) @ concat ps"
      using Cons.IH by blast
    then show ?thesis by (intro exI [of _ "length p + m"]) simp
  qed
qed auto

section \<open>Properties\<close>

text \<open>What a scrape receives is always a prefix of the exposition of the stores, store by
  store, family by family, the header before the texts of the objects and the creation sample
  after them; if the writer reports no error it is the whole exposition. So a broken
  connection truncates a scrape, it never reorders or drops a part in the middle.\<close>

theorem scrape_is_prefix:
  assumes "io_contract wr" and "writeStores wr ss (w, out) = ((w', out'), err)"
  shows "\<exists>m. out' = out @ take m (concat (exposition ss)) \<and> (\<not> err \<longrightarrow> out' = out @ concat (exposition ss))"
  using write_seq_to_prefix [OF assms(1), of "exposition ss" w out] assms(2)
  by (simp add: writeStores_calls)

text \<open>A connection that breaks after a number of bytes.\<close>

definition quota_writer :: "nat io_writer" where
  "quota_writer w p = (if length p \<le> w then (w - length p, length p, False) else (0, w, True))"

lemma quota_writer_contract: "io_contract quota_writer"
  by (simp add: io_contract_def quota_writer_def)

theorem scrape_is_prefix_witness:
  "\<exists>w out err m. writeStores quota_writer [demo_store] (10, []) = ((w, out), err)
     \<and> out = take m (concat (exposition [demo_store]))"
proof -
  obtain w out err where r: "writeStores quota_writer [demo_store] (10, []) = ((w, out), err)"
    by (cases "writeStores quota_writer [demo_store] (10, [])") auto
  from scrape_is_prefix [OF quota_writer_contract r] r show ?thesis by auto
qed

lemma peripheral_stable:
  "buildPeripheralHeader (SetCutoff c f) = buildPeripheralHeader f"
  "buildPeripheralHeader (inheritFamilyConfiguration s f) = buildPeripheralHeader f"
  "buildHeaders (SetCutoff c f) = buildHeaders f"
  by (simp_all add: buildPeripheralHeader_def generatePeripheralMetric_def buildHeaders_def SetCutoff_def
      family_kind_def inheritFamilyConfiguration_def Let_def)

lemma buildStore_headers:
  "so_headers (buildStore t g v k fs r ls cl ct ns n lm wr)
     = map buildHeaders (so_Families (buildStore t g v k fs r ls cl ct ns n lm wr))"
  by (simp add: buildStore_def newStore_def SetCardinalityTracker_def buildMetricHeaders_def Let_def)

text \<open>What one family of a store contributes when it holds one object.\<close>

definition object_block :: "'a metric_lib_scheme \<Rightarrow> uobject \<Rightarrow> store \<Rightarrow> family \<Rightarrow> string" where
  "object_block lib obj s f =
     header_line (buildHeaders f)
     @ fst (the (buildMetricString lib (inheritFamilyConfiguration s f) obj))
     @ (if family_kind f = MetricKindCounter then header_line (buildPeripheralHeader f) else [])"

lemma peripheral_empty: "buildPeripheralHeader f = [] \<longleftrightarrow> family_kind f \<noteq> MetricKindCounter"
  by (simp add: buildPeripheralHeader_def generatePeripheralMetric_def Let_def)

lemma concat_concat_map: "concat (concat (map h is)) = concat (map (\<lambda>i. concat (h i)) is)"
  by (induction "is") simp_all

lemma exposition_single:
  assumes "index_sorter (SortIndices lib)" and "so_cardinalityTracker s = Some ct"
    and "so_metrics s = []" and "so_headers s = map buildHeaders (so_Families s)"
    and "store_Add lib (Some obj) s = Some (s', e)"
  shows "concat (exposition [s']) = concat (map (object_block lib obj s) (so_Families s))"
proof -
  define ct' where "ct' = snd (ct_CheckThresholds (ct_Update (uo_UID obj) (object_counts lib obj (inherited s)) ct))"
  note eq = store_Add_eq [OF assms(1,2) ct'_def]
  have s': "so_headers s' = map buildHeaders (so_Families s)"
    "so_metrics s' = [(uo_UID obj, object_texts lib obj (inherited s))]"
    "so_Families s' = with_cutoffs ct' (inherited s)"
    using eq assms(3-5) by auto
  have "concat (family_block s' i) = object_block lib obj s (so_Families s ! i)"
    if "i < length (so_Families s)" for i
    using that
    by (simp add: family_block_def s' object_texts_def object_block_def with_cutoffs_def peripheral_stable
        peripheral_empty)
  then have "concat (concat (map (family_block s') [0..<length (so_Families s)]))
      = concat (map (\<lambda>i. object_block lib obj s (so_Families s ! i)) [0..<length (so_Families s)])"
    unfolding concat_concat_map by (intro arg_cong [where f = concat] map_cong) simp_all
  also have "\<dots> = concat (map (object_block lib obj s) (so_Families s))"
    by (intro arg_cong [where f = concat] nth_equalityI) simp_all
  finally show ?thesis by (simp add: exposition_def s')
qed

text \<open>C31: from configuration to scrape. A store built from its families that has seen one object
  is scraped as, for each family in order, its HELP and TYPE lines, the text the family builds
  for the object under the inherited configuration, and the creation sample if it is a counter.\<close>

theorem scrape_after_add:
  assumes "index_sorter (SortIndices lib)" and "io_contract wr"
    and "s = buildStore t g v k fs r ls cl ct ns n lm wr'"
    and "store_Add lib (Some obj) s = Some (s', e)"
    and "writeStores wr [s'] (w, []) = ((w', out), False)"
  shows "out = concat (map (object_block lib obj s) (so_Families s))"
proof -
  obtain tr where tr: "so_cardinalityTracker s = Some tr"
    using buildStore_fields(2) unfolding assms(3) by blast
  have "concat (exposition [s']) = concat (map (object_block lib obj s) (so_Families s))"
    by (rule exposition_single [OF assms(1) tr _ _ assms(4)])
      (simp_all add: assms(3) buildStore_fields(1) buildStore_headers)
  with write_seq_to_prefix [OF assms(2), of "exposition [s']" w "[]"] assms(5) show ?thesis
    by (auto simp: writeStores_calls)
qed

text \<open>A connection that takes everything.\<close>

definition open_writer :: "unit io_writer" where
  "open_writer w p = (w, length p, False)"

lemma open_writer_contract: "io_contract open_writer"
  by (simp add: io_contract_def open_writer_def)

lemma open_writer_ok: "write_seq_to open_writer ps k = (((), snd k @ concat ps), False)"
  by (induction ps arbitrary: k) (auto simp: sink_Write_def open_writer_def)

theorem scrape_after_add_witness:
  "\<exists>s' out. store_Add (demo_lib GNil) (Some demo_object) demo_store = Some (s', False)
     \<and> writeStores open_writer [s'] ((), []) = (((), out), False)
     \<and> out = concat (map (object_block (demo_lib GNil) demo_object demo_store) (so_Families demo_store))"
proof -
  obtain s' where a: "store_Add (demo_lib GNil) (Some demo_object) demo_store = Some (s', False)"
    using store_inv_Add [OF demo_sorter demo_store_inv] by blast
  have w: "writeStores open_writer [s'] ((), []) = (((), concat (exposition [s'])), False)"
    by (simp add: writeStores_calls open_writer_ok)
  from scrape_after_add [OF demo_sorter open_writer_contract demo_store_def a w] a w show ?thesis by blast
qed

end
