(* ===== verification/Events.thy ===== *)
theory Events
  imports Cardinality_Status Metric_Writer
begin

text \<open>
  The handlers of \<open>internal/events.go\<close> and the state of the controller they work on. The clientset
  is a parameter: the state of the API server and the three calls the handlers make, \<open>None\<close> for
  an error. The context is not cancelled, so \<open>wait.PollUntilContextTimeout\<close>, whose condition
  here never asks for another round, is one call of it. Version data and the clocks come with
  the environment of a handler. The goroutine that a successful add starts is recorded in
  \<open>cn_pending\<close>: it first waits, for at most five seconds, for the stores to be synced, and then
  for the handler to return, so it runs as a later step of its own.
\<close>

section \<open>The controller\<close>

record 'api api_client =
  api_Get :: "'api \<Rightarrow> string \<Rightarrow> string \<Rightarrow> monitor option"
  api_Update :: "'api \<Rightarrow> monitor \<Rightarrow> 'api \<times> monitor option"
  api_UpdateStatus :: "'api \<Rightarrow> monitor \<Rightarrow> 'api \<times> monitor option"

record event_env =
  en_now :: int
  en_createdAt :: int64
  en_controllerName :: string
  en_revision :: "string option"

record controller_options =
  op_CELCostLimit :: int64
  op_CELTimeout :: int
  op_GlobalCardinalityLimit :: int64
  op_ResourceCardinalityDefault :: int64
  op_CardinalityWarningRatio :: float64
  op_StarlarkTimeout :: int
  op_StarlarkMaxSteps :: int

type_synonym counter_vec = "(string list, nat) gomap"

record 'api controller =
  cn_api :: 'api
  cn_discovery :: discovery_client
  cn_options :: controller_options
  cn_stores :: "(uid, store list) gomap"
  cn_manager :: global_manager
  cn_pending :: "monitor list"
  cn_resourcesMonitored :: gauge_vec
  cn_eventsProcessed :: counter_vec
  cn_familyCardinality :: gauge_vec
  cn_familyCardinalityLimit :: gauge_vec
  cn_storeCardinality :: gauge_vec
  cn_storeCardinalityLimit :: gauge_vec
  cn_resourceCardinality :: gauge_vec
  cn_resourceCardinalityLimit :: gauge_vec
  cn_globalCardinality :: float64
  cn_globalCardinalityLimit :: float64
  cn_cardinalityExceeded :: counter_vec
  cn_duplicateStores :: "gauge_vec option"
  cn_duplicateFamilies :: "gauge_vec option"

datatype event_type = AddEvent | UpdateEvent | DeleteEvent

fun event_string :: "event_type \<Rightarrow> string" where
  "event_string AddEvent = ''addEvent''"
| "event_string UpdateEvent = ''updateEvent''"
| "event_string DeleteEvent = ''deleteEvent''"

definition inc :: "string list \<Rightarrow> counter_vec \<Rightarrow> counter_vec" where
  "inc labels m = gm_put labels (gm_get 0 m labels + 1) m"

definition count_event :: "string \<Rightarrow> string \<Rightarrow> string \<Rightarrow> string \<Rightarrow> 'api controller \<Rightarrow> 'api controller" where
  "count_event namespace name event status c =
     c\<lparr>cn_eventsProcessed := inc [namespace, name, event, status] (cn_eventsProcessed c)\<rparr>"

section \<open>Status updates\<close>

definition emitSuccess ::
    "'api api_client \<Rightarrow> event_env \<Rightarrow> monitor \<Rightarrow> condition_status \<Rightarrow> string \<Rightarrow> 'api controller
      \<Rightarrow> 'api controller \<times> monitor option" where
  "emitSuccess cl env r statusBool message c =
     (case api_Get cl (cn_api c) (rmm_Namespace r) (rmm_Name r) of
        None \<Rightarrow> (c, None)
      | Some resource \<Rightarrow>
          (let resource = set_condition (en_now env) ConditionTypeProcessed statusBool [] message resource;
               (api, res) = api_UpdateStatus cl (cn_api c) resource
           in (c\<lparr>cn_api := api\<rparr>, res)))"

definition emitFailure ::
    "'api api_client \<Rightarrow> event_env \<Rightarrow> monitor \<Rightarrow> string \<Rightarrow> 'api controller \<Rightarrow> 'api controller" where
  "emitFailure cl env r message c =
     (case api_Get cl (cn_api c) (rmm_Namespace r) (rmm_Name r) of
        None \<Rightarrow> c
      | Some resource \<Rightarrow>
          (let resource = set_condition (en_now env) ConditionTypeFailed ConditionTrue [] message resource;
               (api, _) = api_UpdateStatus cl (cn_api c) resource
           in c\<lparr>cn_api := api\<rparr>))"

text \<open>The result says whether the update failed.\<close>

definition updateMetadata ::
    "'api api_client \<Rightarrow> event_env \<Rightarrow> monitor \<Rightarrow> 'api controller \<Rightarrow> 'api controller \<times> bool" where
  "updateMetadata cl env r c =
     (case api_Get cl (cn_api c) (rmm_Namespace r) (rmm_Name r) of
        None \<Rightarrow> (c, True)
      | Some resource \<Rightarrow>
          (let labels = gm_put ''app.kubernetes.io/managed-by'' (en_controllerName env) (rmm_Labels resource);
               labels = (case en_revision env of
                   Some sha \<Rightarrow> gm_put ''app.kubernetes.io/version'' sha labels
                 | None \<Rightarrow> labels);
               (api, res) = api_Update cl (cn_api c) (resource\<lparr>rmm_Labels := labels\<rparr>)
           in (c\<lparr>cn_api := api\<rparr>, res = None)))"

section \<open>Handling an event\<close>

definition validateAndPrepareResource ::
    "'api api_client \<Rightarrow> event_env \<Rightarrow> monitor option \<Rightarrow> string \<Rightarrow> 'api controller
      \<Rightarrow> 'api controller \<times> monitor option" where
  "validateAndPrepareResource cl env obj event c =
     (case obj of
        None \<Rightarrow> (c, None)
      | Some resource \<Rightarrow>
          (case updateMetadata cl env resource c of
             (c, True) \<Rightarrow> (c, None)
           | (c, False) \<Rightarrow> emitSuccess cl env resource ConditionFalse (''Event handler received event: '' @ event) c))"

definition processAddOrUpdate :: "event_env \<Rightarrow> monitor \<Rightarrow> 'api controller \<Rightarrow> 'api controller" where
  "processAddOrUpdate env resource c =
     (let stores = gm_del (rmm_UID resource) (cn_stores c);
          opt = cn_options c;
          configurerInstance = newConfigurer (cn_discovery c) resource (op_CELCostLimit opt)
            (Seconds (op_CELTimeout opt)) (op_ResourceCardinalityDefault opt)
            (op_CardinalityWarningRatio opt) (Seconds (op_StarlarkTimeout opt))
            (op_StarlarkMaxSteps opt) (cn_duplicateStores c) (cn_duplicateFamilies c);
          (stores, duplicateStores, duplicateFamilies) = build (en_createdAt env) configurerInstance stores
      in c\<lparr>cn_stores := stores, cn_duplicateStores := duplicateStores,
           cn_duplicateFamilies := duplicateFamilies,
           cn_resourcesMonitored := gm_put [rmm_Namespace resource, rmm_Name resource] f64_one (cn_resourcesMonitored c),
           cn_pending := cn_pending c @ [resource]\<rparr>)"

definition processDelete :: "monitor \<Rightarrow> 'api controller \<Rightarrow> 'api controller" where
  "processDelete resource c =
     (let m = DeleteResource (rmm_UID resource) (cn_manager c)
      in c\<lparr>cn_stores := gm_del (rmm_UID resource) (cn_stores c),
           cn_resourcesMonitored := gm_del [rmm_Namespace resource, rmm_Name resource] (cn_resourcesMonitored c),
           cn_manager := m,
           cn_resourceCardinality := gm_del [rmm_Namespace resource, rmm_Name resource] (cn_resourceCardinality c),
           cn_globalCardinality := f64_of_int64 (GetGlobalTotal m)\<rparr>)"

text \<open>The result says whether an error was returned.\<close>

definition processEvent ::
    "'api api_client \<Rightarrow> event_env \<Rightarrow> string \<Rightarrow> monitor \<Rightarrow> 'api controller \<Rightarrow> 'api controller \<times> bool" where
  "processEvent cl env event resource c =
     (if event = event_string AddEvent \<or> event = event_string UpdateEvent
      then (processAddOrUpdate env resource c, False)
      else if event = event_string DeleteEvent then (processDelete resource c, False)
      else
        (let c = emitFailure cl env resource (''Unknown event type: '' @ event) c
         in (count_event (rmm_Namespace resource) (rmm_Name resource) event ''failed'' c, True)))"

text \<open>\<open>handleEvent\<close> never returns an error. The object's own namespace and name label the counter
  until the resource has been read back.\<close>

definition handleEvent ::
    "'api api_client \<Rightarrow> event_env \<Rightarrow> string \<Rightarrow> monitor \<Rightarrow> 'api controller \<Rightarrow> 'api controller" where
  "handleEvent cl env event obj c =
     (case validateAndPrepareResource cl env (Some obj) event c of
        (c, None) \<Rightarrow> count_event (rmm_Namespace obj) (rmm_Name obj) event ''failed'' c
      | (c, Some resource) \<Rightarrow>
          (case processEvent cl env event resource c of
             (c, True) \<Rightarrow> count_event (rmm_Namespace resource) (rmm_Name resource) event ''failed'' c
           | (c, False) \<Rightarrow>
               (case emitSuccess cl env resource ConditionTrue
                       (''Event handler successfully processed event: '' @ event) c of
                  (c, None) \<Rightarrow> count_event (rmm_Namespace resource) (rmm_Name resource) event ''failed'' c
                | (c, Some _) \<Rightarrow> count_event (rmm_Namespace resource) (rmm_Name resource) event ''success'' c)))"

section \<open>The cardinality status\<close>

definition set_gauges ::
    "(string \<Rightarrow> string list) \<Rightarrow> (string, int64) gomap \<Rightarrow> gauge_vec \<Rightarrow> gauge_vec" where
  "set_gauges labels m g = fold (\<lambda>(k, n). gm_put (labels k) (f64_of_int64 n)) m g"

definition updateCardinalityMetrics ::
    "monitor \<Rightarrow> cardinality_aggregation \<Rightarrow> 'api controller \<Rightarrow> 'api controller" where
  "updateCardinalityMetrics r agg c =
     (let ns = rmm_Namespace r; n = rmm_Name r
      in c\<lparr>cn_storeCardinality := set_gauges (\<lambda>storeID. [ns, n, storeID]) (ag_perStore agg) (cn_storeCardinality c),
           cn_storeCardinalityLimit := set_gauges (\<lambda>storeID. [ns, n, storeID]) (ag_perStoreLimit agg) (cn_storeCardinalityLimit c),
           cn_familyCardinality := set_gauges (\<lambda>family. [ns, n, [], family]) (ag_perFamily agg) (cn_familyCardinality c),
           cn_familyCardinalityLimit := set_gauges (\<lambda>family. [ns, n, [], family]) (ag_perFamilyLimit agg) (cn_familyCardinalityLimit c),
           cn_resourceCardinality := gm_put [ns, n] (f64_of_int64 (ag_totalCardinality agg)) (cn_resourceCardinality c),
           cn_resourceCardinalityLimit := gm_put [ns, n] (f64_of_int64 (GetResourceDefaultThreshold (cn_manager c))) (cn_resourceCardinalityLimit c),
           cn_globalCardinality := f64_of_int64 (GetGlobalTotal (cn_manager c)),
           cn_globalCardinalityLimit := f64_of_int64 (GetGlobalThreshold (cn_manager c))\<rparr>)"

fun level_string :: "threshold_level \<Rightarrow> string" where
  "level_string ThresholdLevelFamily = ''family''"
| "level_string ThresholdLevelStore = ''store''"
| "level_string ThresholdLevelResource = ''resource''"
| "level_string ThresholdLevelGlobal = ''global''"

definition recordCardinalityViolations ::
    "monitor \<Rightarrow> threshold_violation list \<Rightarrow> 'api controller \<Rightarrow> 'api controller" where
  "recordCardinalityViolations r vs c =
     c\<lparr>cn_cardinalityExceeded :=
        fold (\<lambda>v m. if v_Severity v = SeverityCutoff
                    then inc [rmm_Namespace r, rmm_Name r, level_string (v_Level v), v_Name v] m else m)
          vs (cn_cardinalityExceeded c)\<rparr>"

definition cardinality_patch :: "event_env \<Rightarrow> cardinality_aggregation \<Rightarrow> monitor \<Rightarrow> monitor" where
  "cardinality_patch env agg r =
     setCardinalityConditions (en_now env) (ag_violations agg)
       (r\<lparr>rmm_Status := (rmm_Status r)\<lparr>st_Cardinality := Some
          \<lparr>cs_Total = ag_totalCardinality agg, cs_PerStore = ag_perStore agg, cs_PerFamily = ag_perFamily agg,
           cs_ThresholdsExceeded = hasThresholdExceeded (ag_violations agg),
           cs_CutoffFamilies = ag_cutoffFamilies agg, cs_LastUpdated = en_now env\<rparr>\<rparr>\<rparr>)"

definition persistCardinalityStatus ::
    "'api api_client \<Rightarrow> event_env \<Rightarrow> monitor \<Rightarrow> cardinality_aggregation \<Rightarrow> 'api controller \<Rightarrow> 'api controller \<times> bool" where
  "persistCardinalityStatus cl env r agg c =
     (case api_Get cl (cn_api c) (rmm_Namespace r) (rmm_Name r) of
        None \<Rightarrow> (c, True)
      | Some gotResource \<Rightarrow>
          (let (api, res) = api_UpdateStatus cl (cn_api c) (cardinality_patch env agg gotResource)
           in (c\<lparr>cn_api := api\<rparr>, res = None)))"

definition updateCardinalityStatus ::
    "'api api_client \<Rightarrow> event_env \<Rightarrow> monitor \<Rightarrow> 'api controller \<Rightarrow> 'api controller \<times> bool" where
  "updateCardinalityStatus cl env r c =
     (case map_of (cn_stores c) (rmm_UID r) of
        None \<Rightarrow> (c, False)
      | Some stores \<Rightarrow>
          (let (agg, stores) = aggregateStoreCardinality r stores;
               m = UpdateResource (rmm_UID r) (ag_totalCardinality agg) (cn_manager c);
               (resourceViolations, m) = gcm_CheckThresholds (rmm_UID r) 0 m;
               resourceViolations = map (\<lambda>v. v\<lparr>v_RMMName := rmm_Name r, v_RMMNamespace := rmm_Namespace r\<rparr>)
                 resourceViolations;
               agg = agg\<lparr>ag_violations := ag_violations agg @ resourceViolations\<rparr>;
               c = c\<lparr>cn_stores := gm_put (rmm_UID r) stores (cn_stores c), cn_manager := m\<rparr>;
               c = updateCardinalityMetrics r agg c;
               c = recordCardinalityViolations r (ag_violations agg) c
           in persistCardinalityStatus cl env r agg c))"

section \<open>Serving a scrape\<close>

text \<open>The generator of the main server: the stores of every monitor, a failed monitor is logged.\<close>

fun serve_metrics :: "'w io_writer \<Rightarrow> (uid, store list) gomap \<Rightarrow> 'w sink \<Rightarrow> 'w sink" where
  "serve_metrics wr [] k = k"
| "serve_metrics wr ((_, stores) # rest) k = serve_metrics wr rest (fst (writeStores wr stores k))"

end
