(* ===== verification/Controller.thy ===== *)
theory Controller
  imports Events
begin

text \<open>
  \<open>internal/controller.go\<close>: the informer callbacks, the worker loop and the dispatch to the
  handlers, and the controller as a state machine. The key functions of client-go, the lister
  and the work queue are parameters: a worker reports its calls on the queue, and the only
  thing assumed of the queue is that it hands out items that were added to it. The steps of the
  machine are an informer callback, a worker processing an item, a reflector delivering an event
  to a store, and the status goroutine of a monitor; a handler is one step.
\<close>

section \<open>Callbacks and workers\<close>

datatype handled =
    HNil
  | HMonitor monitor
  | HOtherObject
  | HTombstone handled
  | HOther

datatype lister_result = LFound monitor | LNotFound | LError

type_synonym work_item = "string \<times> string"

record key_lib =
  MetaNamespaceKeyFunc :: "handled \<Rightarrow> string option"
  SplitMetaNamespaceKey :: "string \<Rightarrow> (string \<times> string) option"

datatype queue_call = QAddRateLimited work_item | QForget work_item | QDone work_item

definition newController ::
    "'api \<Rightarrow> discovery_client \<Rightarrow> controller_options \<Rightarrow> 'api controller" where
  "newController api d opt =
     \<lparr>cn_api = api, cn_discovery = d, cn_options = opt, cn_stores = [],
      cn_manager = NewGlobalCardinalityManager (op_GlobalCardinalityLimit opt)
        (op_ResourceCardinalityDefault opt) (op_CardinalityWarningRatio opt),
      cn_pending = [], cn_resourcesMonitored = [], cn_eventsProcessed = [],
      cn_familyCardinality = [], cn_familyCardinalityLimit = [], cn_storeCardinality = [],
      cn_storeCardinalityLimit = [], cn_resourceCardinality = [], cn_resourceCardinalityLimit = [],
      cn_globalCardinality = f64_zero, cn_globalCardinalityLimit = f64_zero,
      cn_cardinalityExceeded = [], cn_duplicateStores = None, cn_duplicateFamilies = None\<rparr>"

text \<open>\<open>Run\<close> makes the vectors of the telemetry, each without a series, before it starts a worker; until
  then the two the configurer asks for are nil.\<close>

definition make_vectors :: "'api controller \<Rightarrow> 'api controller" where
  "make_vectors c =
     c\<lparr>cn_resourcesMonitored := [], cn_eventsProcessed := [], cn_familyCardinality := [],
       cn_familyCardinalityLimit := [], cn_storeCardinality := [], cn_storeCardinalityLimit := [],
       cn_resourceCardinality := [], cn_resourceCardinalityLimit := [], cn_globalCardinality := f64_zero,
       cn_globalCardinalityLimit := f64_zero, cn_cardinalityExceeded := [],
       cn_duplicateStores := Some [], cn_duplicateFamilies := Some []\<rparr>"

definition running_controller ::
    "'api \<Rightarrow> discovery_client \<Rightarrow> controller_options \<Rightarrow> 'api controller" where
  "running_controller api d opt = make_vectors (newController api d opt)"

lemmas running_controller_defs = running_controller_def make_vectors_def newController_def

text \<open>The items a callback adds to the queue.\<close>

definition enqueue :: "key_lib \<Rightarrow> handled \<Rightarrow> event_type \<Rightarrow> work_item list" where
  "enqueue kl obj event =
     (case MetaNamespaceKeyFunc kl obj of None \<Rightarrow> [] | Some key \<Rightarrow> [(key, event_string event)])"

fun updateHandler :: "key_lib \<Rightarrow> handled \<Rightarrow> handled \<Rightarrow> work_item list" where
  "updateHandler kl (HMonitor oldResource) (HMonitor newResource) =
     (if rmm_ResourceVersion oldResource = rmm_ResourceVersion newResource
         \<or> rmm_Spec oldResource = rmm_Spec newResource
      then [] else enqueue kl (HMonitor newResource) UpdateEvent)"
| "updateHandler kl _ _ = []"

datatype informer_event = InfAdd handled | InfUpdate handled handled | InfDelete handled

fun registerEventHandlers :: "key_lib \<Rightarrow> informer_event \<Rightarrow> work_item list" where
  "registerEventHandlers kl (InfAdd obj) = enqueue kl obj AddEvent"
| "registerEventHandlers kl (InfUpdate old new) = updateHandler kl old new"
| "registerEventHandlers kl (InfDelete obj) = enqueue kl obj DeleteEvent"

definition handle_monitor ::
    "'api api_client \<Rightarrow> event_env \<Rightarrow> handled \<Rightarrow> string \<Rightarrow> 'api controller \<Rightarrow> 'api controller" where
  "handle_monitor cl env obj event c = (case obj of HMonitor r \<Rightarrow> handleEvent cl env event r c | _ \<Rightarrow> c)"

fun handleObject ::
    "'api api_client \<Rightarrow> event_env \<Rightarrow> handled \<Rightarrow> string \<Rightarrow> 'api controller \<Rightarrow> 'api controller" where
  "handleObject cl env HNil event c = c"
| "handleObject cl env HOther event c = c"
| "handleObject cl env (HTombstone obj) event c =
     (case obj of HMonitor _ \<Rightarrow> handle_monitor cl env obj event c
                | HOtherObject \<Rightarrow> handle_monitor cl env obj event c
                | _ \<Rightarrow> c)"
| "handleObject cl env obj event c = handle_monitor cl env obj event c"

definition empty_monitor :: monitor where
  "empty_monitor = \<lparr>rmm_Namespace = [], rmm_Name = [], rmm_UID = [], rmm_Generation = 0,
     rmm_ResourceVersion = [], rmm_Labels = [], rmm_Spec = \<lparr>cf_Stores = [], cf_CardinalityLimit = 0\<rparr>,
     rmm_Status = \<lparr>st_Conditions = [], st_Cardinality = None\<rparr>\<rparr>"

text \<open>The boolean says whether an error was returned.\<close>

definition syncHandler ::
    "'api api_client \<Rightarrow> event_env \<Rightarrow> key_lib \<Rightarrow> (string \<Rightarrow> string \<Rightarrow> lister_result) \<Rightarrow> string \<Rightarrow> string
      \<Rightarrow> 'api controller \<Rightarrow> 'api controller \<times> bool" where
  "syncHandler cl env kl lister key event c =
     (case SplitMetaNamespaceKey kl key of
        None \<Rightarrow> (c, False)
      | Some (namespace, name) \<Rightarrow>
          (case lister namespace name of
             LError \<Rightarrow> (c, True)
           | LNotFound \<Rightarrow> (handleObject cl env (HMonitor (empty_monitor\<lparr>rmm_Name := name\<rparr>)) event c, False)
           | LFound resource \<Rightarrow> (handleObject cl env (HMonitor resource) event c, False)))"

text \<open>\<open>None\<close> is a queue that shut down; the boolean says whether the worker goes on.\<close>

definition processNextWorkItem ::
    "'api api_client \<Rightarrow> event_env \<Rightarrow> key_lib \<Rightarrow> (string \<Rightarrow> string \<Rightarrow> lister_result) \<Rightarrow> work_item option
      \<Rightarrow> 'api controller \<Rightarrow> 'api controller \<times> queue_call list \<times> bool" where
  "processNextWorkItem cl env kl lister objectWithEvent c =
     (case objectWithEvent of
        None \<Rightarrow> (c, [], False)
      | Some (key, event) \<Rightarrow>
          (case syncHandler cl env kl lister key event c of
             (c, True) \<Rightarrow> (c, [QAddRateLimited (key, event), QDone (key, event)], True)
           | (c, False) \<Rightarrow> (c, [QForget (key, event), QDone (key, event)], True)))"

section \<open>The state machine\<close>

text \<open>A state is the controller and the items ever added to the queue.\<close>

inductive ctl_step ::
    "'api api_client \<Rightarrow> key_lib \<Rightarrow> 'm metric_lib_scheme \<Rightarrow> 'api controller \<times> work_item list
      \<Rightarrow> 'api controller \<times> work_item list \<Rightarrow> bool"
  for cl :: "'api api_client" and kl :: key_lib and lib :: "'m metric_lib_scheme" where
  informer: "ctl_step cl kl lib (c, items) (c, items @ registerEventHandlers kl e)"
| work: "item \<in> set items \<Longrightarrow> processNextWorkItem cl env kl lister (Some item) c = (c', calls, continue)
    \<Longrightarrow> ctl_step cl kl lib (c, items) (c', items)"
| reflect: "map_of (cn_stores c) u = Some ss \<Longrightarrow> i < length ss \<Longrightarrow> store_step lib e (ss ! i) = Some s
    \<Longrightarrow> ctl_step cl kl lib (c, items) (c\<lparr>cn_stores := gm_put u (ss[i := s]) (cn_stores c)\<rparr>, items)"
| status: "r \<in> set (cn_pending c)
    \<Longrightarrow> updateCardinalityStatus cl env r (c\<lparr>cn_pending := remove1 r (cn_pending c)\<rparr>) = (c', err)
    \<Longrightarrow> ctl_step cl kl lib (c, items) (c', items)"

inductive_cases ctl_stepE: "ctl_step cl kl lib (c, items) (c', items')"

lemmas ctl_step_cases = ctl_stepE [consumes 1, case_names informer work reflect status]

inductive ctl_reachable ::
    "'api api_client \<Rightarrow> key_lib \<Rightarrow> 'm metric_lib_scheme \<Rightarrow> 'api \<Rightarrow> discovery_client \<Rightarrow> controller_options
      \<Rightarrow> 'api controller \<times> work_item list \<Rightarrow> bool"
  for cl :: "'api api_client" and kl :: key_lib and lib :: "'m metric_lib_scheme"
    and api :: 'api and d :: discovery_client and opt :: controller_options where
  start: "ctl_reachable cl kl lib api d opt (running_controller api d opt, [])"
| step: "ctl_reachable cl kl lib api d opt x \<Longrightarrow> ctl_step cl kl lib x y \<Longrightarrow> ctl_reachable cl kl lib api d opt y"

section \<open>Calls of the API server\<close>

text \<open>Status calls touch the API server only.\<close>

definition same_but_api :: "'api controller \<Rightarrow> 'api controller \<Rightarrow> bool" where
  "same_but_api c c' \<longleftrightarrow> c' = c\<lparr>cn_api := cn_api c'\<rparr>"

lemma emitSuccess_keeps: "emitSuccess cl env r b m c = (c', res) \<Longrightarrow> same_but_api c c'"
  by (auto simp: emitSuccess_def same_but_api_def Let_def split: option.splits prod.splits)

lemma updateMetadata_keeps: "updateMetadata cl env r c = (c', e) \<Longrightarrow> same_but_api c c'"
  by (auto simp: updateMetadata_def same_but_api_def Let_def split: option.splits prod.splits)

lemma same_but_api_trans: "same_but_api a b \<Longrightarrow> same_but_api b c \<Longrightarrow> same_but_api a c"
  by (metis (no_types, lifting) same_but_api_def controller.surjective controller.update_convs(1))

lemma same_but_api_refl [simp]: "same_but_api c c"
  by (simp add: same_but_api_def)

lemma same_but_api_fields:
  assumes "same_but_api c c'"
  shows "cn_stores c' = cn_stores c" "cn_manager c' = cn_manager c" "cn_pending c' = cn_pending c"
    "cn_options c' = cn_options c" "cn_discovery c' = cn_discovery c" "cn_eventsProcessed c' = cn_eventsProcessed c"
  using assms by (metis (no_types, lifting) same_but_api_def controller.select_convs controller.surjective
      controller.update_convs(1))+

lemma validateAndPrepareResource_keeps:
  "validateAndPrepareResource cl env obj event c = (c', res) \<Longrightarrow> same_but_api c c'"
  by (auto simp: validateAndPrepareResource_def dest: updateMetadata_keeps emitSuccess_keeps
      intro: same_but_api_trans split: option.splits prod.splits bool.splits)

lemma emitFailure_keeps: "same_but_api c (emitFailure cl env r m c)"
  by (auto simp: emitFailure_def same_but_api_def Let_def split: option.splits prod.splits)

section \<open>Invariants of the controller\<close>

text \<open>What has to be kept by each part for a predicate to hold after every step: the parts are what a
  handler does to the controller, and a store event, and the status of a monitor.\<close>

locale controller_invariant =
  fixes P :: "'api controller \<Rightarrow> bool" and lib :: "'m metric_lib_scheme"
  assumes api: "P c \<Longrightarrow> P (c\<lparr>cn_api := a\<rparr>)"
    and counted: "P c \<Longrightarrow> P (count_event ns n ev st c)"
    and added: "P c \<Longrightarrow> P (processAddOrUpdate env r c)"
    and deleted: "P c \<Longrightarrow> P (processDelete r c)"
    and forked: "P c \<Longrightarrow> P (c\<lparr>cn_pending := ps\<rparr>)"
    and published: "P c \<Longrightarrow> updateCardinalityStatus cl env r c = (c', err) \<Longrightarrow> P c'"
    and reflected: "index_sorter (SortIndices lib) \<Longrightarrow> P c \<Longrightarrow> map_of (cn_stores c) u = Some ss
      \<Longrightarrow> i < length ss \<Longrightarrow> store_step lib e (ss ! i) = Some s
      \<Longrightarrow> P (c\<lparr>cn_stores := gm_put u (ss[i := s]) (cn_stores c)\<rparr>)"
begin

lemma called: "same_but_api c c' \<Longrightarrow> P c \<Longrightarrow> P c'"
  unfolding same_but_api_def by (metis api)

lemma keeps_event: "processEvent cl env e r c = (c', err) \<Longrightarrow> P c \<Longrightarrow> P c'"
  by (auto simp: processEvent_def Let_def added deleted counted called [OF emitFailure_keeps] split: if_splits)

lemma keeps_handler:
  assumes "P c"
  shows "P (handleEvent cl env event obj c)"
proof -
  obtain c1 res where v: "validateAndPrepareResource cl env (Some obj) event c = (c1, res)"
    by (cases "validateAndPrepareResource cl env (Some obj) event c")
  then have c1: "P c1" using validateAndPrepareResource_keeps called assms by blast
  show ?thesis
  proof (cases res)
    case None
    with v c1 show ?thesis by (simp add: handleEvent_def counted)
  next
    case (Some r)
    obtain c2 err where p: "processEvent cl env event r c1 = (c2, err)"
      by (cases "processEvent cl env event r c1")
    have c2: "P c2" by (rule keeps_event [OF p c1])
    obtain c3 res' where e: "emitSuccess cl env r ConditionTrue (''Event handler successfully processed event: '' @ event) c2 = (c3, res')"
      by (cases "emitSuccess cl env r ConditionTrue (''Event handler successfully processed event: '' @ event) c2")
    have "P c3" using emitSuccess_keeps [OF e] called c2 by blast
    with v Some p e c2 show ?thesis
      by (cases err; cases res') (simp_all add: handleEvent_def counted)
  qed
qed

lemma keeps_work:
  assumes "P c" and "processNextWorkItem cl env kl lister item c = (c', calls, cont)"
  shows "P c'"
proof -
  have h: "P (handleObject cl env (HMonitor r) ev c)" for r ev
    by (simp add: handle_monitor_def keeps_handler assms(1))
  have "P (fst (syncHandler cl env kl lister key ev c))" for key ev
    using assms(1) h by (simp add: syncHandler_def split: option.split prod.split lister_result.split)
  then show ?thesis using assms
    by (auto simp: processNextWorkItem_def split: option.splits prod.splits bool.splits) (metis fst_conv)+
qed

lemma keeps_step:
  assumes "ctl_step cl kl lib (c, items) (c', items')" and "index_sorter (SortIndices lib)" and "P c"
  shows "P c'"
  using assms(1)
proof (cases rule: ctl_step_cases)
  case informer
  with assms(3) show ?thesis by blast
next
  case (work item env lister calls continue)
  then show ?thesis using keeps_work [OF assms(3)] by blast
next
  case (reflect u ss i e s)
  then show ?thesis using reflected [OF assms(2,3)] by blast
next
  case (status r env err)
  then show ?thesis using published forked [OF assms(3)] by blast
qed

lemma keeps_reachable:
  assumes "ctl_reachable cl kl lib api d opt x" and "index_sorter (SortIndices lib)"
    and "P (running_controller api d opt)"
  shows "P (fst x)"
  using assms(1)
proof (induction rule: ctl_reachable.induct)
  case (step x y)
  then show ?case using keeps_step [OF _ assms(2)] by (cases x; cases y) auto
qed (simp add: assms(3))

end

section \<open>The consistency of stores and manager\<close>

definition ctl_inv :: "'api controller \<Rightarrow> bool" where
  "ctl_inv c \<longleftrightarrow> gm_ok (cn_stores c) \<and> gcm.balanced (cn_manager c)
     \<and> (\<forall>ss \<in> snd ` set (cn_stores c). list_all store_inv ss \<and> distinct (map GetStoreIdentifier ss))"

lemma store_Add_id: "store_Add lib obj s = Some (s', e) \<Longrightarrow> GetStoreIdentifier s' = GetStoreIdentifier s"
  by (auto simp: store_Add_def generateMetricsForObject_def GetStoreIdentifier_def checkAndApplyThresholds_def
      Let_def split_def split: option.splits)

lemma add_items_id: "add_items lib objs s = Some s' \<Longrightarrow> GetStoreIdentifier s' = GetStoreIdentifier s"
  by (induction lib objs s rule: add_items.induct) (auto dest: store_Add_id split: option.splits)

lemma store_step_id: "store_step lib e s = Some s' \<Longrightarrow> GetStoreIdentifier s' = GetStoreIdentifier s"
proof (cases e)
  case (EvReplace objs)
  assume "store_step lib e s = Some s'"
  then obtain s1 where "add_items lib (map Some objs) s = Some s1" "s' = s1\<lparr>so_synced := True\<rparr>"
    by (auto simp: EvReplace store_Replace_def)
  then show ?thesis using add_items_id by (auto simp: GetStoreIdentifier_def)
next
  case (EvDelete uid)
  assume "store_step lib e s = Some s'"
  then show ?thesis
    by (auto simp: EvDelete store_Delete_def GetStoreIdentifier_def checkAndApplyThresholds_def
        Let_def split_def split: option.splits)
qed (auto simp: store_Update_def dest: store_Add_id)

definition stores_ok :: "store list \<Rightarrow> bool" where
  "stores_ok ss \<longleftrightarrow> list_all store_inv ss \<and> distinct (map GetStoreIdentifier ss)"

lemma ctl_inv_alt:
  "ctl_inv c \<longleftrightarrow> gm_ok (cn_stores c) \<and> gcm.balanced (cn_manager c) \<and> (\<forall>ss \<in> snd ` set (cn_stores c). stores_ok ss)"
  by (simp add: ctl_inv_def stores_ok_def)

lemma ctl_inv_cong:
  "cn_stores c' = cn_stores c \<Longrightarrow> cn_manager c' = cn_manager c \<Longrightarrow> ctl_inv c' = ctl_inv c"
  by (simp add: ctl_inv_def)

lemma ctl_inv_put:
  assumes "ctl_inv c" and "stores_ok ss" and "cn_stores c' = gm_put u ss (cn_stores c)"
    and "gcm.balanced (cn_manager c')"
  shows "ctl_inv c'"
proof -
  have ok: "gm_ok (cn_stores c)" and all: "\<forall>ss \<in> snd ` set (cn_stores c). stores_ok ss"
    using assms(1) unfolding ctl_inv_alt by blast+
  have "gm_ok (cn_stores c')" using ok by (simp add: assms(3))
  with ball_put [OF all assms(2)] assms(4) show ?thesis unfolding ctl_inv_alt assms(3) by blast
qed

lemma ctl_inv_del:
  assumes "ctl_inv c" and "cn_stores c' = gm_del u (cn_stores c)" and "gcm.balanced (cn_manager c')"
  shows "ctl_inv c'"
proof -
  have ok: "gm_ok (cn_stores c)" and all: "\<forall>ss \<in> snd ` set (cn_stores c). stores_ok ss"
    using assms(1) unfolding ctl_inv_alt by blast+
  have "gm_ok (cn_stores c')" using ok by (simp add: assms(2))
  with ball_del [OF all] assms(3) show ?thesis unfolding ctl_inv_alt assms(2) by blast
qed

text \<open>The configurer an add or update event runs.\<close>

definition event_configurer :: "monitor \<Rightarrow> 'api controller \<Rightarrow> configurer" where
  "event_configurer r c = newConfigurer (cn_discovery c) r (op_CELCostLimit (cn_options c))
     (Seconds (op_CELTimeout (cn_options c))) (op_ResourceCardinalityDefault (cn_options c))
     (op_CardinalityWarningRatio (cn_options c)) (Seconds (op_StarlarkTimeout (cn_options c)))
     (op_StarlarkMaxSteps (cn_options c)) (cn_duplicateStores c) (cn_duplicateFamilies c)"

definition expanded_stores :: "monitor \<Rightarrow> 'api controller \<Rightarrow> store_spec list" where
  "expanded_stores r c = k8s.expand_all (cn_discovery c) (cf_Stores (rmm_Spec r))"

lemma event_configurer_fields [simp]:
  "cg_resource (event_configurer r c) = r" "cg_discovery (event_configurer r c) = cn_discovery c"
  "cg_configuration (event_configurer r c) = rmm_Spec r"
  by (simp_all add: event_configurer_def newConfigurer_def)

lemma processAddOrUpdate_eq:
  "\<exists>built. cn_stores (processAddOrUpdate env r c) = gm_put (rmm_UID r) built (gm_del (rmm_UID r) (cn_stores c))
     \<and> built = map (buildStoreFromConfig (en_createdAt env) (event_configurer r c)) (first_of_key (expanded_stores r c) {})
     \<and> stores_ok built \<and> cn_manager (processAddOrUpdate env r c) = cn_manager c
     \<and> cn_pending (processAddOrUpdate env r c) = cn_pending c @ [r]
     \<and> cn_eventsProcessed (processAddOrUpdate env r c) = cn_eventsProcessed c"
  using build_stores [of "en_createdAt env" "event_configurer r c" "gm_del (rmm_UID r) (cn_stores c)"]
  by (simp add: processAddOrUpdate_def event_configurer_def [symmetric] Let_def split_def stores_ok_def
      expanded_stores_def)

lemma ctl_inv_addOrUpdate: "ctl_inv c \<Longrightarrow> ctl_inv (processAddOrUpdate env r c)"
proof -
  assume inv: "ctl_inv c"
  then have "gcm.balanced (cn_manager c)" by (simp add: ctl_inv_def)
  with inv have del: "ctl_inv (c\<lparr>cn_stores := gm_del (rmm_UID r) (cn_stores c)\<rparr>)" by (intro ctl_inv_del [OF inv]) simp_all
  obtain built where b: "cn_stores (processAddOrUpdate env r c) = gm_put (rmm_UID r) built (gm_del (rmm_UID r) (cn_stores c))"
      "stores_ok built" "cn_manager (processAddOrUpdate env r c) = cn_manager c"
    using processAddOrUpdate_eq [of env r c] by blast
  show ?thesis by (rule ctl_inv_put [OF del b(2)]) (use b \<open>gcm.balanced (cn_manager c)\<close> in simp_all)
qed

lemma ctl_inv_processDelete: "ctl_inv c \<Longrightarrow> ctl_inv (processDelete r c)"
proof -
  assume inv: "ctl_inv c"
  then have "gcm.balanced (DeleteResource (rmm_UID r) (cn_manager c))"
    by (simp add: ctl_inv_def gcm.balanced_del)
  then show ?thesis by (intro ctl_inv_del [OF inv]) (simp_all add: processDelete_def Let_def)
qed

lemma count_event_fields [simp]:
  "cn_stores (count_event ns n e st c) = cn_stores c" "cn_manager (count_event ns n e st c) = cn_manager c"
  "cn_pending (count_event ns n e st c) = cn_pending c" "cn_api (count_event ns n e st c) = cn_api c"
  by (simp_all add: count_event_def)

lemma ctl_inv_count: "ctl_inv c \<Longrightarrow> ctl_inv (count_event ns n ev st c)"
  by (simp add: ctl_inv_cong [of "count_event ns n ev st c" c])

section \<open>The status step\<close>

text \<open>The aggregation that is published, and the manager after it.\<close>

definition status_manager :: "monitor \<Rightarrow> store list \<Rightarrow> 'api controller \<Rightarrow> threshold_violation list \<times> global_manager" where
  "status_manager r ss c = gcm_CheckThresholds (rmm_UID r) 0
     (UpdateResource (rmm_UID r) (ag_totalCardinality (fst (aggregateStoreCardinality r ss))) (cn_manager c))"

definition status_aggregation :: "monitor \<Rightarrow> store list \<Rightarrow> 'api controller \<Rightarrow> cardinality_aggregation" where
  "status_aggregation r ss c =
     (let agg = fst (aggregateStoreCardinality r ss)
      in agg\<lparr>ag_violations := ag_violations agg
           @ map (\<lambda>v. v\<lparr>v_RMMName := rmm_Name r, v_RMMNamespace := rmm_Namespace r\<rparr>) (fst (status_manager r ss c))\<rparr>)"

lemma metrics_keep [simp]:
  "cn_stores (updateCardinalityMetrics r agg c) = cn_stores c"
  "cn_manager (updateCardinalityMetrics r agg c) = cn_manager c"
  "cn_pending (updateCardinalityMetrics r agg c) = cn_pending c"
  "cn_api (updateCardinalityMetrics r agg c) = cn_api c"
  "cn_stores (recordCardinalityViolations r vs c) = cn_stores c"
  "cn_manager (recordCardinalityViolations r vs c) = cn_manager c"
  "cn_pending (recordCardinalityViolations r vs c) = cn_pending c"
  "cn_api (recordCardinalityViolations r vs c) = cn_api c"
  by (simp_all add: updateCardinalityMetrics_def recordCardinalityViolations_def Let_def)

lemma persist_keeps:
  assumes "persistCardinalityStatus cl env r agg c = (c', err)"
  shows "same_but_api c c'"
  using assms by (auto simp: persistCardinalityStatus_def same_but_api_def Let_def split: option.splits prod.splits)

lemma updateCardinalityStatus_eq:
  assumes "map_of (cn_stores c) (rmm_UID r) = Some ss"
  shows "\<exists>c1. updateCardinalityStatus cl env r c = persistCardinalityStatus cl env r (status_aggregation r ss c) c1
     \<and> cn_stores c1 = gm_put (rmm_UID r) (map (\<lambda>s. snd (checkAndApplyThresholds s)) ss) (cn_stores c)
     \<and> cn_manager c1 = snd (status_manager r ss c) \<and> cn_api c1 = cn_api c \<and> cn_pending c1 = cn_pending c"
  by (simp add: updateCardinalityStatus_def assms Let_def split_def status_manager_def status_aggregation_def
      aggregateStoreCardinality_def aggregate_stores_snd) (rule exI, rule conjI, rule refl, simp)

lemma updateCardinalityStatus_fields:
  assumes "map_of (cn_stores c) (rmm_UID r) = Some ss" and "updateCardinalityStatus cl env r c = (c', err)"
  shows "cn_stores c' = gm_put (rmm_UID r) (map (\<lambda>s. snd (checkAndApplyThresholds s)) ss) (cn_stores c)"
    and "cn_manager c' = snd (status_manager r ss c)"
proof -
  obtain c1 where c1: "persistCardinalityStatus cl env r (status_aggregation r ss c) c1 = (c', err)"
      "cn_stores c1 = gm_put (rmm_UID r) (map (\<lambda>s. snd (checkAndApplyThresholds s)) ss) (cn_stores c)"
      "cn_manager c1 = snd (status_manager r ss c)"
    using updateCardinalityStatus_eq [OF assms(1), of cl env] assms(2) by auto
  note keep = same_but_api_fields [OF persist_keeps [OF c1(1)]]
  show "cn_stores c' = gm_put (rmm_UID r) (map (\<lambda>s. snd (checkAndApplyThresholds s)) ss) (cn_stores c)"
    using keep(1) c1(2) by simp
  show "cn_manager c' = snd (status_manager r ss c)" using keep(2) c1(3) by simp
qed

lemma status_manager_balanced: "gcm.balanced (cn_manager c) \<Longrightarrow> gcm.balanced (snd (status_manager r ss c))"
  using manager_step_balanced [of "UpdateResource u n m" "MCheck u 0" for u n m]
  by (simp add: status_manager_def gcm.balanced_put)

lemma stores_ok_check: "stores_ok ss \<Longrightarrow> stores_ok (map (\<lambda>s. snd (checkAndApplyThresholds s)) ss)"
  by (simp add: stores_ok_def list_all_iff store_inv_check comp_def)

lemma ctl_inv_stores: "ctl_inv c \<Longrightarrow> map_of (cn_stores c) u = Some ss \<Longrightarrow> stores_ok ss"
  by (auto simp: ctl_inv_alt dest!: map_of_SomeD)

lemma ctl_inv_status:
  assumes "ctl_inv c" and "updateCardinalityStatus cl env r c = (c', err)"
  shows "ctl_inv c'"
proof (cases "map_of (cn_stores c) (rmm_UID r)")
  case None
  with assms show ?thesis by (simp add: updateCardinalityStatus_def)
next
  case (Some ss)
  note f = updateCardinalityStatus_fields [OF Some assms(2)]
  have "gcm.balanced (cn_manager c)" using assms(1) by (simp add: ctl_inv_def)
  then show ?thesis
    by (intro ctl_inv_put [OF assms(1) stores_ok_check [OF ctl_inv_stores [OF assms(1) Some]] f(1)])
      (simp add: f(2) status_manager_balanced)
qed

lemma stores_ok_update:
  assumes "stores_ok ss" and "i < length ss" and "store_inv s" and "GetStoreIdentifier s = GetStoreIdentifier (ss ! i)"
  shows "stores_ok (ss[i := s])"
proof -
  have "map GetStoreIdentifier (ss[i := s]) = map GetStoreIdentifier ss"
    using assms(2,4) by (simp add: map_update list_update_same_conv)
  moreover have "list_all store_inv (ss[i := s])"
    using assms(1,3) set_update_subset_insert [of ss i s] by (auto simp: stores_ok_def list_all_iff)
  ultimately show ?thesis using assms(1) by (simp add: stores_ok_def)
qed

lemma ctl_inv_reflect:
  assumes "index_sorter (SortIndices lib)" and "ctl_inv c" and "map_of (cn_stores c) u = Some ss"
    and "i < length ss" and "store_step lib e (ss ! i) = Some s"
  shows "ctl_inv (c\<lparr>cn_stores := gm_put u (ss[i := s]) (cn_stores c)\<rparr>)"
proof -
  have ok: "stores_ok ss" by (rule ctl_inv_stores [OF assms(2,3)])
  then have "store_inv (ss ! i)" using assms(4) by (simp add: stores_ok_def list_all_length)
  then have "store_inv s" using store_inv_step [OF assms(1), of "ss ! i" e] assms(5) by auto
  from stores_ok_update [OF ok assms(4) this store_step_id [OF assms(5)]] show ?thesis
    by (rule ctl_inv_put [OF assms(2)]) (use assms(2) in \<open>simp_all add: ctl_inv_def\<close>)
qed

interpretation consistency: controller_invariant ctl_inv lib for lib
  by unfold_locales
    (simp_all add: ctl_inv_count ctl_inv_addOrUpdate ctl_inv_processDelete ctl_inv_reflect ctl_inv_status,
     simp_all add: ctl_inv_def)

lemma ctl_inv_start: "ctl_inv (running_controller api d opt)"
  by (simp add: ctl_inv_def running_controller_defs gcm.balanced_def NewGlobalCardinalityManager_def)

lemma reachable_inv:
  "ctl_reachable cl kl lib api d opt x \<Longrightarrow> index_sorter (SortIndices lib) \<Longrightarrow> ctl_inv (fst x)"
  by (rule consistency.keeps_reachable) (simp_all add: ctl_inv_start)

section \<open>Properties\<close>

text \<open>C4: in every state the controller can reach, by informer callbacks, events worked off in any
  order, store events delivered by the reflectors and status goroutines, under any answers of
  the API server and the lister, every store of every monitor is consistent, the stores of a
  monitor have distinct identifiers, and the global total is the sum over the monitors.\<close>

theorem reachable_consistent:
  assumes "ctl_reachable cl kl lib api d opt (c, items)" and "index_sorter (SortIndices lib)"
    and "map_of (cn_stores c) u = Some ss"
  shows "list_all store_inv ss \<and> distinct (map GetStoreIdentifier ss)
     \<and> GetGlobalTotal (cn_manager c) = gm_sum (\<lambda>n. n) (gcm_perResource (cn_manager c))"
proof -
  have inv: "ctl_inv c" using reachable_inv [OF assms(1,2)] by simp
  from ctl_inv_stores [OF inv assms(3)] inv show ?thesis
    by (simp add: stores_ok_def ctl_inv_def gcm.balanced_def GetGlobalTotal_def)
qed

text \<open>An API server that accepts every update and returns the object, and one monitor.\<close>

definition echo_client :: "monitor api_client" where
  "echo_client = \<lparr>api_Get = (\<lambda>api ns n. if rmm_Namespace api = ns \<and> rmm_Name api = n then Some api else None),
     api_Update = (\<lambda>api r. (r, Some r)), api_UpdateStatus = (\<lambda>api r. (r, Some r))\<rparr>"

definition demo_event_env :: event_env where
  "demo_event_env = \<lparr>en_now = 1, en_createdAt = 0, en_controllerName = ''c'', en_revision = None\<rparr>"

definition demo_options :: controller_options where
  "demo_options = \<lparr>op_CELCostLimit = 0, op_CELTimeout = 5, op_GlobalCardinalityLimit = 0,
     op_ResourceCardinalityDefault = 10, op_CardinalityWarningRatio = f64_0_8, op_StarlarkTimeout = 5,
     op_StarlarkMaxSteps = 100\<rparr>"

definition demo_keys :: key_lib where
  "demo_keys = \<lparr>MetaNamespaceKeyFunc = (\<lambda>_. Some ''ns/n''), SplitMetaNamespaceKey = (\<lambda>_. Some (''ns'', ''n''))\<rparr>"

abbreviation demo_controller_of :: "store_spec list \<Rightarrow> controller_options \<Rightarrow> monitor controller" where
  "demo_controller_of specs opt \<equiv> running_controller (demo_monitor specs) demo_cluster opt"

abbreviation demo_controller_with :: "controller_options \<Rightarrow> monitor controller" where
  "demo_controller_with \<equiv> demo_controller_of []"

abbreviation demo_controller :: "monitor controller" where
  "demo_controller \<equiv> demo_controller_with demo_options"

abbreviation demo_configured :: "store_spec list \<Rightarrow> controller_options \<Rightarrow> monitor controller" where
  "demo_configured specs opt \<equiv>
     handleEvent echo_client demo_event_env ''addEvent'' (demo_monitor specs) (demo_controller_of specs opt)"

text \<open>An add or update whose calls to the API server all succeed.\<close>

lemma handleEvent_success:
  assumes "updateMetadata cl env obj c = (c1, False)"
    and "emitSuccess cl env obj ConditionFalse (''Event handler received event: '' @ ev) c1 = (c2, Some r)"
    and "processEvent cl env ev r c2 = (c3, False)"
    and "emitSuccess cl env r ConditionTrue (''Event handler successfully processed event: '' @ ev) c3 = (c4, Some r')"
  shows "handleEvent cl env ev obj c = count_event (rmm_Namespace r) (rmm_Name r) ev ''success'' c4"
  using assms by (simp add: handleEvent_def validateAndPrepareResource_def)

lemma demo_handles_of:
  "(\<exists>t g. map_of (cn_stores (demo_configured specs opt)) ''u''
        = Some (map (buildStoreFromConfig t g) (first_of_key (k8s.expand_all demo_cluster specs) {})))
   \<and> (\<exists>c. demo_configured specs opt
        = count_event ''ns'' ''n'' ''addEvent'' ''success'' c)
   \<and> rmm_Namespace (cn_api (demo_configured specs opt)) = ''ns''
   \<and> rmm_Name (cn_api (demo_configured specs opt)) = ''n''"
proof -
  let ?c = "demo_controller_of specs opt"
  let ?m = "(demo_monitor specs)\<lparr>rmm_Labels := [(''app.kubernetes.io/managed-by'', ''c'')]\<rparr>"
  define c1 where "c1 = ?c\<lparr>cn_api := ?m\<rparr>"
  have m: "updateMetadata echo_client demo_event_env (demo_monitor specs) ?c = (c1, False)"
    by (simp add: updateMetadata_def echo_client_def demo_event_env_def c1_def running_controller_defs demo_monitor_def)
  define r where "r = set_condition 1 ConditionTypeProcessed ConditionFalse [] (''Event handler received event: addEvent'') ?m"
  define c2 where "c2 = c1\<lparr>cn_api := r\<rparr>"
  have fields: "rmm_Namespace r = ''ns''" "rmm_Name r = ''n''" "rmm_UID r = ''u''"
    by (simp_all add: r_def demo_monitor_def)
  have e: "emitSuccess echo_client demo_event_env (demo_monitor specs) ConditionFalse (''Event handler received event: '' @ ''addEvent'') c1
      = (c2, Some r)"
    by (simp add: emitSuccess_def echo_client_def c1_def c2_def r_def demo_event_env_def demo_monitor_def Let_def)
  have p: "processEvent echo_client demo_event_env ''addEvent'' r c2 = (processAddOrUpdate demo_event_env r c2, False)"
    by (simp add: processEvent_def)
  obtain c4 r' where f: "emitSuccess echo_client demo_event_env r ConditionTrue
      (''Event handler successfully processed event: '' @ ''addEvent'') (processAddOrUpdate demo_event_env r c2) = (c4, Some r')"
    and api: "rmm_Namespace (cn_api c4) = ''ns''" "rmm_Name (cn_api c4) = ''n''"
  proof -
    have "cn_api (processAddOrUpdate demo_event_env r c2) = r"
      by (simp add: processAddOrUpdate_def Let_def split_def c2_def)
    then show ?thesis using that by (simp add: emitSuccess_def echo_client_def fields Let_def)
  qed
  have "cn_stores c4 = cn_stores (processAddOrUpdate demo_event_env r c2)"
    by (rule same_but_api_fields [OF emitSuccess_keeps [OF f]])
  moreover have "expanded_stores r c2 = k8s.expand_all demo_cluster specs"
    by (simp add: expanded_stores_def r_def c2_def c1_def demo_monitor_def running_controller_defs)
  ultimately have "\<exists>t g. map_of (cn_stores c4) ''u''
      = Some (map (buildStoreFromConfig t g) (first_of_key (k8s.expand_all demo_cluster specs) {}))"
    using processAddOrUpdate_eq [of demo_event_env r c2] fields(3) by (auto simp: update_conv)
  then show ?thesis
    by (auto simp: handleEvent_success [OF m e p f] fields(1,2) api)
qed

lemma demo_reachable_of:
  "ctl_reachable echo_client demo_keys (demo_lib v) (demo_monitor specs) demo_cluster opt
     (demo_configured specs opt, [(''ns/n'', ''addEvent'')])"
proof -
  let ?R = "ctl_reachable echo_client demo_keys (demo_lib v) (demo_monitor specs) demo_cluster opt"
  have "?R ((demo_controller_of specs opt), [] @ registerEventHandlers demo_keys (InfAdd (HMonitor (demo_monitor specs))))"
    by (rule ctl_reachable.step [OF ctl_reachable.start ctl_step.informer])
  then have reach: "?R ((demo_controller_of specs opt), [(''ns/n'', ''addEvent'')])" by (simp add: enqueue_def demo_keys_def)
  have work: "processNextWorkItem echo_client demo_event_env demo_keys (\<lambda>_ _. LFound (demo_monitor specs)) (Some (''ns/n'', ''addEvent'')) (demo_controller_of specs opt)
      = (demo_configured specs opt,
         [QForget (''ns/n'', ''addEvent''), QDone (''ns/n'', ''addEvent'')], True)"
    by (simp add: processNextWorkItem_def syncHandler_def demo_keys_def handle_monitor_def)
  show ?thesis by (rule ctl_reachable.step [OF reach ctl_step.work [OF _ work]]) simp
qed

lemmas demo_handles = demo_handles_of [of "[]"]
lemmas demo_reachable = demo_reachable_of [of GNil "[]"]

lemma demo_pod_first: "first_of_key (k8s.expand_all demo_cluster [demo_pod_store]) {} = [demo_pod_store]"
  by (simp add: k8s.expand_all_concrete demo_pod_store_concrete)

theorem reachable_consistent_witness:
  "\<exists>c items ss. ctl_reachable echo_client demo_keys (demo_lib GNil) (demo_monitor [demo_pod_store]) demo_cluster demo_options (c, items)
     \<and> map_of (cn_stores c) ''u'' = Some ss \<and> length ss = 1 \<and> list_all store_inv ss"
proof -
  obtain t g where ss: "map_of (cn_stores (demo_configured [demo_pod_store] demo_options)) ''u''
      = Some (map (buildStoreFromConfig t g) [demo_pod_store])"
    using demo_handles_of [of "[demo_pod_store]" demo_options] unfolding demo_pod_first by blast
  note reach = demo_reachable_of [of GNil "[demo_pod_store]" demo_options]
  from reachable_consistent [OF reach demo_sorter ss] reach ss show ?thesis by fastforce
qed

text \<open>What the status step of a monitor whose API calls succeed writes to the server.\<close>

lemma status_published:
  assumes "ctl_reachable cl kl lib api d opt (c, items)" and "index_sorter (SortIndices lib)"
    and "map_of (cn_stores c) (rmm_UID r) = Some ss"
    and "api_Get cl (cn_api c) (rmm_Namespace r) (rmm_Name r) = Some got"
    and "updateCardinalityStatus cl env r c = (c', False)"
  shows "\<exists>sent cs. cn_api c' = fst (api_UpdateStatus cl (cn_api c) sent)
     \<and> st_Cardinality (rmm_Status sent) = Some cs
     \<and> cs_Total cs = sum_list (map store_samples ss)
     \<and> GetResourceCardinality (cn_manager c') (rmm_UID r) = cs_Total cs
     \<and> (\<forall>s \<in> set ss. map_of (cs_PerStore cs) (GetStoreIdentifier s) = Some (store_samples s))"
proof -
  have ok: "stores_ok ss" using ctl_inv_stores [OF _ assms(3)] reachable_inv [OF assms(1,2)] by simp
  define agg where "agg = status_aggregation r ss c"
  obtain a ss' where a: "aggregateStoreCardinality r ss = (a, ss')" by (cases "aggregateStoreCardinality r ss")
  have agg: "ag_totalCardinality agg = ag_totalCardinality a" "ag_perStore agg = ag_perStore a"
    by (simp_all add: agg_def status_aggregation_def a Let_def)
  have tot: "ag_totalCardinality a = sum_list (map store_samples ss)
      \<and> (\<forall>s \<in> set ss. map_of (ag_perStore a) (GetStoreIdentifier s) = Some (store_samples s))"
    using aggregate_counts [OF _ _ a] ok by (simp add: stores_ok_def)
  obtain c1 where c1: "updateCardinalityStatus cl env r c = persistCardinalityStatus cl env r agg c1" "cn_api c1 = cn_api c"
    using updateCardinalityStatus_eq [OF assms(3), of cl env] by (auto simp: agg_def)
  have api: "cn_api c' = fst (api_UpdateStatus cl (cn_api c) (cardinality_patch env agg got))"
    using assms(4,5) c1 by (auto simp: persistCardinalityStatus_def Let_def split_def)
  have "st_Cardinality (rmm_Status (cardinality_patch env agg got)) = Some
      \<lparr>cs_Total = ag_totalCardinality agg, cs_PerStore = ag_perStore agg, cs_PerFamily = ag_perFamily agg,
       cs_ThresholdsExceeded = hasThresholdExceeded (ag_violations agg),
       cs_CutoffFamilies = ag_cutoffFamilies agg, cs_LastUpdated = en_now env\<rparr>"
    by (simp add: cardinality_patch_def conditions_keep_cardinality)
  moreover have "GetResourceCardinality (cn_manager c') (rmm_UID r) = ag_totalCardinality a"
    using updateCardinalityStatus_fields(2) [OF assms(3,5)]
    by (simp add: status_manager_def a GetResourceCardinality_def gm_get_def update_conv)
  ultimately show ?thesis using api tot agg by fastforce
qed

lemma exposition_check: "exposition (map (\<lambda>s. snd (checkAndApplyThresholds s)) ss) = exposition ss"
proof -
  have "family_block (snd (checkAndApplyThresholds s)) i = family_block s i" for s i
  proof -
    have "buildPeripheralHeader (so_Families (snd (checkAndApplyThresholds s)) ! i) = buildPeripheralHeader (so_Families s ! i)"
      if "i < length (so_Families s)"
      using that by (simp add: checkAndApplyThresholds_def Let_def split_def peripheral_stable split: option.split)
    then show ?thesis by (auto simp: family_block_def)
  qed
  then have "family_block (snd (checkAndApplyThresholds s)) = family_block s" for s by blast
  then show ?thesis by (simp add: exposition_def comp_def)
qed

lemma serve_metrics_put:
  "map_of m u = Some ss \<Longrightarrow> exposition ss' = exposition ss \<Longrightarrow> serve_metrics wr (gm_put u ss' m) k = serve_metrics wr m k"
  by (induction wr m k rule: serve_metrics.induct) (auto simp: writeStores_calls split: if_splits)

text \<open>The limits above a store are reported, never enforced. The status step of a monitor
  decides which monitors are cut off and leaves every scrape as it was, whatever it decided:
  the writer, the server and the stores do not ask the manager.\<close>

theorem limits_never_stop_a_scrape:
  assumes "updateCardinalityStatus cl env r c = (c', err)"
  shows "serve_metrics wr (cn_stores c') k = serve_metrics wr (cn_stores c) k"
proof (cases "map_of (cn_stores c) (rmm_UID r)")
  case None
  with assms show ?thesis by (simp add: updateCardinalityStatus_def)
next
  case (Some ss)
  from updateCardinalityStatus_fields(1) [OF Some assms] serve_metrics_put [OF Some exposition_check]
  show ?thesis by simp
qed

text \<open>A controller over its global limit: one monitor, whose only store has five samples and a
  limit of one.\<close>

definition crowded_controller :: "monitor controller" where
  "crowded_controller = demo_controller\<lparr>cn_stores := [(''u'', [demo_store\<lparr>so_metrics := [(''o'', [''text''])],
       so_cardinalityTracker := Some (ct_Update ''o'' [(''m'', 5)] (NewCardinalityTracker 0 f64_0_8))\<rparr>])],
     cn_manager := NewGlobalCardinalityManager 1 0 f64_0_8\<rparr>"

theorem limits_never_stop_a_scrape_witness:
  "\<forall>wr k. serve_metrics wr (cn_stores (fst (updateCardinalityStatus echo_client demo_event_env (demo_monitor []) crowded_controller))) k
     = serve_metrics wr (cn_stores crowded_controller) k"
proof (intro allI)
  fix wr :: "'w io_writer" and k
  obtain c' err where "updateCardinalityStatus echo_client demo_event_env (demo_monitor []) crowded_controller = (c', err)"
    by (cases "updateCardinalityStatus echo_client demo_event_env (demo_monitor []) crowded_controller")
  then show "serve_metrics wr (cn_stores (fst (updateCardinalityStatus echo_client demo_event_env (demo_monitor []) crowded_controller))) k
     = serve_metrics wr (cn_stores crowded_controller) k"
    using limits_never_stop_a_scrape by fastforce
qed

text \<open>C37: a deleted monitor is never cleaned up. Once the lister no longer knows it, the worker
  handles an empty monitor that has only the name. If the server has no monitor of that name in
  the empty namespace, which no namespaced monitor is in, reading it fails, the item is forgotten
  and the controller is as it was but for the failure counter: its stores stay in the map and are
  served, its cardinality stays in the global total and the gauges, no goroutine is started and
  nothing is sent to the server.\<close>

theorem delete_event_never_cleans:
  assumes "SplitMetaNamespaceKey kl key = Some (namespace, name)" and "lister namespace name = LNotFound"
    and "api_Get cl (cn_api c) [] name = None"
  shows "processNextWorkItem cl env kl lister (Some (key, event_string DeleteEvent)) c
       = (c\<lparr>cn_eventsProcessed := inc [[], name, event_string DeleteEvent, ''failed''] (cn_eventsProcessed c)\<rparr>,
          [QForget (key, event_string DeleteEvent), QDone (key, event_string DeleteEvent)], True)"
  using assms
  by (simp add: processNextWorkItem_def syncHandler_def handle_monitor_def handleEvent_def
      validateAndPrepareResource_def updateMetadata_def empty_monitor_def count_event_def)

theorem delete_event_never_cleans_witness:
  "map_of (cn_stores (fst (processNextWorkItem echo_client demo_event_env demo_keys (\<lambda>_ _. LNotFound)
      (Some (''ns/n'', ''deleteEvent'')) crowded_controller))) ''u'' \<noteq> None"
proof -
  have s: "SplitMetaNamespaceKey demo_keys ''ns/n'' = Some (''ns'', ''n'')" by (simp add: demo_keys_def)
  have g: "api_Get echo_client (cn_api crowded_controller) [] ''n'' = None"
    by (simp add: echo_client_def crowded_controller_def running_controller_defs demo_monitor_def)
  from delete_event_never_cleans [OF s _ g, of "\<lambda>_ _. LNotFound" demo_event_env] show ?thesis
    by (auto simp: crowded_controller_def)
qed

text \<open>Only a failing lister is retried. An item is put back on the queue exactly when its key
  is well formed and the lister returns an error other than not found, and then nothing has
  changed; every failure of the API server inside a handler is counted and forgotten.\<close>

theorem requeue_only_on_lister_error:
  assumes "processNextWorkItem cl env kl lister (Some (key, event)) c = (c', calls, continue)"
  shows "continue \<and> QDone (key, event) \<in> set calls
     \<and> (QAddRateLimited (key, event) \<in> set calls \<longleftrightarrow>
          (\<exists>namespace name. SplitMetaNamespaceKey kl key = Some (namespace, name) \<and> lister namespace name = LError))
     \<and> (QAddRateLimited (key, event) \<in> set calls \<longrightarrow> c' = c)
     \<and> (QAddRateLimited (key, event) \<in> set calls \<longleftrightarrow> QForget (key, event) \<notin> set calls)"
proof -
  obtain c1 err where s: "syncHandler cl env kl lister key event c = (c1, err)"
    by (cases "syncHandler cl env kl lister key event c")
  then have err: "err \<longleftrightarrow> (\<exists>namespace name. SplitMetaNamespaceKey kl key = Some (namespace, name) \<and> lister namespace name = LError)"
    and c1: "err \<Longrightarrow> c1 = c"
    by (auto simp: syncHandler_def split: option.splits lister_result.splits)
  show ?thesis
  proof (cases err)
    case True
    with assms s c1 have "c' = c" "calls = [QAddRateLimited (key, event), QDone (key, event)]" "continue"
      by (auto simp: processNextWorkItem_def)
    with True err show ?thesis by simp
  next
    case False
    with assms s have "calls = [QForget (key, event), QDone (key, event)]" "continue"
      by (auto simp: processNextWorkItem_def)
    with False err show ?thesis by simp
  qed
qed

theorem requeue_only_on_lister_error_witness:
  "\<exists>calls cont. processNextWorkItem echo_client demo_event_env demo_keys (\<lambda>_ _. LError) (Some (''ns/n'', ''addEvent'')) crowded_controller
     = (crowded_controller, calls, cont) \<and> QAddRateLimited (''ns/n'', ''addEvent'') \<in> set calls"
proof -
  obtain c' calls cont where p: "processNextWorkItem echo_client demo_event_env demo_keys (\<lambda>_ _. LError)
      (Some (''ns/n'', ''addEvent'')) crowded_controller = (c', calls, cont)"
    by (cases "processNextWorkItem echo_client demo_event_env demo_keys (\<lambda>_ _. LError)
      (Some (''ns/n'', ''addEvent'')) crowded_controller") auto
  from requeue_only_on_lister_error [OF p] p show ?thesis by (auto simp: demo_keys_def)
qed

lemma handleEvent_state:
  assumes "validateAndPrepareResource cl env (Some obj) ev c = (c1, Some r)"
    and "processEvent cl env ev r c1 = (c2, err)"
  shows "cn_stores (handleEvent cl env ev obj c) = cn_stores c2"
    and "cn_manager (handleEvent cl env ev obj c) = cn_manager c2"
    and "cn_pending (handleEvent cl env ev obj c) = cn_pending c2"
proof -
  obtain c3 res where e: "emitSuccess cl env r ConditionTrue (''Event handler successfully processed event: '' @ ev) c2 = (c3, res)"
    by (cases "emitSuccess cl env r ConditionTrue (''Event handler successfully processed event: '' @ ev) c2")
  note keep = same_but_api_fields [OF emitSuccess_keeps [OF e]]
  show "cn_stores (handleEvent cl env ev obj c) = cn_stores c2"
    "cn_manager (handleEvent cl env ev obj c) = cn_manager c2"
    "cn_pending (handleEvent cl env ev obj c) = cn_pending c2"
    using assms e keep by (cases err; cases res; simp add: handleEvent_def)+
qed

lemma DeleteResource_leaves:
  "GetResourceCardinality (DeleteResource uid m) u = (if u = uid then 0 else GetResourceCardinality m u)"
  by (auto simp: DeleteResource_def GetResourceCardinality_def gm_get_def delete_conv Let_def split: option.split)

lemma DeleteResource_leaves_total:
  "GetGlobalTotal (DeleteResource uid m) = GetGlobalTotal m - GetResourceCardinality m uid"
  by (simp add: DeleteResource_def GetGlobalTotal_def GetResourceCardinality_def gm_get_def Let_def split: option.split)

text \<open>An event leaves the stores of a monitor, or drops them, or builds them anew.\<close>

lemma handleEvent_stores:
  "map_of (cn_stores (handleEvent cl env ev obj c)) u = map_of (cn_stores c) u
   \<or> map_of (cn_stores (handleEvent cl env ev obj c)) u = None
   \<or> (\<exists>t g specs. map_of (cn_stores (handleEvent cl env ev obj c)) u = Some (map (buildStoreFromConfig t g) specs))"
proof -
  obtain c1 res where v: "validateAndPrepareResource cl env (Some obj) ev c = (c1, res)"
    by (cases "validateAndPrepareResource cl env (Some obj) ev c")
  note keep = same_but_api_fields(1) [OF validateAndPrepareResource_keeps [OF v]]
  show ?thesis
  proof (cases res)
    case None
    with v keep show ?thesis by (simp add: handleEvent_def)
  next
    case (Some r)
    obtain c2 err where p: "processEvent cl env ev r c1 = (c2, err)" by (cases "processEvent cl env ev r c1")
    note st = handleEvent_state(1) [OF v [unfolded Some] p]
    consider "c2 = processAddOrUpdate env r c1" | "c2 = processDelete r c1" | "cn_stores c2 = cn_stores c1"
      using p same_but_api_fields(1) [OF emitFailure_keeps [of c1 cl env r]]
      by (auto simp: processEvent_def Let_def split: if_splits)
    then show ?thesis
    proof cases
      case 1
      with st keep processAddOrUpdate_eq [of env r c1] show ?thesis
        by (cases "u = rmm_UID r") (auto simp: update_conv delete_conv)
    next
      case 2
      with st keep show ?thesis by (cases "u = rmm_UID r") (auto simp: processDelete_def Let_def delete_conv)
    qed (use st keep in simp)
  qed
qed

text \<open>C10: what handling an event does to the stores, the manager and the status goroutines. If the
  monitor cannot be prepared, nothing. Otherwise, for the monitor \<open>r\<close> the server returned: an add
  or update replaces its stores by those built from its configuration, one per key, starts one
  status goroutine and leaves the manager; a delete removes the stores, takes the cardinality of
  that monitor, and of no other, out of the manager and its global total and starts nothing, for
  whatever monitor now has that name, so that a delete worked off after the monitor was created
  again drops the stores of the new one; any other event changes neither stores nor manager and
  starts nothing. The stores of every other monitor stay.\<close>

theorem event_effects:
  assumes "validateAndPrepareResource cl env (Some obj) ev c = (c1, res)"
    and "c' = handleEvent cl env ev obj c"
  shows "case res of
      None \<Rightarrow> cn_stores c' = cn_stores c \<and> cn_manager c' = cn_manager c \<and> cn_pending c' = cn_pending c
    | Some r \<Rightarrow>
        (if ev = event_string AddEvent \<or> ev = event_string UpdateEvent
         then map_of (cn_stores c') (rmm_UID r) = Some (map (buildStoreFromConfig (en_createdAt env) (event_configurer r c1))
                (first_of_key (expanded_stores r c1) {}))
            \<and> cn_pending c' = cn_pending c @ [r] \<and> cn_manager c' = cn_manager c
         else if ev = event_string DeleteEvent
         then map_of (cn_stores c') (rmm_UID r) = None \<and> cn_pending c' = cn_pending c
            \<and> (\<forall>u. GetResourceCardinality (cn_manager c') u
                 = (if u = rmm_UID r then 0 else GetResourceCardinality (cn_manager c) u))
            \<and> GetGlobalTotal (cn_manager c')
                 = GetGlobalTotal (cn_manager c) - GetResourceCardinality (cn_manager c) (rmm_UID r)
            \<and> cn_manager c' = DeleteResource (rmm_UID r) (cn_manager c)
         else cn_stores c' = cn_stores c \<and> cn_manager c' = cn_manager c \<and> cn_pending c' = cn_pending c)
        \<and> (\<forall>u. u \<noteq> rmm_UID r \<longrightarrow> map_of (cn_stores c') u = map_of (cn_stores c) u)"
proof -
  note keep = same_but_api_fields [OF validateAndPrepareResource_keeps [OF assms(1)]]
  show ?thesis
  proof (cases res)
    case None
    with assms keep show ?thesis by (simp add: handleEvent_def)
  next
    case (Some r)
    obtain c2 err where p: "processEvent cl env ev r c1 = (c2, err)" by (cases "processEvent cl env ev r c1")
    note st = handleEvent_state [OF assms(1)[unfolded Some] p]
    consider (put) "ev = event_string AddEvent \<or> ev = event_string UpdateEvent"
      | (del) "ev = event_string DeleteEvent" "\<not> (ev = event_string AddEvent \<or> ev = event_string UpdateEvent)"
      | (other) "ev \<noteq> event_string DeleteEvent" "\<not> (ev = event_string AddEvent \<or> ev = event_string UpdateEvent)"
      by blast
    then show ?thesis
    proof cases
      case put
      then have "c2 = processAddOrUpdate env r c1" using p by (auto simp: processEvent_def)
      with put st keep Some processAddOrUpdate_eq [of env r c1] show ?thesis
        by (auto simp: assms(2) update_conv delete_conv)
    next
      case del
      then have "c2 = processDelete r c1" using p by (auto simp: processEvent_def)
      then have "cn_stores c' = gm_del (rmm_UID r) (cn_stores c)" "cn_pending c' = cn_pending c"
        "cn_manager c' = DeleteResource (rmm_UID r) (cn_manager c)"
        using st keep by (simp_all add: assms(2) processDelete_def Let_def)
      with del Some show ?thesis
        by (auto simp: delete_conv DeleteResource_leaves DeleteResource_leaves_total)
    next
      case other
      then have "cn_stores c2 = cn_stores c1" "cn_manager c2 = cn_manager c1" "cn_pending c2 = cn_pending c1"
        using p same_but_api_fields [OF emitFailure_keeps [of c1 cl env r]] by (auto simp: processEvent_def Let_def)
      with other st keep Some show ?thesis by (simp add: assms(2))
    qed
  qed
qed

theorem event_effects_witness:
  "\<exists>c1 r. validateAndPrepareResource echo_client demo_event_env (Some (demo_monitor [])) ''deleteEvent'' crowded_controller = (c1, Some r)
     \<and> rmm_UID r = ''u''
     \<and> map_of (cn_stores (handleEvent echo_client demo_event_env ''deleteEvent'' (demo_monitor []) crowded_controller)) ''u'' = None"
proof -
  let ?m = "(demo_monitor [])\<lparr>rmm_Labels := [(''app.kubernetes.io/managed-by'', ''c'')]\<rparr>"
  obtain c1 r where v: "validateAndPrepareResource echo_client demo_event_env (Some (demo_monitor [])) ''deleteEvent'' crowded_controller = (c1, Some r)"
    and u: "rmm_UID r = ''u''"
    by (simp add: validateAndPrepareResource_def updateMetadata_def emitSuccess_def echo_client_def demo_event_env_def
        crowded_controller_def running_controller_defs demo_monitor_def Let_def)
  from event_effects [OF v refl] v u show ?thesis by auto
qed

end
