(* ===== verification/Server.thy ===== *)
theory Server
  imports Controller
begin

text \<open>
  \<open>internal/server.go\<close>, \<open>internal/probe.go\<close> and \<open>external/collector.go\<close>: the two HTTP servers, the
  probes and the external collectors. A handler is a function on the response, the header map
  with the status sent and the body sink of \<open>Metric_Writer\<close>. Of \<open>net/http\<close> the source uses the
  documented behaviour of \<open>ServeMux\<close> on clean paths and the status texts; content negotiation and
  the closing line of OpenMetrics come from \<open>prometheus/common/expfmt\<close> and are parameters. So are
  the answer of the API server to a probe, and the stores an external collector builds.
\<close>

section \<open>Responses\<close>

record 'w response =
  rs_Header :: "(string, string) gomap"
  rs_Status :: "nat option"
  rs_Body :: "'w sink"

record ('w, 'req) expfmt_lib =
  NegotiateAccept :: "'req \<Rightarrow> string list \<Rightarrow> string"
  NewFormat_OpenMetrics :: string
  OpenMetrics_0_0_1 :: string
  NewFormat_TextPlain :: string
  IsTypeOpenMetrics :: "string \<Rightarrow> bool"
  FinalizeOpenMetrics :: "'w io_writer \<Rightarrow> 'w sink \<Rightarrow> 'w sink \<times> bool"

definition negotiableFormats :: "('w, 'req) expfmt_lib \<Rightarrow> string list" where
  "negotiableFormats lib = [NewFormat_OpenMetrics lib, OpenMetrics_0_0_1 lib, NewFormat_TextPlain lib]"

section \<open>The metrics handler\<close>

definition metricsHandler ::
    "('w, 'req) expfmt_lib \<Rightarrow> 'w io_writer \<Rightarrow> ('w sink \<Rightarrow> 'w sink) \<Rightarrow> 'req \<Rightarrow> 'w response \<Rightarrow> 'w response" where
  "metricsHandler lib wr generator request rsp =
     (let contentType = NegotiateAccept lib request (negotiableFormats lib);
          k = generator (rs_Body rsp);
          k = (if IsTypeOpenMetrics lib contentType then fst (FinalizeOpenMetrics lib wr k) else k)
      in rsp\<lparr>rs_Header := gm_put ''Content-Type'' contentType (rs_Header rsp), rs_Body := k\<rparr>)"

section \<open>Probes\<close>

record probe =
  pb_source :: string
  pb_asString :: string

definition newHealthz :: "string \<Rightarrow> probe" where
  "newHealthz source = \<lparr>pb_source = source, pb_asString = ''/healthz''\<rparr>"

definition newLivez :: "string \<Rightarrow> probe" where
  "newLivez source = \<lparr>pb_source = source, pb_asString = ''/livez''\<rparr>"

definition newReadyz :: "string \<Rightarrow> probe" where
  "newReadyz source = \<lparr>pb_source = source, pb_asString = ''/readyz''\<rparr>"

fun StatusText :: "nat \<Rightarrow> string" where
  "StatusText n = (if n = 200 then ''OK'' else if n = 503 then ''Service Unavailable'' else [])"

text \<open>\<open>api_fails\<close> says whether the GET of a path at the API server returns an error.\<close>

definition genericProbe :: "(string \<Rightarrow> bool) \<Rightarrow> 'w io_writer \<Rightarrow> probe \<Rightarrow> 'w response \<Rightarrow> 'w response" where
  "genericProbe api_fails wr p rsp =
     (if api_fails (pb_asString p)
      then rsp\<lparr>rs_Status := Some 503, rs_Body := fst (sink_Write wr (StatusText 503) (rs_Body rsp))\<rparr>
      else rsp\<lparr>rs_Status := Some 200, rs_Body := fst (sink_Write wr (StatusText 200) (rs_Body rsp))\<rparr>)"

section \<open>External collectors\<close>

text \<open>A collector is what its interface offers: its resource and the store it builds from a
  kubeconfig; \<open>Register\<close> is its own affair. Writing out a built store is the library's.\<close>

record 'ms external_collector =
  ec_BuildCollector :: "string \<Rightarrow> 'ms"
  ec_Resource :: string

record 'ms built_collector =
  bc_resource :: string
  bc_store :: 'ms

record 'ms collectors_type =
  ex_kubeconfig :: string
  ex_collectors :: "'ms external_collector list"
  ex_builtCollectors :: "'ms built_collector list"

definition SetKubeConfig :: "string \<Rightarrow> 'ms collectors_type \<Rightarrow> 'ms collectors_type" where
  "SetKubeConfig kubeconfig ct = ct\<lparr>ex_kubeconfig := kubeconfig\<rparr>"

definition Register :: "'ms external_collector \<Rightarrow> 'ms collectors_type \<Rightarrow> 'ms collectors_type" where
  "Register c ct = ct\<lparr>ex_collectors := ex_collectors ct @ [c]\<rparr>"

definition Build :: "'ms collectors_type \<Rightarrow> 'ms collectors_type" where
  "Build ct = fold (\<lambda>c ct. ct\<lparr>ex_builtCollectors := ex_builtCollectors ct
       @ [\<lparr>bc_resource = ec_Resource c, bc_store = ec_BuildCollector c (ex_kubeconfig ct)\<rparr>]\<rparr>) (ex_collectors ct) ct"

definition Write ::
    "(string \<Rightarrow> 'ms \<Rightarrow> 'w sink \<Rightarrow> 'w sink) \<Rightarrow> 'ms collectors_type \<Rightarrow> 'w sink \<Rightarrow> 'w sink" where
  "Write WriteAll ct k = fold (\<lambda>bc. WriteAll (bc_resource bc) (bc_store bc)) (ex_builtCollectors ct) k"

definition collectorsInstance :: "'ms collectors_type" where
  "collectorsInstance = \<lparr>ex_kubeconfig = [], ex_collectors = [], ex_builtCollectors = []\<rparr>"

section \<open>The two servers\<close>

datatype http_handler =
    PprofIndex | PprofCmdline | PprofProfile | PprofSymbol | PprofTrace
  | TelemetryMetrics | MainMetrics | ExternalMetrics | ProbeHandler probe

text \<open>The routes of a server; \<open>None\<close> where the gatherer is not a registry.\<close>

definition self_build :: "bool \<Rightarrow> string \<Rightarrow> (string \<times> http_handler) list option" where
  "self_build is_registry source =
     (let mux = [(''/debug/pprof/'', PprofIndex), (''/debug/pprof/cmdline'', PprofCmdline),
                 (''/debug/pprof/profile'', PprofProfile), (''/debug/pprof/symbol'', PprofSymbol),
                 (''/debug/pprof/trace'', PprofTrace)]
      in if \<not> is_registry then None
         else (let mux = mux @ [(''/metrics'', TelemetryMetrics)];
                   readyzProber = newReadyz source
               in Some (mux @ [(pb_asString readyzProber, ProbeHandler readyzProber)])))"

definition main_build ::
    "string \<Rightarrow> string \<Rightarrow> 'ms collectors_type \<Rightarrow> (string \<times> http_handler) list \<times> 'ms collectors_type" where
  "main_build source kubeconfig collectors =
     (let externalCollectors = Build (SetKubeConfig kubeconfig collectors);
          healthzProber = newHealthz source; livezProber = newLivez source
      in ([(''/metrics'', MainMetrics), (''/external'', ExternalMetrics),
           (pb_asString healthzProber, ProbeHandler healthzProber),
           (pb_asString livezProber, ProbeHandler livezProber)], externalCollectors))"

text \<open>\<open>ServeMux\<close>: a pattern ending in a slash matches every path below it, any other pattern itself;
  the longest matching pattern wins.\<close>

definition pattern_matches :: "string \<Rightarrow> string \<Rightarrow> bool" where
  "pattern_matches pattern path \<longleftrightarrow>
     (if pattern \<noteq> [] \<and> last pattern = CHR ''/'' then take (length pattern) path = pattern else path = pattern)"

fun mux_handler :: "(string \<times> http_handler) list \<Rightarrow> string \<Rightarrow> (string \<times> http_handler) option" where
  "mux_handler [] path = None"
| "mux_handler ((pattern, h) # rest) path =
     (case mux_handler rest path of
        None \<Rightarrow> if pattern_matches pattern path then Some (pattern, h) else None
      | Some (pattern', h') \<Rightarrow>
          if pattern_matches pattern path \<and> length pattern' < length pattern then Some (pattern, h)
          else Some (pattern', h'))"

text \<open>One request at the main server; where no pattern matches, \<open>net/http\<close> answers 404. A status that
  was not sent is 200.\<close>

definition main_serve ::
    "('w, 'req) expfmt_lib \<Rightarrow> (string \<Rightarrow> bool) \<Rightarrow> (string \<Rightarrow> 'ms \<Rightarrow> 'w sink \<Rightarrow> 'w sink)
      \<Rightarrow> (string \<times> http_handler) list \<times> 'ms collectors_type \<Rightarrow> 'w io_writer \<Rightarrow> (uid, store list) gomap
      \<Rightarrow> string \<Rightarrow> 'req \<Rightarrow> 'w response \<Rightarrow> 'w response" where
  "main_serve lib api_fails WriteAll server wr stores path request rsp =
     (case map_option snd (mux_handler (fst server) path) of
        Some MainMetrics \<Rightarrow> metricsHandler lib wr (serve_metrics wr stores) request rsp
      | Some ExternalMetrics \<Rightarrow> metricsHandler lib wr (Write WriteAll (snd server)) request rsp
      | Some (ProbeHandler p) \<Rightarrow> genericProbe api_fails wr p rsp
      | _ \<Rightarrow> rsp\<lparr>rs_Status := Some 404\<rparr>)"

section \<open>Lemmas\<close>

text \<open>Once a buffered connection has failed it takes nothing more, which is what \<open>net/http\<close>
  promises through \<open>bufio.Writer\<close>.\<close>

definition sticky_errors :: "('w \<Rightarrow> bool) \<Rightarrow> 'w io_writer \<Rightarrow> bool" where
  "sticky_errors failed wr \<longleftrightarrow>
     (\<forall>w p. case wr w p of (w', n, err) \<Rightarrow> (err \<longrightarrow> failed w') \<and> (failed w \<longrightarrow> n = 0 \<and> failed w'))"

text \<open>\<open>FinalizeOpenMetrics\<close> writes the closing line.\<close>

definition eof_line :: string where
  "eof_line = ''# EOF'' @ [CHR 0x0A]"

definition finalize_contract :: "('w, 'req) expfmt_lib \<Rightarrow> bool" where
  "finalize_contract lib \<longleftrightarrow> (\<forall>wr k. FinalizeOpenMetrics lib wr k = sink_Write wr eof_line k)"

text \<open>What a failing connection got of a text: all of it, or a first part and it has failed.\<close>

definition got :: "('w \<Rightarrow> bool) \<Rightarrow> string \<Rightarrow> 'w sink \<Rightarrow> 'w sink \<Rightarrow> bool" where
  "got failed t k k' \<longleftrightarrow>
     (if failed (fst k) then snd k' = snd k \<and> failed (fst k')
      else \<exists>m. snd k' = snd k @ take m t \<and> (m < length t \<longrightarrow> failed (fst k')))"

lemma got_nil: "got failed [] k k"
  by (simp add: got_def)

lemma got_append:
  assumes "got failed s k k1" and "got failed t k1 k2"
  shows "got failed (s @ t) k k2"
proof (cases "failed (fst k)")
  case True
  with assms show ?thesis by (simp add: got_def)
next
  case False
  with assms(1) obtain m where m: "snd k1 = snd k @ take m s" "m < length s \<Longrightarrow> failed (fst k1)"
    by (auto simp: got_def)
  show ?thesis
  proof (cases "failed (fst k1)")
    case True
    with assms(2) m have "snd k2 = snd k @ take (min m (length s)) (s @ t)" "failed (fst k2)"
      by (auto simp: got_def min_def)
    with False show ?thesis by (auto simp: got_def intro!: exI [of _ "min m (length s)"])
  next
    case ok: False
    with m have "length s \<le> m" by (meson not_le)
    moreover from ok assms(2) obtain j where "snd k2 = snd k1 @ take j t" "j < length t \<Longrightarrow> failed (fst k2)"
      by (auto simp: got_def)
    ultimately have "snd k2 = snd k @ take (length s + j) (s @ t)"
      "length s + j < length (s @ t) \<Longrightarrow> failed (fst k2)"
      using m(1) by simp_all
    with False show ?thesis by (auto simp: got_def intro!: exI [of _ "length s + j"])
  qed
qed

lemma sink_Write_got:
  assumes "io_contract wr" and "sticky_errors failed wr"
  shows "got failed p k (fst (sink_Write wr p k))" and "snd (sink_Write wr p k) \<Longrightarrow> failed (fst (fst (sink_Write wr p k)))"
proof -
  obtain w out where k: "k = (w, out)" by (cases k)
  obtain w' n err where wr: "wr w p = (w', n, err)" by (cases "wr w p")
  have c: "n \<le> length p" "n < length p \<Longrightarrow> err"
    using assms(1) wr unfolding io_contract_def by (force split: prod.splits)+
  have f: "err \<Longrightarrow> failed w'" "failed w \<Longrightarrow> n = 0 \<and> failed w'"
    using assms(2) wr unfolding sticky_errors_def by (force split: prod.splits)+
  show "got failed p k (fst (sink_Write wr p k))"
    using c f by (auto simp: got_def sink_Write_def k wr)
  show "snd (sink_Write wr p k) \<Longrightarrow> failed (fst (fst (sink_Write wr p k)))"
    using f by (simp add: sink_Write_def k wr)
qed

text \<open>A writer that has failed stays out of the rest: giving up and going on are the same.\<close>

lemma got_failed: "failed (fst k) \<Longrightarrow> got failed t k k"
  by (simp add: got_def)

lemma write_seq_got:
  assumes "io_contract wr" and "sticky_errors failed wr"
  shows "got failed (concat ps) k (fst (write_seq_to wr ps k))"
proof (induction ps arbitrary: k)
  case (Cons p ps)
  obtain k1 err where w: "sink_Write wr p k = (k1, err)" by (cases "sink_Write wr p k")
  have g: "got failed p k k1" and e: "err \<Longrightarrow> failed (fst k1)"
    using sink_Write_got [OF assms, of p k] by (simp_all add: w)
  have "got failed (concat ps) k1 (fst (if err then (k1, True) else write_seq_to wr ps k1))"
    using Cons.IH [of k1] e by (simp add: got_failed)
  with got_append [OF g] w show ?case by simp
qed (simp add: got_nil)

definition metrics_document :: "(uid, store list) gomap \<Rightarrow> string" where
  "metrics_document stores = concat (map (\<lambda>(_, ss). concat (exposition ss)) stores)"

lemma serve_metrics_got:
  assumes "io_contract wr" and "sticky_errors failed wr"
  shows "got failed (metrics_document stores) k (serve_metrics wr stores k)"
proof (induction stores arbitrary: k)
  case (Cons us stores)
  obtain u ss where us: "us = (u, ss)" by (cases us)
  have "got failed (concat (exposition ss)) k (fst (writeStores wr ss k))"
    unfolding writeStores_calls by (rule write_seq_got [OF assms])
  from got_append [OF this Cons.IH] show ?case by (simp add: us metrics_document_def)
qed (simp add: got_nil metrics_document_def)

lemma metricsHandler_got:
  assumes "io_contract wr" and "sticky_errors failed wr" and "finalize_contract lib"
    and "\<And>k. got failed t k (generator k)"
  shows "got failed (t @ (if IsTypeOpenMetrics lib (NegotiateAccept lib request (negotiableFormats lib)) then eof_line else []))
    (rs_Body rsp) (rs_Body (metricsHandler lib wr generator request rsp))"
proof -
  have "FinalizeOpenMetrics lib wr k = sink_Write wr eof_line k" for k
    using assms(3) unfolding finalize_contract_def by blast
  with got_append [OF assms(4) sink_Write_got(1) [OF assms(1,2)]] assms(4) show ?thesis
    by (simp add: metricsHandler_def Let_def)
qed

lemma main_routes:
  "mux_handler (fst (main_build source kubeconfig cs)) path =
     map_option (Pair path) (map_of [(''/metrics'', MainMetrics), (''/external'', ExternalMetrics),
       (''/healthz'', ProbeHandler (newHealthz source)), (''/livez'', ProbeHandler (newLivez source))] path)"
  by (simp add: main_build_def newHealthz_def newLivez_def pattern_matches_def Let_def)

lemma main_serve_metrics:
  "main_serve lib api_fails WriteAll (main_build source kubeconfig cs) wr stores ''/metrics'' request rsp
     = metricsHandler lib wr (serve_metrics wr stores) request rsp"
  by (simp add: main_serve_def main_routes)

text \<open>The collectors of a fresh instance, in order of registration, with the kubeconfig of the server.\<close>

lemma Build_eq:
  "Build ct = ct\<lparr>ex_builtCollectors := ex_builtCollectors ct
     @ map (\<lambda>c. \<lparr>bc_resource = ec_Resource c, bc_store = ec_BuildCollector c (ex_kubeconfig ct)\<rparr>) (ex_collectors ct)\<rparr>"
proof -
  have "fold (\<lambda>c ct. ct\<lparr>ex_builtCollectors := ex_builtCollectors ct
       @ [\<lparr>bc_resource = ec_Resource c, bc_store = ec_BuildCollector c (ex_kubeconfig ct)\<rparr>]\<rparr>) cs ct
     = ct\<lparr>ex_builtCollectors := ex_builtCollectors ct
     @ map (\<lambda>c. \<lparr>bc_resource = ec_Resource c, bc_store = ec_BuildCollector c (ex_kubeconfig ct)\<rparr>) cs\<rparr>" for cs
    by (induction cs arbitrary: ct) simp_all
  then show ?thesis by (simp add: Build_def)
qed

section \<open>Properties\<close>

text \<open>C9: what a client of \<open>/metrics\<close> receives. The content type is the negotiated one; the body is a
  prefix of one document, the expositions of all monitors followed by the OpenMetrics closing
  line if that format was negotiated, and it is the whole document on a connection that does
  not fail. In particular a body that ends in the closing line of a document is complete,
  though the handler ignores the error of each monitor and goes on to the next.\<close>

theorem metrics_endpoint:
  assumes "io_contract wr" and "sticky_errors failed wr" and "finalize_contract lib"
    and "rs_Body rsp = (w, [])" and "\<not> failed w"
    and "contentType = NegotiateAccept lib request (negotiableFormats lib)"
    and "document = metrics_document stores @ (if IsTypeOpenMetrics lib contentType then eof_line else [])"
    and "rsp' = main_serve lib api_fails WriteAll (main_build source kubeconfig cs) wr stores ''/metrics'' request rsp"
  shows "\<exists>m. snd (rs_Body rsp') = take m document
     \<and> (\<not> failed (fst (rs_Body rsp')) \<longrightarrow> snd (rs_Body rsp') = document)
     \<and> map_of (rs_Header rsp') ''Content-Type'' = Some contentType \<and> rs_Status rsp' = rs_Status rsp"
proof -
  have rsp': "rsp' = metricsHandler lib wr (serve_metrics wr stores) request rsp"
    unfolding assms(8) by (rule main_serve_metrics)
  have "got failed document (rs_Body rsp) (rs_Body rsp')"
    unfolding rsp' assms(6,7) by (rule metricsHandler_got [OF assms(1-3) serve_metrics_got [OF assms(1,2)]])
  with assms(4,5) obtain m where "snd (rs_Body rsp') = take m document" "m < length document \<Longrightarrow> failed (fst (rs_Body rsp'))"
    by (auto simp: got_def)
  moreover have "map_of (rs_Header rsp') ''Content-Type'' = Some contentType" "rs_Status rsp' = rs_Status rsp"
    by (simp_all add: rsp' metricsHandler_def Let_def update_conv assms(6))
  ultimately show ?thesis by (metis not_le take_all)
qed

definition demo_expfmt :: "(nat, bool) expfmt_lib" where
  "demo_expfmt = \<lparr>NegotiateAccept = (\<lambda>open_metrics fs. if open_metrics then fs ! 0 else fs ! 2),
     NewFormat_OpenMetrics = ''om'', OpenMetrics_0_0_1 = ''om1'', NewFormat_TextPlain = ''text'',
     IsTypeOpenMetrics = (\<lambda>f. f \<noteq> ''text''), FinalizeOpenMetrics = (\<lambda>wr. sink_Write wr eof_line)\<rparr>"

lemma quota_writer_sticky: "sticky_errors (\<lambda>w. w = 0) quota_writer"
  by (simp add: sticky_errors_def quota_writer_def)

theorem metrics_endpoint_witness:
  "\<exists>m. snd (rs_Body (main_serve demo_expfmt (\<lambda>_. False) (\<lambda>_ (_ :: unit) k. k) (main_build ''main'' [] collectorsInstance)
       quota_writer [(''u'', [demo_store])] ''/metrics'' True \<lparr>rs_Header = [], rs_Status = None, rs_Body = (1, [])\<rparr>))
     = take m (metrics_document [(''u'', [demo_store])] @ eof_line)"
proof -
  let ?rsp = "\<lparr>rs_Header = [], rs_Status = None, rs_Body = (1, [])\<rparr> :: nat response"
  have f: "finalize_contract demo_expfmt" by (simp add: finalize_contract_def demo_expfmt_def)
  have b: "rs_Body ?rsp = (1, [])" "(1 :: nat) \<noteq> 0" by simp_all
  from metrics_endpoint [OF quota_writer_contract quota_writer_sticky f b refl refl refl,
      where stores = "[(''u'', [demo_store])]" and request = True and api_fails = "\<lambda>_. False"
        and WriteAll = "\<lambda>_ (_ :: unit) k. k" and source = "''main''" and kubeconfig = "[]" and cs = collectorsInstance]
  show ?thesis by (auto simp: demo_expfmt_def negotiableFormats_def)
qed

text \<open>The other paths of the main server. A probe answers 200 with the text OK exactly when the
  API server answers the same path without an error, else 503, whatever the state of the
  controller; the external endpoint writes the collectors in the order they were registered,
  each built with the kubeconfig of the server; and nothing else is served.\<close>

theorem main_server_paths:
  assumes "rsp' = main_serve lib api_fails WriteAll (main_build source kubeconfig cs) wr stores path request rsp"
    and "ex_builtCollectors cs = []" and "path \<noteq> ''/metrics''"
  shows "rsp' =
    (if path = ''/healthz'' \<or> path = ''/livez''
     then (if api_fails path
           then rsp\<lparr>rs_Status := Some 503, rs_Body := fst (sink_Write wr ''Service Unavailable'' (rs_Body rsp))\<rparr>
           else rsp\<lparr>rs_Status := Some 200, rs_Body := fst (sink_Write wr ''OK'' (rs_Body rsp))\<rparr>)
     else if path = ''/external''
     then metricsHandler lib wr (fold (\<lambda>c. WriteAll (ec_Resource c) (ec_BuildCollector c kubeconfig)) (ex_collectors cs)) request rsp
     else rsp\<lparr>rs_Status := Some 404\<rparr>)"
proof -
  have "Write WriteAll (snd (main_build source kubeconfig cs))
      = fold (\<lambda>c. WriteAll (ec_Resource c) (ec_BuildCollector c kubeconfig)) (ex_collectors cs)"
    using assms(2) by (simp add: fun_eq_iff Write_def main_build_def Build_eq SetKubeConfig_def Let_def fold_map comp_def)
  with assms(3) show ?thesis
    by (simp add: assms(1) main_serve_def main_routes genericProbe_def newHealthz_def newLivez_def)
qed

theorem main_server_paths_witness:
  "rs_Status (main_serve demo_expfmt (\<lambda>p. p = ''/livez'') (\<lambda>_ (_ :: unit) k. k) (main_build ''main'' [] collectorsInstance)
       quota_writer [] ''/livez'' True \<lparr>rs_Header = [], rs_Status = None, rs_Body = (9, [])\<rparr>) = Some 503"
  by (subst main_server_paths [OF refl]) (simp_all add: collectorsInstance_def)

end
