(* ===== verification/Options.thy ===== *)
theory Options
  imports Go_Value Cardinality_Tracker
begin

text \<open>
  \<open>pkg/options/options.go\<close>: the validation of command-line flags and the environment overrides.
  A registered flag is its name, its current value and its default as text, which is all that
  \<open>Read\<close> looks at. Parsing and printing a flag value by the \<open>flag\<close> package is a parameter, the
  text of the flag after \<open>flag.Set\<close> or \<open>None\<close> for an error; so is the environment. A panic is
  \<open>None\<close>. Names are ASCII, so \<open>ToUpper\<close> works byte by byte.
\<close>

definition cardinalityWarningRatioFlagName :: string where
  "cardinalityWarningRatioFlagName = ''cardinality-warning-ratio''"
definition celTimeoutFlagName :: string where "celTimeoutFlagName = ''cel-timeout-seconds''"
definition starlarkMaxStepsFlagName :: string where "starlarkMaxStepsFlagName = ''starlark-max-steps''"
definition starlarkTimeoutFlagName :: string where "starlarkTimeoutFlagName = ''starlark-timeout-seconds''"
definition minStarlarkMaxSteps :: int where "minStarlarkMaxSteps = 100"

datatype flag_error = ErrInvalidValue string | ErrOutOfRange string

definition validate_int :: "string \<Rightarrow> string \<Rightarrow> (int \<Rightarrow> bool) \<Rightarrow> flag_error option" where
  "validate_int name v bad =
     (case Atoi v of
        None \<Rightarrow> Some (ErrInvalidValue name)
      | Some valueInt \<Rightarrow> if bad valueInt then Some (ErrOutOfRange name) else None)"

definition validateFlag :: "string \<Rightarrow> string \<Rightarrow> flag_error option" where
  "validateFlag name v =
     (if name = celTimeoutFlagName
      then validate_int name v (\<lambda>valueInt. valueInt \<le> 0 \<or> 300 < valueInt)
      else if name = cardinalityWarningRatioFlagName
      then (case ParseFloat v of
          Inl _ \<Rightarrow> Some (ErrInvalidValue name)
        | Inr valueFloat \<Rightarrow>
            if f64_less valueFloat f64_zero \<or> f64_less f64_one valueFloat then Some (ErrOutOfRange name) else None)
      else if name = starlarkTimeoutFlagName
      then validate_int name v (\<lambda>valueInt. valueInt \<le> 0 \<or> 60 < valueInt)
      else if name = starlarkMaxStepsFlagName
      then validate_int name v (\<lambda>valueInt. valueInt < minStarlarkMaxSteps)
      else None)"

record flag_entry =
  fl_Name :: string
  fl_Value :: string
  fl_DefValue :: string

record flag_lib =
  flag_Set :: "string \<Rightarrow> string \<Rightarrow> string option"
  LookupEnv :: "string \<Rightarrow> string option"

definition override_name :: "string \<Rightarrow> string" where
  "override_name name = ''RSM_'' @ map (\<lambda>c. if upper c = CHR ''-'' then CHR ''_'' else upper c) name"

text \<open>The visitor of \<open>Read\<close>.\<close>

definition visit_flag :: "flag_lib \<Rightarrow> flag_entry \<Rightarrow> flag_entry option" where
  "visit_flag lib f =
     (if fl_Value f \<noteq> fl_DefValue f
      then (case validateFlag (fl_Name f) (fl_Value f) of Some _ \<Rightarrow> None | None \<Rightarrow> Some f)
      else (case LookupEnv lib (override_name (fl_Name f)) of
          None \<Rightarrow> Some f
        | Some v \<Rightarrow> map_option (\<lambda>v. f\<lparr>fl_Value := v\<rparr>) (flag_Set lib (fl_Name f) v)))"

fun visit_flags :: "flag_lib \<Rightarrow> flag_entry list \<Rightarrow> flag_entry list option" where
  "visit_flags lib [] = Some []"
| "visit_flags lib (f # fs) =
     (case visit_flag lib f of None \<Rightarrow> None | Some f \<Rightarrow> map_option ((#) f) (visit_flags lib fs))"

text \<open>The flags that \<open>Read\<close> registers, at their defaults as \<open>flag\<close> prints them; two defaults come from
  the environment.\<close>

definition registered :: "string \<Rightarrow> string \<Rightarrow> flag_entry" where
  "registered name def = \<lparr>fl_Name = name, fl_Value = def, fl_DefValue = def\<rparr>"

definition registered_flags :: "string \<Rightarrow> string \<Rightarrow> flag_entry list" where
  "registered_flags KUBECONFIG KUBERNETES_MASTER =
     [registered cardinalityWarningRatioFlagName ''0.8'',
      registered ''cel-cost-limit'' ''100000'',
      registered celTimeoutFlagName ''5'',
      registered ''global-cardinality-limit'' ''0'',
      registered ''kubeconfig'' KUBECONFIG,
      registered ''main-host'' ''::'',
      registered ''main-port'' ''9999'',
      registered ''master'' KUBERNETES_MASTER,
      registered ''ratio-gomemlimit'' ''0.9'',
      registered ''resource-cardinality-default'' ''100000'',
      registered ''self-host'' ''::'',
      registered ''self-port'' ''9998'',
      registered starlarkMaxStepsFlagName ''100000'',
      registered starlarkTimeoutFlagName ''5'',
      registered ''version'' ''false'',
      registered ''workers'' ''2'']"

section \<open>Lemmas\<close>

lemmas flag_names = cardinalityWarningRatioFlagName_def celTimeoutFlagName_def
  starlarkMaxStepsFlagName_def starlarkTimeoutFlagName_def

lemma validate_int_None: "validate_int name v bad = None \<longleftrightarrow> (\<exists>i. Atoi v = Some i \<and> \<not> bad i)"
  by (simp add: validate_int_def split: option.split)

lemma visit_flags_nth:
  "visit_flags lib fs = Some fs' \<Longrightarrow> length fs' = length fs
     \<and> (\<forall>i < length fs. visit_flag lib (fs ! i) = Some (fs' ! i))"
proof (induction fs arbitrary: fs')
  case (Cons f fs)
  then obtain g gs where "visit_flag lib f = Some g" "visit_flags lib fs = Some gs" "fs' = g # gs"
    by (auto split: option.splits)
  with Cons.IH [of gs] show ?case by (auto simp: nth_Cons' less_Suc_eq_0_disj)
qed simp

text \<open>The registered defaults would themselves pass the validation, and without a command line or an
  environment they are what the process runs with.\<close>

lemma Atoi_defaults: "Atoi ''5'' = Some 5" "Atoi ''100000'' = Some 100000"
  by (simp_all add: Atoi_def Let_def digits_val_def digit_val_def is_digit_def)

lemma ParseFloat_default: "ParseFloat ''0.8'' = Inr f64_0_8"
proof -
  have "read_special ''0.8'' = None" by (simp add: read_special_def strip_sign_def lower_def)
  moreover have "read_float ''0.8'' = Some f64_0_8"
    by (simp add: read_float_def strip_sign_def Let_def hex_literal_def lower_def is_digit_def hex_val_def
        digit_val_def f64_scale_def f64_0_8_def)
  moreover have "f64_0_8 \<noteq> float64.Inf x" for x by (simp add: f64_eval)
  ultimately show ?thesis by (auto simp: ParseFloat_def split: float64.split)
qed

lemma default_ratio_in_range: "\<not> f64_less f64_0_8 f64_zero \<and> \<not> f64_less f64_one f64_0_8"
  by (simp add: f64_eval)

lemma defaults_valid:
  "f \<in> set (registered_flags k m) \<Longrightarrow> validateFlag (fl_Name f) (fl_Value f) = None"
  using default_ratio_in_range
  by (auto simp: registered_flags_def registered_def validateFlag_def validate_int_def flag_names
      Atoi_defaults minStarlarkMaxSteps_def ParseFloat_default)

lemma defaults_kept:
  assumes "\<forall>name. LookupEnv lib name = None"
  shows "visit_flags lib (registered_flags k m) = Some (registered_flags k m)"
  using assms by (simp add: registered_flags_def registered_def visit_flag_def)

text \<open>Not a number is neither below 0 nor above 1.\<close>

lemma nan_ratio_accepted: "validateFlag cardinalityWarningRatioFlagName ''NaN'' = None"
proof -
  have "lower (CHR ''N'') = CHR ''n''" "lower (CHR ''a'') = CHR ''a''" by code_simp+
  then have "ParseFloat ''NaN'' = Inr NaN" by (simp add: ParseFloat_def read_special_def strip_sign_def Let_def)
  then show ?thesis by (simp add: validateFlag_def flag_names f64_one_def f64_of_int_def)
qed

section \<open>Properties\<close>

text \<open>What starting up accepts. After \<open>Read\<close> every flag set on the command line is validated:
  a CEL timeout is a number of seconds from 1 to 300, a Starlark timeout from 1 to 60, the
  Starlark steps at least 100, and the warning ratio a float that is not below 0 nor above 1;
  it keeps the value given, and the environment is not consulted for it.\<close>

theorem read_validates:
  assumes "visit_flags lib fs = Some fs'" and "i < length fs" and "fl_Value (fs ! i) \<noteq> fl_DefValue (fs ! i)"
  shows "fs' ! i = fs ! i
     \<and> (fl_Name (fs ! i) = celTimeoutFlagName \<longrightarrow>
          (\<exists>n. Atoi (fl_Value (fs ! i)) = Some n \<and> 1 \<le> n \<and> n \<le> 300))
     \<and> (fl_Name (fs ! i) = starlarkTimeoutFlagName \<longrightarrow>
          (\<exists>n. Atoi (fl_Value (fs ! i)) = Some n \<and> 1 \<le> n \<and> n \<le> 60))
     \<and> (fl_Name (fs ! i) = starlarkMaxStepsFlagName \<longrightarrow>
          (\<exists>n. Atoi (fl_Value (fs ! i)) = Some n \<and> 100 \<le> n))
     \<and> (fl_Name (fs ! i) = cardinalityWarningRatioFlagName \<longrightarrow>
          (\<exists>x. ParseFloat (fl_Value (fs ! i)) = Inr x \<and> \<not> f64_less x f64_zero \<and> \<not> f64_less f64_one x))"
proof -
  have "visit_flag lib (fs ! i) = Some (fs' ! i)" using visit_flags_nth [OF assms(1)] assms(2) by blast
  with assms(3) have v: "fs' ! i = fs ! i" "validateFlag (fl_Name (fs ! i)) (fl_Value (fs ! i)) = None"
    by (auto simp: visit_flag_def split: option.splits)
  note valid = v(2) [unfolded validateFlag_def]
  have "\<exists>n. Atoi (fl_Value (fs ! i)) = Some n \<and> 1 \<le> n \<and> n \<le> 300" if "fl_Name (fs ! i) = celTimeoutFlagName"
    using valid that by (auto simp: validate_int_None)
  moreover have "\<exists>n. Atoi (fl_Value (fs ! i)) = Some n \<and> 1 \<le> n \<and> n \<le> 60"
    if "fl_Name (fs ! i) = starlarkTimeoutFlagName"
    using valid that by (auto simp: validate_int_None flag_names)
  moreover have "\<exists>n. Atoi (fl_Value (fs ! i)) = Some n \<and> 100 \<le> n"
    if "fl_Name (fs ! i) = starlarkMaxStepsFlagName"
    using valid that by (auto simp: validate_int_None flag_names minStarlarkMaxSteps_def)
  moreover have "\<exists>x. ParseFloat (fl_Value (fs ! i)) = Inr x \<and> \<not> f64_less x f64_zero \<and> \<not> f64_less f64_one x"
    if "fl_Name (fs ! i) = cardinalityWarningRatioFlagName"
    using valid that by (auto simp: flag_names split: sum.splits if_splits)
  ultimately show ?thesis using v(1) by blast
qed

definition demo_flag :: "string \<Rightarrow> string \<Rightarrow> flag_entry" where
  "demo_flag name v = \<lparr>fl_Name = name, fl_Value = v, fl_DefValue = ''5''\<rparr>"

definition demo_env :: "string \<Rightarrow> flag_lib" where
  "demo_env v = \<lparr>flag_Set = (\<lambda>_ v. Some v), LookupEnv = (\<lambda>_. Some v)\<rparr>"

theorem read_validates_witness:
  "\<exists>fs'. visit_flags (demo_env ''7'') [demo_flag celTimeoutFlagName ''30''] = Some fs'
     \<and> fl_Value (fs' ! 0) = ''30''"
proof -
  have a: "Atoi ''30'' = Some 30"
    using Atoi_Itoa [of 30] by (simp add: Itoa_def dec_nat.simps dec_digit_eval)
  have v: "visit_flags (demo_env ''7'') [demo_flag celTimeoutFlagName ''30'']
      = Some [demo_flag celTimeoutFlagName ''30'']"
    by (simp add: visit_flag_def demo_flag_def validateFlag_def validate_int_def a)
  from read_validates [OF v, of 0] v show ?thesis by (simp add: demo_flag_def)
qed

text \<open>The validation covers the command line only. A flag left at its default takes the
  environment's value unchecked, so a value that stops the process when it is given as a flag
  is accepted from the environment.\<close>

theorem environment_bypasses_validation:
  assumes "fl_Value f = fl_DefValue f" and "LookupEnv lib (override_name (fl_Name f)) = Some v"
    and "flag_Set lib (fl_Name f) v = Some v" and "validateFlag (fl_Name f) v = Some e"
    and "v \<noteq> fl_DefValue f"
  shows "visit_flags lib [f] = Some [f\<lparr>fl_Value := v\<rparr>] \<and> visit_flags lib [f\<lparr>fl_Value := v\<rparr>] = None"
  using assms by (simp add: visit_flag_def)

theorem environment_bypasses_validation_witness:
  "visit_flags (demo_env ''x'') [demo_flag celTimeoutFlagName ''5''] = Some [demo_flag celTimeoutFlagName ''x'']
   \<and> visit_flags (demo_env ''x'') [demo_flag celTimeoutFlagName ''x''] = None"
proof -
  have "Atoi ''x'' = None" by (simp add: Atoi_def is_digit_def)
  then have "validateFlag celTimeoutFlagName ''x'' = Some (ErrInvalidValue celTimeoutFlagName)"
    by (simp add: validateFlag_def validate_int_def)
  with environment_bypasses_validation [of "demo_flag celTimeoutFlagName ''5''" "demo_env ''x''" "''x''"]
  show ?thesis by (simp add: demo_flag_def demo_env_def)
qed

end
