(* ===== verification/Startup.thy ===== *)
theory Startup
  imports Server Options
begin

text \<open>
  The life of the process: \<open>main.go\<close>, \<open>Controller.Run\<close> of \<open>internal/controller.go\<close>,
  \<open>internal/version/version.go\<close>, \<open>pkg/signals/signal.go\<close>, and the end of \<open>Options.Read\<close>. The main
  goroutine is a sequence of stages; beside it run the goroutine of the signal handler, the
  informers, and, once a worker is started, the steps of the controller. Whether the libraries
  that build the clients return an error is a parameter, and so are the descriptors of the
  collectors that \<open>Run\<close> takes from the client library of Prometheus. A panic ends the process with
  code 2.
\<close>

section \<open>The name of the program\<close>

definition ControllerName :: string where "ControllerName = ''resource-state-metrics''"

text \<open>\<open>strings.ReplaceAll\<close> of a single byte.\<close>

definition ReplaceAll :: "string \<Rightarrow> char \<Rightarrow> string \<Rightarrow> string" where
  "ReplaceAll s old new = concat (map (\<lambda>c. if c = old then new else [c]) s)"

text \<open>The name is ASCII. \<open>title\<close> is \<open>cases.Title\<close>, \<open>print\<close> the function of the version package.\<close>

definition ToSnakeCase :: "string \<Rightarrow> string" where
  "ToSnakeCase n = ReplaceAll (map lower n) (CHR ''-'') ''_''"

definition ToPascalCase :: "(string \<Rightarrow> string) \<Rightarrow> string \<Rightarrow> string" where
  "ToPascalCase title n = ReplaceAll (title n) (CHR ''-'') []"

definition Version :: "(string \<Rightarrow> string) \<Rightarrow> string" where
  "Version print = print ControllerName"

section \<open>The options of the process\<close>

record run_options =
  ro_controller :: controller_options
  ro_Kubeconfig :: string
  ro_MainHost :: string
  ro_MainPort :: int
  ro_MasterURL :: string
  ro_RatioGOMEMLIMIT :: float64
  ro_SelfHost :: string
  ro_SelfPort :: int
  ro_Version :: bool
  ro_Workers :: int

text \<open>The value of a flag is the text its \<open>String\<close> prints, which always parses.\<close>

definition flag_text :: "flag_entry list \<Rightarrow> string \<Rightarrow> string" where
  "flag_text fs name = gm_get [] (map (\<lambda>f. (fl_Name f, fl_Value f)) fs) name"

definition flag_int :: "flag_entry list \<Rightarrow> string \<Rightarrow> int" where
  "flag_int fs name = (case Atoi (flag_text fs name) of Some i \<Rightarrow> i | None \<Rightarrow> 0)"

definition flag_float :: "flag_entry list \<Rightarrow> string \<Rightarrow> float64" where
  "flag_float fs name = (case ParseFloat (flag_text fs name) of Inr x \<Rightarrow> x | Inl _ \<Rightarrow> f64_zero)"

definition copy_registered :: "flag_entry list \<Rightarrow> run_options" where
  "copy_registered fs =
     \<lparr>ro_controller =
        \<lparr>op_CELCostLimit = word_of_nat (digits_val (flag_text fs ''cel-cost-limit'')),
         op_CELTimeout = flag_int fs celTimeoutFlagName,
         op_GlobalCardinalityLimit = word_of_int (flag_int fs ''global-cardinality-limit''),
         op_ResourceCardinalityDefault = word_of_int (flag_int fs ''resource-cardinality-default''),
         op_CardinalityWarningRatio = flag_float fs cardinalityWarningRatioFlagName,
         op_StarlarkTimeout = flag_int fs starlarkTimeoutFlagName,
         op_StarlarkMaxSteps = flag_int fs starlarkMaxStepsFlagName\<rparr>,
      ro_Kubeconfig = flag_text fs ''kubeconfig'',
      ro_MainHost = flag_text fs ''main-host'',
      ro_MainPort = flag_int fs ''main-port'',
      ro_MasterURL = flag_text fs ''master'',
      ro_RatioGOMEMLIMIT = flag_float fs ''ratio-gomemlimit'',
      ro_SelfHost = flag_text fs ''self-host'',
      ro_SelfPort = flag_int fs ''self-port'',
      ro_Version = (flag_text fs ''version'' = ''true''),
      ro_Workers = flag_int fs ''workers''\<rparr>"

text \<open>\<open>flag.NFlag\<close> counts the flags given on the command line and those \<open>Read\<close> sets from the
  environment.\<close>

definition overridden :: "flag_lib \<Rightarrow> flag_entry \<Rightarrow> bool" where
  "overridden lib f \<longleftrightarrow> fl_Value f = fl_DefValue f \<and> LookupEnv lib (override_name (fl_Name f)) \<noteq> None"

definition NFlag :: "flag_lib \<Rightarrow> string list \<Rightarrow> flag_entry list \<Rightarrow> nat" where
  "NFlag lib given fs = length (filter (\<lambda>f. fl_Name f \<in> set given \<or> overridden lib f) fs)"

section \<open>Signals\<close>

text \<open>\<open>None\<close> is the panic of closing a closed channel.\<close>

record signal_state =
  sg_buffered :: nat
  sg_cancelled :: bool
  sg_exited :: bool

definition SetupSignalHandler :: "bool \<Rightarrow> signal_state option" where
  "SetupSignalHandler already =
     (if already then None else Some \<lparr>sg_buffered = 0, sg_cancelled = False, sg_exited = False\<rparr>)"

text \<open>A signal is dropped when the two places of the channel are taken.\<close>

definition notify :: "signal_state \<Rightarrow> signal_state" where
  "notify s = (if sg_buffered s < 2 then s\<lparr>sg_buffered := Suc (sg_buffered s)\<rparr> else s)"

text \<open>One receive of the handler: the first cancels the context, the second exits.\<close>

definition receive_signal :: "signal_state \<Rightarrow> signal_state option" where
  "receive_signal s =
     (if sg_buffered s = 0 then None
      else Some (let s = s\<lparr>sg_buffered := sg_buffered s - 1\<rparr>
                 in if sg_cancelled s then s\<lparr>sg_exited := True\<rparr> else s\<lparr>sg_cancelled := True\<rparr>))"

section \<open>The telemetry\<close>

datatype vector_kind = HistogramVec | GaugeVec | CounterVec | PlainGauge

record vector =
  ve_Kind :: vector_kind
  ve_Name :: string
  ve_labels :: "string list"

definition telemetry_vectors :: "vector list" where
  "telemetry_vectors =
     [\<lparr>ve_Kind = HistogramVec, ve_Name = ''http_request_duration_seconds'', ve_labels = [''method'', ''code'']\<rparr>,
      \<lparr>ve_Kind = GaugeVec, ve_Name = ''resources_monitored_info'', ve_labels = [''namespace'', ''name'']\<rparr>,
      \<lparr>ve_Kind = CounterVec, ve_Name = ''events_processed_total'',
       ve_labels = [''namespace'', ''name'', ''event_type'', ''status'']\<rparr>,
      \<lparr>ve_Kind = CounterVec, ve_Name = ''cel_evaluations_total'',
       ve_labels = [''namespace'', ''name'', ''family'', ''result'']\<rparr>,
      \<lparr>ve_Kind = GaugeVec, ve_Name = ''family_cardinality'',
       ve_labels = [''namespace'', ''name'', ''store'', ''family'']\<rparr>,
      \<lparr>ve_Kind = GaugeVec, ve_Name = ''family_cardinality_limit'',
       ve_labels = [''namespace'', ''name'', ''store'', ''family'']\<rparr>,
      \<lparr>ve_Kind = GaugeVec, ve_Name = ''store_cardinality'', ve_labels = [''namespace'', ''name'', ''store'']\<rparr>,
      \<lparr>ve_Kind = GaugeVec, ve_Name = ''store_cardinality_limit'', ve_labels = [''namespace'', ''name'', ''store'']\<rparr>,
      \<lparr>ve_Kind = GaugeVec, ve_Name = ''resource_cardinality'', ve_labels = [''namespace'', ''name'']\<rparr>,
      \<lparr>ve_Kind = GaugeVec, ve_Name = ''resource_cardinality_limit'', ve_labels = [''namespace'', ''name'']\<rparr>,
      \<lparr>ve_Kind = PlainGauge, ve_Name = ''global_cardinality'', ve_labels = []\<rparr>,
      \<lparr>ve_Kind = PlainGauge, ve_Name = ''global_cardinality_limit'', ve_labels = []\<rparr>,
      \<lparr>ve_Kind = CounterVec, ve_Name = ''cardinality_exceeded_total'',
       ve_labels = [''namespace'', ''name'', ''level'', ''entity'']\<rparr>,
      \<lparr>ve_Kind = GaugeVec, ve_Name = ''duplicate_stores'', ve_labels = [''namespace'', ''name'', ''store'']\<rparr>,
      \<lparr>ve_Kind = GaugeVec, ve_Name = ''duplicate_families'', ve_labels = [''namespace'', ''name'', ''family'']\<rparr>]"

text \<open>A registry maps the full names of metrics to their label names. Registering fails, and the
  \<open>Must\<close> and \<open>promauto\<close> forms panic, on a name that is taken and on names that are not valid.\<close>

type_synonym registry = "(string, string list) gomap"

definition BuildFQName :: "string \<Rightarrow> string \<Rightarrow> string" where
  "BuildFQName namespace name =
     (if name = [] then [] else if namespace = [] then name else namespace @ ''_'' @ name)"

definition desc_valid :: "string \<times> string list \<Rightarrow> bool" where
  "desc_valid d \<longleftrightarrow> valid_label_name (fst d)
     \<and> list_all (\<lambda>l. valid_label_name l \<and> \<not> HasPrefix l ''__'') (snd d) \<and> distinct (snd d)"

definition MustRegister :: "string \<times> string list \<Rightarrow> registry \<Rightarrow> registry option" where
  "MustRegister d reg =
     (if desc_valid d \<and> map_of reg (fst d) = None
      then Some (gm_put (fst d) (snd d) reg) else None)"

fun register_all :: "(string \<times> string list) list \<Rightarrow> registry \<Rightarrow> registry option" where
  "register_all [] reg = Some reg"
| "register_all (d # ds) reg = (case MustRegister d reg of None \<Rightarrow> None | Some reg \<Rightarrow> register_all ds reg)"

text \<open>The registry of \<open>Run\<close>: first the collectors of the client library for the name of the program,
  then its own.\<close>

definition own_descs :: "(string \<times> string list) list" where
  "own_descs = map (\<lambda>v. (BuildFQName (ToSnakeCase ControllerName) (ve_Name v), ve_labels v)) telemetry_vectors"

definition run_registry :: "(string \<Rightarrow> (string \<times> string list) list) \<Rightarrow> registry option" where
  "run_registry collectors = register_all (collectors (ToSnakeCase ControllerName) @ own_descs) []"

text \<open>\<open>WithLabelValues\<close> panics on any other number of values than the vector has labels. A series of
  the controller is written under the name of the vector whose field it is in.\<close>

definition registered_arity :: "registry \<Rightarrow> string \<Rightarrow> string list \<Rightarrow> bool" where
  "registered_arity reg name labels \<longleftrightarrow>
     (\<exists>ls. map_of reg (BuildFQName (ToSnakeCase ControllerName) name) = Some ls \<and> length labels = length ls)"

definition keys_of :: "('k, 'v) gomap option \<Rightarrow> 'k list" where
  "keys_of m = (case m of None \<Rightarrow> [] | Some m \<Rightarrow> map fst m)"

definition recorded :: "'api controller \<Rightarrow> (string \<times> string list) list" where
  "recorded c =
     map (Pair ''resources_monitored_info'') (map fst (cn_resourcesMonitored c))
     @ map (Pair ''events_processed_total'') (map fst (cn_eventsProcessed c))
     @ map (Pair ''family_cardinality'') (map fst (cn_familyCardinality c))
     @ map (Pair ''family_cardinality_limit'') (map fst (cn_familyCardinalityLimit c))
     @ map (Pair ''store_cardinality'') (map fst (cn_storeCardinality c))
     @ map (Pair ''store_cardinality_limit'') (map fst (cn_storeCardinalityLimit c))
     @ map (Pair ''resource_cardinality'') (map fst (cn_resourceCardinality c))
     @ map (Pair ''resource_cardinality_limit'') (map fst (cn_resourceCardinalityLimit c))
     @ map (Pair ''cardinality_exceeded_total'') (map fst (cn_cardinalityExceeded c))
     @ map (Pair ''duplicate_stores'') (keys_of (cn_duplicateStores c))
     @ map (Pair ''duplicate_families'') (keys_of (cn_duplicateFamilies c))"

section \<open>The process\<close>

text \<open>\<open>net.JoinHostPort\<close>.\<close>

definition JoinHostPort :: "string \<Rightarrow> string \<Rightarrow> string" where
  "JoinHostPort host port =
     (if CHR '':'' \<in> set host \<or> CHR ''%'' \<in> set host then ''['' @ host @ '']:'' @ port else host @ '':'' @ port)"

text \<open>What \<open>main\<close> takes from its surroundings: the flags after \<open>flag.Parse\<close> with the names that were
  given, whether each client can be built and the callbacks be added, and the collectors.\<close>

record main_lib =
  ml_flag :: flag_lib
  ml_given :: "string list"
  ml_flags :: "flag_entry list"
  ml_BuildConfigFromFlags :: "string \<Rightarrow> string \<Rightarrow> bool"
  ml_NewForConfig_kubernetes :: bool
  ml_NewForConfig_clientset :: bool
  ml_NewForConfig_dynamic :: bool
  ml_AddEventHandler :: bool
  ml_collectors :: "string \<Rightarrow> (string \<times> string list) list"

text \<open>\<open>main\<close> up to \<open>Run\<close>: an exit code, or the options to run with.\<close>

definition main_prelude :: "main_lib \<Rightarrow> nat + run_options" where
  "main_prelude ml =
     (case visit_flags (ml_flag ml) (ml_flags ml) of
        None \<Rightarrow> Inl 2
      | Some fs \<Rightarrow>
          (let options = copy_registered fs
           in if ro_Version options \<and> NFlag (ml_flag ml) (ml_given ml) (ml_flags ml) = 1 then Inl 0
              else if \<not> ml_BuildConfigFromFlags ml (ro_MasterURL options) (ro_Kubeconfig options) then Inl 1
              else if \<not> ml_NewForConfig_kubernetes ml then Inl 1
              else if \<not> ml_NewForConfig_clientset ml then Inl 1
              else if \<not> ml_NewForConfig_dynamic ml then Inl 1
              else if \<not> ml_AddEventHandler ml then Inl 1
              else Inr options))"

datatype stage =
    Booting
  | Starting
  | Syncing
  | Registering
  | StartingWorkers nat
  | Serving
  | ShuttingDown
  | Exited nat

text \<open>The calls of \<open>Run\<close> that other parts see; a shutdown says whether its context is done.\<close>

datatype run_event =
    InformersStarted
  | CachesSynced
  | SelfServerBuilt string "(string \<times> http_handler) list option"
  | MainServerBuilt string "(string \<times> http_handler) list"
  | WorkerStarted
  | ServersListening
  | SelfShutdown bool
  | MainShutdown bool
  | QueueShutDown

record 'api process =
  pr_stage :: stage
  pr_signals :: signal_state
  pr_options :: "run_options option"
  pr_registry :: "registry option"
  pr_synced :: bool
  pr_workers :: nat
  pr_controller :: "'api controller option"
  pr_items :: "work_item list"
  pr_trace :: "run_event list"

definition exited :: "'api process \<Rightarrow> bool" where
  "exited p = (case pr_stage p of Exited _ \<Rightarrow> True | _ \<Rightarrow> False)"

text \<open>\<open>main\<close> from its first line.\<close>

definition boot :: "'api process" where
  "boot = \<lparr>pr_stage = Booting, pr_signals = the (SetupSignalHandler False), pr_options = None,
     pr_registry = None, pr_synced = False, pr_workers = 0, pr_controller = None, pr_items = [], pr_trace = []\<rparr>"

definition emit :: "run_event list \<Rightarrow> 'api process \<Rightarrow> 'api process" where
  "emit es p = p\<lparr>pr_trace := pr_trace p @ es\<rparr>"

definition addresses :: "run_options \<Rightarrow> string \<times> string" where
  "addresses opt =
     (JoinHostPort (ro_SelfHost opt) (Itoa (ro_SelfPort opt)), JoinHostPort (ro_MainHost opt) (Itoa (ro_MainPort opt)))"

text \<open>One step of the main goroutine. The wait for the caches ends when they are synced or the context
  is done, and may see either when both hold. The number of workers is not validated: none is
  started when it is not positive.\<close>

inductive main_step ::
    "main_lib \<Rightarrow> 'api \<Rightarrow> discovery_client \<Rightarrow> 'api process \<Rightarrow> 'api process \<Rightarrow> bool"
  for ml :: main_lib and api :: 'api and d :: discovery_client where
  quit: "pr_stage p = Booting \<Longrightarrow> main_prelude ml = Inl code
    \<Longrightarrow> main_step ml api d p (p\<lparr>pr_stage := Exited code\<rparr>)"
| new: "pr_stage p = Booting \<Longrightarrow> main_prelude ml = Inr opt
    \<Longrightarrow> main_step ml api d p (p\<lparr>pr_stage := Starting, pr_options := Some opt,
          pr_controller := Some (newController api d (ro_controller opt))\<rparr>)"
| informers: "pr_stage p = Starting
    \<Longrightarrow> main_step ml api d p (emit [InformersStarted] (p\<lparr>pr_stage := Syncing\<rparr>))"
| synced: "pr_stage p = Syncing \<Longrightarrow> pr_synced p
    \<Longrightarrow> main_step ml api d p (emit [CachesSynced] (p\<lparr>pr_stage := Registering\<rparr>))"
| unsynced: "pr_stage p = Syncing \<Longrightarrow> sg_cancelled (pr_signals p)
    \<Longrightarrow> main_step ml api d p (emit [QueueShutDown] (p\<lparr>pr_stage := Exited 1\<rparr>))"
| register: "pr_stage p = Registering \<Longrightarrow> pr_options p = Some opt \<Longrightarrow> pr_controller p = Some c
    \<Longrightarrow> run_registry (ml_collectors ml) = Some reg
    \<Longrightarrow> main_step ml api d p
          (emit [SelfServerBuilt (fst (addresses opt)) (self_build True ''self''),
                 MainServerBuilt (snd (addresses opt)) (fst (main_build ''main'' (ro_Kubeconfig opt) (collectorsInstance :: unit collectors_type)))]
             (p\<lparr>pr_stage := StartingWorkers (nat (ro_Workers opt)), pr_registry := Some reg,
                pr_controller := Some (make_vectors c)\<rparr>))"
| register_panic: "pr_stage p = Registering \<Longrightarrow> run_registry (ml_collectors ml) = None
    \<Longrightarrow> main_step ml api d p (p\<lparr>pr_stage := Exited 2\<rparr>)"
| worker: "pr_stage p = StartingWorkers (Suc n)
    \<Longrightarrow> main_step ml api d p
          (emit [WorkerStarted] (p\<lparr>pr_stage := StartingWorkers n, pr_workers := Suc (pr_workers p)\<rparr>))"
| listen: "pr_stage p = StartingWorkers 0
    \<Longrightarrow> main_step ml api d p (emit [ServersListening] (p\<lparr>pr_stage := Serving\<rparr>))"
| finish: "pr_stage p = Serving \<Longrightarrow> sg_cancelled (pr_signals p)
    \<Longrightarrow> main_step ml api d p (p\<lparr>pr_stage := ShuttingDown\<rparr>)"
| shutdown: "pr_stage p = ShuttingDown
    \<Longrightarrow> main_step ml api d p
          (emit [SelfShutdown (sg_cancelled (pr_signals p)), MainShutdown (sg_cancelled (pr_signals p)), QueueShutDown]
             (p\<lparr>pr_stage := Exited 0\<rparr>))"

inductive_cases main_stepE: "main_step ml api d p q"

lemmas main_step_cases = main_stepE [consumes 1, case_names quit new informers synced unsynced register
  register_panic worker listen finish shutdown]

text \<open>Every goroutine. The informers run from their start and sync their caches at some time, a step of the controller needs a worker, or
  something that only a worker starts.\<close>

inductive proc_step ::
    "main_lib \<Rightarrow> 'api \<Rightarrow> discovery_client \<Rightarrow> 'api api_client \<Rightarrow> key_lib \<Rightarrow> 'm metric_lib_scheme
      \<Rightarrow> 'api process \<Rightarrow> 'api process \<Rightarrow> bool"
  for ml :: main_lib and api :: 'api and d :: discovery_client and cl :: "'api api_client"
    and kl :: key_lib and lib :: "'m metric_lib_scheme" where
  main: "main_step ml api d p q \<Longrightarrow> proc_step ml api d cl kl lib p q"
| signal: "\<not> exited p \<Longrightarrow> proc_step ml api d cl kl lib p (p\<lparr>pr_signals := notify (pr_signals p)\<rparr>)"
| receive: "\<not> exited p \<Longrightarrow> receive_signal (pr_signals p) = Some s
    \<Longrightarrow> proc_step ml api d cl kl lib p
          (p\<lparr>pr_signals := s, pr_stage := (if sg_exited s then Exited 1 else pr_stage p)\<rparr>)"
| caches: "\<not> exited p \<Longrightarrow> InformersStarted \<in> set (pr_trace p)
    \<Longrightarrow> proc_step ml api d cl kl lib p (p\<lparr>pr_synced := True\<rparr>)"
| informer: "\<not> exited p \<Longrightarrow> InformersStarted \<in> set (pr_trace p)
    \<Longrightarrow> proc_step ml api d cl kl lib p (p\<lparr>pr_items := pr_items p @ registerEventHandlers kl e\<rparr>)"
| controller: "\<not> exited p \<Longrightarrow> 0 < pr_workers p \<Longrightarrow> pr_controller p = Some c
    \<Longrightarrow> ctl_step cl kl lib (c, pr_items p) (c', items')
    \<Longrightarrow> proc_step ml api d cl kl lib p (p\<lparr>pr_controller := Some c', pr_items := items'\<rparr>)"

inductive_cases proc_stepE: "proc_step ml api d cl kl lib p q"

lemmas proc_step_cases = proc_stepE [consumes 1, case_names main signal receive caches informer controller]

inductive proc_reachable ::
    "main_lib \<Rightarrow> 'api \<Rightarrow> discovery_client \<Rightarrow> 'api api_client \<Rightarrow> key_lib \<Rightarrow> 'm metric_lib_scheme
      \<Rightarrow> 'api process \<Rightarrow> bool"
  for ml :: main_lib and api :: 'api and d :: discovery_client and cl :: "'api api_client"
    and kl :: key_lib and lib :: "'m metric_lib_scheme" where
  start: "proc_reachable ml api d cl kl lib boot"
| step: "proc_reachable ml api d cl kl lib p \<Longrightarrow> proc_step ml api d cl kl lib p q
    \<Longrightarrow> proc_reachable ml api d cl kl lib q"

section \<open>Label tuples\<close>

definition arity :: "nat \<Rightarrow> (string list, 'v) gomap \<Rightarrow> bool" where
  "arity n m \<longleftrightarrow> (\<forall>k \<in> fst ` set m. length k = n)"

lemma arity_Nil [simp]: "arity n []"
  by (simp add: arity_def)

lemma arity_put [simp]: "length k = n \<Longrightarrow> arity n m \<Longrightarrow> arity n (gm_put k v m)"
  unfolding arity_def keys_put by simp

lemma arity_del [simp]: "arity n m \<Longrightarrow> arity n (gm_del k m)"
  unfolding arity_def by (metis keys_iff map_of_del)

lemma arity_inc [simp]: "length k = n \<Longrightarrow> arity n m \<Longrightarrow> arity n (inc k m)"
  by (simp add: inc_def)

lemma arity_fold:
  "(\<And>x m. x \<in> set xs \<Longrightarrow> arity n m \<Longrightarrow> arity n (f x m)) \<Longrightarrow> arity n m \<Longrightarrow> arity n (fold f xs m)"
  by (induction xs arbitrary: m) simp_all

lemma arity_set_gauges [simp]: "(\<And>k. length (labels k) = n) \<Longrightarrow> arity n m \<Longrightarrow> arity n (set_gauges labels ks m)"
  unfolding set_gauges_def by (rule arity_fold) (auto split: prod.split)

text \<open>The number of values of every series, vector by vector.\<close>

definition labels_fit :: "'api controller \<Rightarrow> bool" where
  "labels_fit c \<longleftrightarrow>
     arity 2 (cn_resourcesMonitored c) \<and> arity 4 (cn_eventsProcessed c)
     \<and> arity 4 (cn_familyCardinality c) \<and> arity 4 (cn_familyCardinalityLimit c)
     \<and> arity 3 (cn_storeCardinality c) \<and> arity 3 (cn_storeCardinalityLimit c)
     \<and> arity 2 (cn_resourceCardinality c) \<and> arity 2 (cn_resourceCardinalityLimit c)
     \<and> arity 4 (cn_cardinalityExceeded c)
     \<and> (\<forall>m. cn_duplicateStores c = Some m \<longrightarrow> arity 3 m) \<and> (\<forall>m. cn_duplicateFamilies c = Some m \<longrightarrow> arity 3 m)"

lemma labels_fit_running: "labels_fit (running_controller api d opt)"
  by (simp add: labels_fit_def running_controller_defs)

lemma labels_fit_added: "labels_fit c \<Longrightarrow> labels_fit (processAddOrUpdate env r c)"
proof -
  assume fit: "labels_fit c"
  have "arity 3 (set_store_gauge ns n seen m)" if "arity 3 m" for ns n seen and m :: gauge_vec
    unfolding set_store_gauge_def using that by (intro arity_fold) (auto split: prod.split)
  moreover have "arity 3 (set_family_gauge ns n seen m)" if "arity 3 m" for ns n seen and m :: gauge_vec
    unfolding set_family_gauge_def using that by (intro arity_fold) (auto split: prod.split)
  ultimately show ?thesis
    using fit by (auto simp: labels_fit_def processAddOrUpdate_def build_def newConfigurer_def Let_def split_def)
qed

lemma labels_fit_published:
  assumes "labels_fit c" and "updateCardinalityStatus cl env r c = (c', err)"
  shows "labels_fit c'"
proof -
  have persist: "labels_fit c2" if "persistCardinalityStatus cl env r agg c1 = (c2, e)" "labels_fit c1" for agg c1 c2 e
    using that by (auto simp: persistCardinalityStatus_def labels_fit_def Let_def split: option.splits prod.splits)
  have measured: "labels_fit (recordCardinalityViolations r vs (updateCardinalityMetrics r agg c1))"
    if "labels_fit c1" for vs agg and c1 :: "'a controller"
    using that by (auto simp: labels_fit_def recordCardinalityViolations_def updateCardinalityMetrics_def Let_def
        intro!: arity_fold)
  have stored: "labels_fit (c\<lparr>cn_stores := ss, cn_manager := m\<rparr>)" for ss m
    using assms(1) by (simp add: labels_fit_def)
  show ?thesis
    using assms persist [OF _ measured [OF stored]]
    by (auto simp: updateCardinalityStatus_def Let_def split: option.splits prod.splits)
qed

interpretation label_tuples: controller_invariant labels_fit lib for lib
proof unfold_locales
  fix c :: "'a controller" and env r
  show "labels_fit c \<Longrightarrow> labels_fit (processAddOrUpdate env r c)" by (rule labels_fit_added)
next
  fix c c' :: "'a controller" and cl env r err
  show "labels_fit c \<Longrightarrow> updateCardinalityStatus cl env r c = (c', err) \<Longrightarrow> labels_fit c'"
    by (rule labels_fit_published)
qed (simp_all add: labels_fit_def count_event_def processDelete_def Let_def)

section \<open>The registry\<close>

lemma snake_name: "ToSnakeCase ControllerName = ''resource_state_metrics''"
  by (simp add: ToSnakeCase_def ControllerName_def ReplaceAll_def lower_def)

lemma own_descs_eval:
  "own_descs = map (\<lambda>v. (''resource_state_metrics_'' @ ve_Name v, ve_labels v)) telemetry_vectors"
  by (simp add: own_descs_def BuildFQName_def snake_name telemetry_vectors_def)

lemma own_descs_valid: "d \<in> set own_descs \<Longrightarrow> desc_valid d"
proof -
  have "list_all (\<lambda>v. valid_label_name (''resource_state_metrics_'' @ ve_Name v)
      \<and> list_all (\<lambda>l. valid_label_name l \<and> \<not> HasPrefix l ''__'') (ve_labels v) \<and> distinct (ve_labels v)) telemetry_vectors"
    by (simp add: telemetry_vectors_def valid_label_name_def word_char_def is_letter_def byte_in_def
        is_digit_def HasPrefix_def)
  then show "d \<in> set own_descs \<Longrightarrow> ?thesis" by (auto simp: own_descs_eval list_all_iff desc_valid_def)
qed

lemma own_descs_distinct: "distinct (map fst own_descs)"
proof -
  have "distinct (map ve_Name telemetry_vectors)" by (simp add: telemetry_vectors_def)
  then show ?thesis by (simp add: own_descs_eval comp_def distinct_map inj_on_def)
qed

text \<open>Registering succeeds exactly when every descriptor is valid and no name is taken or repeated;
  the registry then has all of them.\<close>

lemma register_all_Some:
  assumes "\<And>d. d \<in> set ds \<Longrightarrow> desc_valid d" and "distinct (map fst ds)" and "\<forall>d \<in> set ds. map_of reg (fst d) = None"
  shows "register_all ds reg \<noteq> None"
  using assms
proof (induction ds arbitrary: reg)
  case (Cons d ds)
  have "MustRegister d reg = Some (gm_put (fst d) (snd d) reg)"
    using Cons.prems(1) [of d] Cons.prems(3) by (simp add: MustRegister_def)
  moreover have "register_all ds (gm_put (fst d) (snd d) reg) \<noteq> None"
    using Cons.prems by (intro Cons.IH) (auto simp: image_iff)
  ultimately show ?case by simp
qed simp

lemma register_all_fresh: "register_all ds reg = Some reg' \<Longrightarrow> d \<in> set ds \<Longrightarrow> map_of reg (fst d) = None"
  by (induction ds arbitrary: reg) (auto simp: MustRegister_def split: if_splits option.splits, metis map_of_put option.distinct(1))

lemma register_all_lookup:
  "register_all ds reg = Some reg' \<Longrightarrow>
     map_of reg' k = (case map_of ds k of Some ls \<Rightarrow> Some ls | None \<Rightarrow> map_of reg k)"
proof (induction ds arbitrary: reg)
  case (Cons d ds)
  then obtain r where r: "MustRegister d reg = Some r" "register_all ds r = Some reg'" by (auto split: option.splits)
  then have r': "r = gm_put (fst d) (snd d) reg" by (simp add: MustRegister_def split: if_splits)
  have "map_of ds (fst d) = None"
    using register_all_fresh [OF r(2)] unfolding r' map_of_eq_None_iff by fastforce
  then show ?case using Cons.IH [OF r(2)] r' by (cases d) (auto split: option.split)
qed simp

lemma register_all_append:
  "register_all (as @ bs) q = (case register_all as q of None \<Rightarrow> None | Some q \<Rightarrow> register_all bs q)"
  by (induction as arbitrary: q) (auto split: option.split)

lemma own_registered:
  assumes "run_registry collectors = Some reg" and "v \<in> set telemetry_vectors"
  shows "map_of reg (BuildFQName (ToSnakeCase ControllerName) (ve_Name v)) = Some (ve_labels v)"
proof -
  have mem: "(BuildFQName (ToSnakeCase ControllerName) (ve_Name v), ve_labels v) \<in> set own_descs"
    using assms(2) by (auto simp: own_descs_def)
  obtain r where "register_all own_descs r = Some reg"
    using assms(1) by (auto simp: run_registry_def register_all_append split: option.splits)
  then have "map_of reg k = (case map_of own_descs k of Some ls \<Rightarrow> Some ls | None \<Rightarrow> map_of r k)" for k
    by (rule register_all_lookup)
  with map_of_is_SomeI [OF own_descs_distinct mem] show ?thesis by simp
qed

section \<open>The process as an interleaving\<close>

text \<open>The events before any occurrence of another in a trace.\<close>

definition preceded :: "'e \<Rightarrow> 'e set \<Rightarrow> 'e list \<Rightarrow> bool" where
  "preceded e before tr \<longleftrightarrow> (\<forall>xs ys. tr = xs @ e # ys \<longrightarrow> before \<subseteq> set xs)"

lemma preceded_Nil [simp]: "preceded e before []"
  by (simp add: preceded_def)

lemma preceded_append:
  assumes "preceded e before tr" and "e \<in> set es \<Longrightarrow> before \<subseteq> set tr"
  shows "preceded e before (tr @ es)"
  unfolding preceded_def
proof (intro allI impI)
  fix xs ys
  assume "tr @ es = xs @ e # ys"
  then consider us where "tr = xs @ e # us" | us where "xs = tr @ us" "es = us @ e # ys"
    by (auto simp: append_eq_append_conv2 Cons_eq_append_conv append_eq_Cons_conv)
  then show "before \<subseteq> set xs" using assms by cases (auto simp: preceded_def)
qed

text \<open>The steps the main goroutine has left at most, once it need not wait.\<close>

definition configured_workers :: "main_lib \<Rightarrow> nat" where
  "configured_workers ml = (case main_prelude ml of Inl _ \<Rightarrow> 0 | Inr opt \<Rightarrow> nat (ro_Workers opt))"

fun stage_rank :: "main_lib \<Rightarrow> stage \<Rightarrow> nat" where
  "stage_rank ml (Exited _) = 0"
| "stage_rank ml ShuttingDown = 1"
| "stage_rank ml Serving = 2"
| "stage_rank ml (StartingWorkers n) = 3 + n"
| "stage_rank ml Registering = 4 + configured_workers ml"
| "stage_rank ml Syncing = 5 + configured_workers ml"
| "stage_rank ml Starting = 6 + configured_workers ml"
| "stage_rank ml Booting = 7 + configured_workers ml"

definition up :: "'api process \<Rightarrow> bool" where
  "up p \<longleftrightarrow> (case pr_stage p of Booting \<Rightarrow> False | Starting \<Rightarrow> False | Syncing \<Rightarrow> False | Registering \<Rightarrow> False
     | StartingWorkers _ \<Rightarrow> True | Serving \<Rightarrow> True | ShuttingDown \<Rightarrow> True | Exited _ \<Rightarrow> pr_registry p \<noteq> None)"

text \<open>Where the process stands, and what the trace says about it.\<close>

definition stage_inv :: "main_lib \<Rightarrow> 'api process \<Rightarrow> bool" where
  "stage_inv ml p \<longleftrightarrow>
     (up p \<longleftrightarrow> pr_registry p \<noteq> None)
     \<and> (pr_registry p \<noteq> None \<longrightarrow> run_registry (ml_collectors ml) = pr_registry p)
     \<and> (0 < pr_workers p \<longrightarrow> up p)
     \<and> (up p \<or> pr_stage p = Registering \<longrightarrow> {InformersStarted, CachesSynced} \<subseteq> set (pr_trace p))
     \<and> (pr_stage p = Syncing \<longrightarrow> InformersStarted \<in> set (pr_trace p))
     \<and> preceded WorkerStarted {InformersStarted, CachesSynced} (pr_trace p)
     \<and> preceded ServersListening {InformersStarted, CachesSynced} (pr_trace p)"

text \<open>Before the vectors are made the controller is as \<open>NewController\<close> returned it, and what the
  informers queue is queued all the same.\<close>

definition queued_inv ::
    "main_lib \<Rightarrow> 'api \<Rightarrow> discovery_client \<Rightarrow> 'api api_client \<Rightarrow> key_lib \<Rightarrow> 'm metric_lib_scheme
      \<Rightarrow> 'api process \<Rightarrow> bool" where
  "queued_inv ml api d cl kl lib p \<longleftrightarrow>
     (case pr_controller p of
        None \<Rightarrow> pr_items p = [] \<and> pr_trace p = [] \<and> pr_registry p = None \<and> (exited p \<or> pr_stage p = Booting)
      | Some c \<Rightarrow> pr_stage p \<noteq> Booting \<and> (\<exists>opt. main_prelude ml = Inr opt \<and> pr_options p = Some opt
          \<and> (pr_registry p = None \<longrightarrow> c = newController api d (ro_controller opt))
          \<and> ctl_reachable cl kl lib api d (ro_controller opt)
              (if pr_registry p = None then make_vectors c else c, pr_items p)))"

lemma emit_fields [simp]:
  "pr_stage (emit es p) = pr_stage p" "pr_signals (emit es p) = pr_signals p"
  "pr_options (emit es p) = pr_options p" "pr_registry (emit es p) = pr_registry p"
  "pr_synced (emit es p) = pr_synced p" "pr_workers (emit es p) = pr_workers p" "pr_controller (emit es p) = pr_controller p"
  "pr_items (emit es p) = pr_items p" "pr_trace (emit es p) = pr_trace p @ es"
  by (simp_all add: emit_def)

lemma stage_inv_main: "main_step ml api d p q \<Longrightarrow> stage_inv ml p \<Longrightarrow> stage_inv ml q"
  by (cases rule: main_step_cases, assumption)
    (auto simp: stage_inv_def up_def intro!: preceded_append)

lemma queued_inv_main:
  "main_step ml api d p q \<Longrightarrow> stage_inv ml p \<Longrightarrow> queued_inv ml api d cl kl lib p \<Longrightarrow> queued_inv ml api d cl kl lib q"
  by (cases rule: main_step_cases, assumption)
    (auto simp: queued_inv_def stage_inv_def up_def exited_def ctl_reachable.start running_controller_def [symmetric]
      split: option.splits)

lemma stage_inv_step: "proc_step ml api d cl kl lib p q \<Longrightarrow> stage_inv ml p \<Longrightarrow> stage_inv ml q"
  by (cases rule: proc_step_cases, assumption, erule stage_inv_main)
    (auto simp: stage_inv_def up_def exited_def split: stage.splits)

lemma queued_inv_step:
  assumes "proc_step ml api d cl kl lib p q" and "stage_inv ml p" and "queued_inv ml api d cl kl lib p"
  shows "queued_inv ml api d cl kl lib q"
  using assms(1)
proof (cases rule: proc_step_cases)
  case main
  then show ?thesis by (rule queued_inv_main [OF _ assms(2,3)])
next
  case signal
  with assms(3) show ?thesis by (auto simp: queued_inv_def split: option.splits)
next
  case (receive s)
  with assms(3) show ?thesis by (auto simp: queued_inv_def exited_def split: option.splits)
next
  case caches
  with assms(3) show ?thesis by (auto simp: queued_inv_def split: option.splits)
next
  case (informer e)
  then show ?thesis using assms(3) ctl_reachable.step [OF _ ctl_step.informer]
    by (auto simp: queued_inv_def exited_def split: option.splits)
next
  case (controller c c' items')
  with assms(2,3) show ?thesis using ctl_reachable.step by (fastforce simp: queued_inv_def stage_inv_def exited_def)
qed

lemma proc_reachable_inv:
  "proc_reachable ml api d cl kl lib p \<Longrightarrow> stage_inv ml p \<and> queued_inv ml api d cl kl lib p"
proof (induction rule: proc_reachable.induct)
  case start
  show ?case by (simp add: stage_inv_def queued_inv_def boot_def up_def exited_def)
next
  case (step p q)
  then show ?case by (simp add: stage_inv_step [OF step(2)] queued_inv_step [OF step(2)])
qed

text \<open>What is left of the signal handler and the shutdown.\<close>

definition shutdown_inv :: "'api process \<Rightarrow> bool" where
  "shutdown_inv p \<longleftrightarrow>
     (pr_stage p = ShuttingDown \<longrightarrow> sg_cancelled (pr_signals p))
     \<and> (sg_exited (pr_signals p) \<longrightarrow> pr_stage p = Exited 1)
     \<and> (pr_stage p \<in> {Booting, Starting, Syncing} \<longrightarrow> CachesSynced \<notin> set (pr_trace p))
     \<and> (\<forall>b. SelfShutdown b \<in> set (pr_trace p) \<or> MainShutdown b \<in> set (pr_trace p) \<longrightarrow> b)"

text \<open>What \<open>main\<close> looks at before it makes a controller: whether only the version is asked for, and
  whether the configuration and every client can be built and the broadcaster takes its handler.\<close>

definition only_version :: "main_lib \<Rightarrow> flag_entry list \<Rightarrow> bool" where
  "only_version ml fs \<longleftrightarrow>
     flag_text fs ''version'' = ''true'' \<and> NFlag (ml_flag ml) (ml_given ml) (ml_flags ml) = 1"

definition clients_built :: "main_lib \<Rightarrow> flag_entry list \<Rightarrow> bool" where
  "clients_built ml fs \<longleftrightarrow>
     ml_BuildConfigFromFlags ml (flag_text fs ''master'') (flag_text fs ''kubeconfig'')
     \<and> ml_NewForConfig_kubernetes ml \<and> ml_NewForConfig_clientset ml \<and> ml_NewForConfig_dynamic ml
     \<and> ml_AddEventHandler ml"

definition exit_reason :: "main_lib \<Rightarrow> 'api process \<Rightarrow> nat \<Rightarrow> bool" where
  "exit_reason ml p code \<longleftrightarrow>
     code = 0 \<and> (\<exists>fs. visit_flags (ml_flag ml) (ml_flags ml) = Some fs \<and> only_version ml fs)
     \<or> code = 0 \<and> {SelfShutdown True, MainShutdown True, QueueShutDown} \<subseteq> set (pr_trace p)
         \<and> sg_cancelled (pr_signals p)
     \<or> code = 1 \<and> (\<exists>fs. visit_flags (ml_flag ml) (ml_flags ml) = Some fs
         \<and> \<not> only_version ml fs \<and> \<not> clients_built ml fs)
     \<or> code = 1 \<and> sg_cancelled (pr_signals p) \<and> (sg_exited (pr_signals p) \<or> CachesSynced \<notin> set (pr_trace p))
     \<or> code = 2 \<and> visit_flags (ml_flag ml) (ml_flags ml) = None
     \<or> code = 2 \<and> run_registry (ml_collectors ml) = None"

lemma prelude_quits:
  "main_prelude ml = Inl code \<Longrightarrow> exit_reason ml p code"
  by (auto simp: main_prelude_def exit_reason_def only_version_def clients_built_def copy_registered_def Let_def
      split: option.splits if_splits)

lemma prelude_goes_on:
  "main_prelude ml = Inr opt \<Longrightarrow> \<exists>fs. visit_flags (ml_flag ml) (ml_flags ml) = Some fs
     \<and> \<not> only_version ml fs \<and> clients_built ml fs \<and> opt = copy_registered fs"
  by (auto simp: main_prelude_def only_version_def clients_built_def copy_registered_def Let_def
      split: option.splits if_splits)

definition exit_inv :: "main_lib \<Rightarrow> 'api process \<Rightarrow> bool" where
  "exit_inv ml p \<longleftrightarrow> shutdown_inv p \<and> (\<forall>code. pr_stage p = Exited code \<longrightarrow> exit_reason ml p code)"

lemma exit_inv_main: "main_step ml api d p q \<Longrightarrow> exit_inv ml p \<Longrightarrow> exit_inv ml q"
  by (cases rule: main_step_cases, assumption)
    (simp add: exit_inv_def shutdown_inv_def prelude_quits, auto simp: exit_inv_def shutdown_inv_def exit_reason_def)

lemma receive_cases:
  "receive_signal s = Some s' \<Longrightarrow> sg_cancelled s' \<and> (sg_exited s' \<longleftrightarrow> sg_cancelled s \<or> sg_exited s)"
  by (auto simp: receive_signal_def Let_def split: if_splits)

text \<open>A step of another goroutine: it changes the stage only to exit, and the trace not at all.\<close>

lemma exit_inv_other:
  assumes "exit_inv ml p" and "\<not> exited p" and "pr_trace q = pr_trace p"
    and "sg_cancelled (pr_signals p) \<longrightarrow> sg_cancelled (pr_signals q)"
    and "if sg_exited (pr_signals q) then pr_stage q = Exited 1 \<and> sg_cancelled (pr_signals q)
      else pr_stage q = pr_stage p"
  shows "exit_inv ml q"
proof (cases "sg_exited (pr_signals q)")
  case True
  then show ?thesis using assms by (auto simp: exit_inv_def shutdown_inv_def exit_reason_def)
next
  case False
  moreover have "pr_stage p \<noteq> Exited code" for code using assms(2) by (auto simp: exited_def)
  ultimately show ?thesis using assms by (auto simp: exit_inv_def shutdown_inv_def)
qed

lemma exit_inv_step:
  assumes "proc_step ml api d cl kl lib p q" and "exit_inv ml p"
  shows "exit_inv ml q"
  using assms(1)
proof (cases rule: proc_step_cases)
  case main
  then show ?thesis by (rule exit_inv_main [OF _ assms(2)])
next
  case signal
  have "\<not> sg_exited (pr_signals p)"
    using assms(2) signal by (auto simp: exit_inv_def shutdown_inv_def exited_def)
  with signal show ?thesis by (intro exit_inv_other [OF assms(2)]) (auto simp: notify_def)
next
  case (receive s)
  with receive_cases [of "pr_signals p" s] show ?thesis
    by (intro exit_inv_other [OF assms(2)]) auto
next
  case caches
  then show ?thesis using assms(2)
    by (intro exit_inv_other [OF assms(2)]) (auto simp: exit_inv_def shutdown_inv_def exited_def)
next
  case informer
  then show ?thesis using assms(2)
    by (intro exit_inv_other [OF assms(2)]) (auto simp: exit_inv_def shutdown_inv_def exited_def)
next
  case controller
  then show ?thesis using assms(2)
    by (intro exit_inv_other [OF assms(2)]) (auto simp: exit_inv_def shutdown_inv_def exited_def)
qed

lemma reachable_exit_inv: "proc_reachable ml api d cl kl lib p \<Longrightarrow> exit_inv ml p"
proof (induction rule: proc_reachable.induct)
  case (step p q)
  then show ?case by (simp add: exit_inv_step [OF step(2)])
qed (simp add: exit_inv_def shutdown_inv_def boot_def SetupSignalHandler_def)

lemma main_step_rank:
  assumes "main_step ml api d p q" and "queued_inv ml api d cl kl lib p"
  shows "stage_rank ml (pr_stage q) < stage_rank ml (pr_stage p)"
  using assms(1)
proof (cases rule: main_step_cases)
  case (register opt c reg)
  then have "configured_workers ml = nat (ro_Workers opt)"
    using assms(2) by (auto simp: queued_inv_def configured_workers_def)
  with register show ?thesis by simp
qed simp_all

lemma proc_step_rank:
  assumes "proc_step ml api d cl kl lib p q" and "queued_inv ml api d cl kl lib p"
  shows "stage_rank ml (pr_stage q) \<le> stage_rank ml (pr_stage p)"
  using assms(1)
proof (cases rule: proc_step_cases)
  case main
  from main_step_rank [OF this assms(2)] show ?thesis by simp
qed simp_all

lemma rank_zero: "stage_rank ml (pr_stage p) = 0 \<longleftrightarrow> exited p"
  by (auto simp: exited_def split: stage.splits)

text \<open>A cancelled context stays cancelled.\<close>

lemma cancelled_step: "proc_step ml api d cl kl lib p q \<Longrightarrow> sg_cancelled (pr_signals p) \<Longrightarrow> sg_cancelled (pr_signals q)"
proof (cases rule: proc_step_cases, assumption)
  assume "main_step ml api d p q" and c: "sg_cancelled (pr_signals p)"
  then show "sg_cancelled (pr_signals q)" by (cases rule: main_step_cases) simp_all
qed (auto simp: notify_def dest: receive_cases)

lemma main_enabled:
  assumes "proc_reachable ml api d cl kl lib p" and "sg_cancelled (pr_signals p)" and "\<not> exited p"
  shows "\<exists>q. main_step ml api d p q"
proof (cases "pr_stage p")
  case Booting
  then show ?thesis by (cases "main_prelude ml") (blast intro: main_step.intros)+
next
  case Registering
  then obtain c opt where "pr_controller p = Some c" "pr_options p = Some opt"
    using proc_reachable_inv [OF assms(1)] by (auto simp: queued_inv_def exited_def split: option.splits)
  with Registering show ?thesis by (cases "run_registry (ml_collectors ml)") (blast intro: main_step.intros)+
next
  case (StartingWorkers n)
  then show ?thesis by (cases n) (blast intro: main_step.intros)+
next
  case (Exited code)
  with assms(3) show ?thesis by (simp add: exited_def)
qed (use assms(2) in \<open>blast intro: main_step.intros\<close>)+

lemma reachable_rank:
  "proc_reachable ml api d cl kl lib p \<Longrightarrow> stage_rank ml (pr_stage p) \<le> 7 + configured_workers ml"
proof (induction rule: proc_reachable.induct)
  case (step p q)
  then show ?case using proc_step_rank [OF step(2)] proc_reachable_inv [OF step(1)] by fastforce
qed (simp add: boot_def)

text \<open>A schedule: the number of steps of the main goroutine in it, at least.\<close>

inductive proc_run ::
    "main_lib \<Rightarrow> 'api \<Rightarrow> discovery_client \<Rightarrow> 'api api_client \<Rightarrow> key_lib \<Rightarrow> 'm metric_lib_scheme
      \<Rightarrow> nat \<Rightarrow> 'api process \<Rightarrow> 'api process \<Rightarrow> bool"
  for ml :: main_lib and api :: 'api and d :: discovery_client and cl :: "'api api_client"
    and kl :: key_lib and lib :: "'m metric_lib_scheme" where
  nothing: "proc_run ml api d cl kl lib 0 p p"
| main_goroutine: "proc_run ml api d cl kl lib n p q \<Longrightarrow> main_step ml api d q r
    \<Longrightarrow> proc_run ml api d cl kl lib (Suc n) p r"
| other_goroutine: "proc_run ml api d cl kl lib n p q \<Longrightarrow> proc_step ml api d cl kl lib q r
    \<Longrightarrow> proc_run ml api d cl kl lib n p r"

lemma proc_run_rank:
  assumes "proc_run ml api d cl kl lib n p q" and "proc_reachable ml api d cl kl lib p"
  shows "proc_reachable ml api d cl kl lib q \<and> stage_rank ml (pr_stage q) + n \<le> stage_rank ml (pr_stage p)"
  using assms
proof (induction rule: proc_run.induct)
  case (main_goroutine n p q r)
  then have q: "proc_reachable ml api d cl kl lib q" by blast
  note proc_reachable.step [OF q proc_step.main [OF main_goroutine(2)]]
  moreover have "stage_rank ml (pr_stage r) < stage_rank ml (pr_stage q)"
    using main_step_rank [OF main_goroutine(2)] proc_reachable_inv [OF q] by blast
  ultimately show ?case using main_goroutine by fastforce
next
  case (other_goroutine n p q r)
  then have q: "proc_reachable ml api d cl kl lib q" by blast
  note proc_reachable.step [OF q other_goroutine(2)]
  moreover have "stage_rank ml (pr_stage r) \<le> stage_rank ml (pr_stage q)"
    using proc_step_rank [OF other_goroutine(2)] proc_reachable_inv [OF q] by blast
  ultimately show ?case using other_goroutine by fastforce
qed simp

text \<open>What fits is what the registry has.\<close>

lemma vector_labels:
  "\<exists>v \<in> set telemetry_vectors. ve_Name v = ''resources_monitored_info'' \<and> length (ve_labels v) = 2"
  "\<exists>v \<in> set telemetry_vectors. ve_Name v = ''events_processed_total'' \<and> length (ve_labels v) = 4"
  "\<exists>v \<in> set telemetry_vectors. ve_Name v = ''family_cardinality'' \<and> length (ve_labels v) = 4"
  "\<exists>v \<in> set telemetry_vectors. ve_Name v = ''family_cardinality_limit'' \<and> length (ve_labels v) = 4"
  "\<exists>v \<in> set telemetry_vectors. ve_Name v = ''store_cardinality'' \<and> length (ve_labels v) = 3"
  "\<exists>v \<in> set telemetry_vectors. ve_Name v = ''store_cardinality_limit'' \<and> length (ve_labels v) = 3"
  "\<exists>v \<in> set telemetry_vectors. ve_Name v = ''resource_cardinality'' \<and> length (ve_labels v) = 2"
  "\<exists>v \<in> set telemetry_vectors. ve_Name v = ''resource_cardinality_limit'' \<and> length (ve_labels v) = 2"
  "\<exists>v \<in> set telemetry_vectors. ve_Name v = ''cardinality_exceeded_total'' \<and> length (ve_labels v) = 4"
  "\<exists>v \<in> set telemetry_vectors. ve_Name v = ''duplicate_stores'' \<and> length (ve_labels v) = 3"
  "\<exists>v \<in> set telemetry_vectors. ve_Name v = ''duplicate_families'' \<and> length (ve_labels v) = 3"
  by (simp_all add: telemetry_vectors_def)

lemma arity_recorded:
  assumes "run_registry collectors = Some reg"
    and "\<exists>v \<in> set telemetry_vectors. ve_Name v = name \<and> length (ve_labels v) = n" and "arity n m"
  shows "\<forall>x \<in> set (map (Pair name) (map fst m)). registered_arity reg (fst x) (snd x)"
  using own_registered [OF assms(1)] assms(2,3) by (fastforce simp: registered_arity_def arity_def)

lemma arity_recorded_option:
  assumes "run_registry collectors = Some reg"
    and "\<exists>v \<in> set telemetry_vectors. ve_Name v = name \<and> length (ve_labels v) = n"
    and "\<forall>m. gauge = Some m \<longrightarrow> arity n m"
  shows "\<forall>x \<in> set (map (Pair name) (keys_of gauge)). registered_arity reg (fst x) (snd x)"
proof (cases gauge)
  case (Some m)
  then show ?thesis using arity_recorded [OF assms(1,2), of m] assms(3) by (simp add: keys_of_def)
qed (simp add: keys_of_def)

lemma labels_fit_recorded:
  assumes "run_registry collectors = Some reg" and "labels_fit c"
  shows "\<forall>x \<in> set (recorded c). registered_arity reg (fst x) (snd x)"
proof -
  note plain = arity_recorded [OF assms(1)] and option = arity_recorded_option [OF assms(1)]
  note fit = assms(2) [unfolded labels_fit_def]
  show ?thesis
    unfolding recorded_def set_append ball_Un
    by (intro conjI plain [OF vector_labels(1)] plain [OF vector_labels(2)] plain [OF vector_labels(3)]
        plain [OF vector_labels(4)] plain [OF vector_labels(5)] plain [OF vector_labels(6)]
        plain [OF vector_labels(7)] plain [OF vector_labels(8)] plain [OF vector_labels(9)]
        option [OF vector_labels(10)] option [OF vector_labels(11)]) (use fit in simp_all)
qed

text \<open>A process that gets as far as its first worker.\<close>

lemma boots:
  assumes "main_prelude ml = Inr opt" and "run_registry (ml_collectors ml) = Some reg" and "0 < ro_Workers opt"
  shows "\<exists>p n. proc_reachable ml api d cl kl lib p \<and> pr_stage p = StartingWorkers n \<and> pr_registry p = Some reg
     \<and> pr_workers p = 1 \<and> pr_controller p = Some (running_controller api d (ro_controller opt))
     \<and> pr_items p = [] \<and> pr_signals p = the (SetupSignalHandler False) \<and> InformersStarted \<in> set (pr_trace p)"
proof -
  let ?R = "proc_reachable ml api d cl kl lib"
  note next_main = proc_reachable.step [OF _ proc_step.main]
  obtain p1 where p1: "?R p1" "pr_stage p1 = Starting" "pr_options p1 = Some opt" "pr_workers p1 = 0" "pr_items p1 = []"
      "pr_controller p1 = Some (newController api d (ro_controller opt))" "pr_signals p1 = the (SetupSignalHandler False)"
    using that [OF next_main [OF proc_reachable.start main_step.new [OF _ assms(1)]]] by (simp add: boot_def)
  obtain p2 where p2: "?R p2" "pr_stage p2 = Syncing" "pr_options p2 = Some opt" "pr_workers p2 = 0" "pr_items p2 = []"
      "pr_controller p2 = Some (newController api d (ro_controller opt))" "pr_signals p2 = the (SetupSignalHandler False)"
      "InformersStarted \<in> set (pr_trace p2)"
    using p1 by (intro that [OF next_main [OF p1(1) main_step.informers [OF p1(2)]]]) (simp_all add: running_controller_def)
  define p2' where "p2' = p2\<lparr>pr_synced := True\<rparr>"
  have p2': "?R p2'" "pr_stage p2' = Syncing" "pr_synced p2'"
    using proc_reachable.step [OF p2(1) proc_step.caches [OF _ p2(8)]] p2(2) by (simp_all add: p2'_def exited_def)
  obtain p3 where p3: "?R p3" "pr_stage p3 = Registering" "pr_options p3 = Some opt" "pr_workers p3 = 0" "pr_items p3 = []"
      "pr_controller p3 = Some (newController api d (ro_controller opt))" "pr_signals p3 = the (SetupSignalHandler False)"
      "InformersStarted \<in> set (pr_trace p3)"
    using p2 by (intro that [OF next_main [OF p2'(1) main_step.synced [OF p2'(2,3)]]]) (simp_all add: p2'_def)
  obtain p4 where p4: "?R p4" "pr_stage p4 = StartingWorkers (nat (ro_Workers opt))" "pr_workers p4 = 0" "pr_items p4 = []"
      "pr_registry p4 = Some reg" "pr_controller p4 = Some (running_controller api d (ro_controller opt))"
      "pr_signals p4 = the (SetupSignalHandler False)" "InformersStarted \<in> set (pr_trace p4)"
    using p3 by (intro that [OF next_main [OF p3(1) main_step.register [OF p3(2,3,6) assms(2)]]]) (simp_all add: running_controller_def)
  obtain n where n: "nat (ro_Workers opt) = Suc n" using assms(3) by (metis gr0_implies_Suc zero_less_nat_eq)
  show ?thesis
    by (rule exI, rule exI, rule conjI, rule next_main [OF p4(1) main_step.worker [OF p4(2)[unfolded n]]])
      (use p4 in simp)
qed

section \<open>Properties\<close>

text \<open>C18: the process is a refinement of the controller. A worker runs only when the informers were started,
  their caches synced and every vector of the telemetry registered; from then on the controller
  and its queue are in a state the controller's own machine reaches with the options of the
  command line, whatever was queued before, so that all that holds in those states holds in the
  process.\<close>

theorem process_refines_controller:
  assumes "proc_reachable ml api d cl kl lib p" and "0 < pr_workers p"
  shows "\<exists>opt reg c. main_prelude ml = Inr opt \<and> pr_registry p = Some reg
     \<and> run_registry (ml_collectors ml) = Some reg
     \<and> pr_controller p = Some c \<and> ctl_reachable cl kl lib api d (ro_controller opt) (c, pr_items p)
     \<and> preceded WorkerStarted {InformersStarted, CachesSynced} (pr_trace p)"
proof -
  have st: "stage_inv ml p" and q: "queued_inv ml api d cl kl lib p" using proc_reachable_inv [OF assms(1)] by blast+
  obtain reg where reg: "pr_registry p = Some reg" "run_registry (ml_collectors ml) = Some reg"
    using st assms(2) by (auto simp: stage_inv_def)
  with q obtain c opt where "pr_controller p = Some c" "main_prelude ml = Inr opt"
      "ctl_reachable cl kl lib api d (ro_controller opt) (c, pr_items p)"
    by (auto simp: queued_inv_def split: option.splits)
  with reg st show ?thesis by (auto simp: stage_inv_def)
qed

text \<open>The defaults, without an environment.\<close>

definition demo_main :: main_lib where
  "demo_main = \<lparr>ml_flag = \<lparr>flag_Set = (\<lambda>_ v. Some v), LookupEnv = (\<lambda>_. None)\<rparr>, ml_given = [],
     ml_flags = registered_flags [] [], ml_BuildConfigFromFlags = (\<lambda>_ _. True),
     ml_NewForConfig_kubernetes = True, ml_NewForConfig_clientset = True, ml_NewForConfig_dynamic = True,
     ml_AddEventHandler = True, ml_collectors = (\<lambda>_. [(''go_info'', [''version''])])\<rparr>"

lemma demo_prelude:
  "\<exists>opt. main_prelude demo_main = Inr opt \<and> ro_Workers opt = 2"
proof -
  have "flag_text (registered_flags [] []) ''workers'' = ''2''" "flag_text (registered_flags [] []) ''version'' = ''false''"
    by (simp_all add: flag_text_def registered_flags_def registered_def flag_names)
  moreover have "Atoi ''2'' = Some 2" by (simp add: Atoi_def Let_def digits_val_def digit_val_def is_digit_def)
  ultimately show ?thesis
    by (simp add: main_prelude_def demo_main_def defaults_kept copy_registered_def flag_int_def Let_def)
qed

lemma demo_registry: "\<exists>reg. run_registry (ml_collectors demo_main) = Some reg"
proof -
  have "register_all ((''go_info'', [''version'']) # own_descs) [] \<noteq> None"
  proof (rule register_all_Some)
    show "distinct (map fst ((''go_info'', [''version'']) # own_descs))"
      using own_descs_distinct by (auto simp: own_descs_eval)
  next
    fix d :: "string \<times> string list"
    assume "d \<in> set ((''go_info'', [''version'']) # own_descs)"
    moreover have "desc_valid (''go_info'', [''version''])"
      by (simp add: desc_valid_def valid_label_name_def word_char_def is_letter_def byte_in_def is_digit_def HasPrefix_def)
    ultimately show "desc_valid d" using own_descs_valid [of d] by auto
  qed simp
  then show ?thesis by (auto simp: run_registry_def demo_main_def)
qed

text \<open>The process once its first worker has handled the creation of a monitor.\<close>

lemma demo_process:
  "\<exists>p reg opt. proc_reachable demo_main (demo_monitor []) demo_cluster echo_client demo_keys (demo_lib GNil) p
     \<and> pr_registry p = Some reg \<and> 0 < pr_workers p \<and> \<not> exited p \<and> sg_buffered (pr_signals p) = 0
     \<and> pr_controller p = Some (handleEvent echo_client demo_event_env ''addEvent'' (demo_monitor []) (demo_controller_with opt))"
proof -
  let ?R = "proc_reachable demo_main (demo_monitor []) demo_cluster echo_client demo_keys (demo_lib GNil)"
  obtain opt reg where opt: "main_prelude demo_main = Inr opt" "ro_Workers opt = 2"
    and reg: "run_registry (ml_collectors demo_main) = Some reg"
    using demo_prelude demo_registry by blast
  obtain p n where p: "?R p" "pr_stage p = StartingWorkers n" "pr_registry p = Some reg" "pr_workers p = 1"
      "pr_controller p = Some (demo_controller_with (ro_controller opt))" "pr_items p = []"
      "pr_signals p = the (SetupSignalHandler False)" "InformersStarted \<in> set (pr_trace p)"
    using boots [OF opt(1) reg, of "demo_monitor []" demo_cluster echo_client demo_keys "demo_lib GNil"] opt(2) by auto
  have live: "\<not> exited p" using p(2) by (simp add: exited_def)
  define p' where "p' = p\<lparr>pr_items := pr_items p @ registerEventHandlers demo_keys (InfAdd (HMonitor (demo_monitor [])))\<rparr>"
  have p': "?R p'" unfolding p'_def by (rule proc_reachable.step [OF p(1) proc_step.informer [OF live p(8)]])
  have items: "pr_items p' = [(''ns/n'', ''addEvent'')]" by (simp add: p'_def p(6) enqueue_def demo_keys_def)
  let ?c = "handleEvent echo_client demo_event_env ''addEvent'' (demo_monitor []) (demo_controller_with (ro_controller opt))"
  have "processNextWorkItem echo_client demo_event_env demo_keys (\<lambda>_ _. LFound (demo_monitor [])) (Some (''ns/n'', ''addEvent''))
      (demo_controller_with (ro_controller opt)) = (?c, [QForget (''ns/n'', ''addEvent''), QDone (''ns/n'', ''addEvent'')], True)"
    by (simp add: processNextWorkItem_def syncHandler_def demo_keys_def handle_monitor_def)
  then have "ctl_step echo_client demo_keys (demo_lib GNil) (demo_controller_with (ro_controller opt), pr_items p') (?c, pr_items p')"
    by (intro ctl_step.work) (simp_all add: items)
  from proc_reachable.step [OF p' proc_step.controller [OF _ _ _ this]] live p
  have r: "?R (p'\<lparr>pr_controller := Some ?c, pr_items := pr_items p'\<rparr>)" by (simp add: p'_def exited_def)
  show ?thesis
    by (rule exI, rule exI, rule exI, rule conjI, rule r)
      (use live p in \<open>simp add: p'_def exited_def SetupSignalHandler_def\<close>)
qed

theorem process_refines_controller_witness:
  "\<exists>p opt c. proc_reachable demo_main (demo_monitor []) demo_cluster echo_client demo_keys (demo_lib GNil) p
     \<and> pr_controller p = Some c \<and> map_of (cn_stores c) ''u'' \<noteq> None
     \<and> ctl_reachable echo_client demo_keys (demo_lib GNil) (demo_monitor []) demo_cluster opt (c, pr_items p)"
proof -
  obtain p reg opt where p: "proc_reachable demo_main (demo_monitor []) demo_cluster echo_client demo_keys (demo_lib GNil) p"
      "0 < pr_workers p"
      "pr_controller p = Some (handleEvent echo_client demo_event_env ''addEvent'' (demo_monitor []) (demo_controller_with opt))"
    using demo_process by blast
  from process_refines_controller [OF p(1,2)] p(1,3) demo_handles [of opt] show ?thesis by auto
qed

text \<open>C27: no series is written with the wrong number of labels. In the process, every tuple of label values
  recorded in any vector by any handler, status or duplicate check has as many values as the
  vector was registered with, so that \<open>WithLabelValues\<close> does not panic on the count.\<close>

theorem recorded_labels_fit:
  assumes "proc_reachable ml api d cl kl lib p" and "index_sorter (SortIndices lib)"
    and "0 < pr_workers p" and "pr_controller p = Some c" and "(name, labels) \<in> set (recorded c)"
  shows "\<exists>reg. pr_registry p = Some reg \<and> registered_arity reg name labels"
proof -
  have st: "stage_inv ml p" and q: "queued_inv ml api d cl kl lib p" using proc_reachable_inv [OF assms(1)] by blast+
  obtain reg where reg: "pr_registry p = Some reg" "run_registry (ml_collectors ml) = Some reg"
    using st assms(3) by (auto simp: stage_inv_def)
  with q assms(4) obtain opt :: run_options where "ctl_reachable cl kl lib api d (ro_controller opt) (c, pr_items p)"
    by (auto simp: queued_inv_def)
  from label_tuples.keeps_reachable [OF this assms(2) labels_fit_running] have "labels_fit c" by simp
  from labels_fit_recorded [OF reg(2) this] assms(5) reg(1) show ?thesis by fastforce
qed

theorem recorded_labels_fit_witness:
  "\<exists>p reg. proc_reachable demo_main (demo_monitor []) demo_cluster echo_client demo_keys (demo_lib GNil) p
     \<and> pr_registry p = Some reg
     \<and> registered_arity reg ''events_processed_total'' [''ns'', ''n'', ''addEvent'', ''success'']"
proof -
  obtain p opt where p: "proc_reachable demo_main (demo_monitor []) demo_cluster echo_client demo_keys (demo_lib GNil) p"
      "0 < pr_workers p"
      "pr_controller p = Some (handleEvent echo_client demo_event_env ''addEvent'' (demo_monitor []) (demo_controller_with opt))"
    using demo_process by blast
  let ?c = "handleEvent echo_client demo_event_env ''addEvent'' (demo_monitor []) (demo_controller_with opt)"
  obtain c where "?c = count_event ''ns'' ''n'' ''addEvent'' ''success'' c" using demo_handles [of opt] by blast
  then have "[''ns'', ''n'', ''addEvent'', ''success''] \<in> fst ` set (cn_eventsProcessed ?c)"
    by (simp add: count_event_def inc_def)
  then have "(''events_processed_total'', [''ns'', ''n'', ''addEvent'', ''success'']) \<in> set (recorded ?c)"
    by (auto simp: recorded_def)
  from recorded_labels_fit [OF p(1) demo_sorter p(2,3) this] p(1) show ?thesis by blast
qed

text \<open>C28: a signal ends the process. Once the context is cancelled the main goroutine always has a step to
  take, whatever stage it is in, and no schedule of the other goroutines can take it more steps
  than the rank of its stage, the number of workers and seven: in any schedule with that many
  steps of the main goroutine the process has exited.\<close>

theorem shutdown_terminates:
  assumes "proc_reachable ml api d cl kl lib p" and "sg_cancelled (pr_signals p)"
  shows "(\<not> exited p \<longrightarrow> (\<exists>q. main_step ml api d p q))
     \<and> stage_rank ml (pr_stage p) \<le> 7 + configured_workers ml
     \<and> (proc_run ml api d cl kl lib n p q \<longrightarrow>
          n \<le> stage_rank ml (pr_stage p) \<and> (n = stage_rank ml (pr_stage p) \<longrightarrow> exited q))"
proof -
  have inv: "stage_inv ml p" "queued_inv ml api d cl kl lib p" using proc_reachable_inv [OF assms(1)] by blast+
  have "exited q" if "proc_run ml api d cl kl lib n p q" "n = stage_rank ml (pr_stage p)"
    using proc_run_rank [OF that(1) assms(1)] that(2) by (simp add: rank_zero [symmetric, of q ml])
  moreover have "n \<le> stage_rank ml (pr_stage p)" if "proc_run ml api d cl kl lib n p q"
    using proc_run_rank [OF that assms(1)] by simp
  ultimately show ?thesis using main_enabled [OF assms] reachable_rank [OF assms(1)] by (intro conjI impI)
qed

text \<open>A process that has been sent a signal while its first worker was busy.\<close>

theorem shutdown_terminates_witness:
  "\<exists>p q. proc_reachable demo_main (demo_monitor []) demo_cluster echo_client demo_keys (demo_lib GNil) p
     \<and> \<not> exited p \<and> 0 < pr_workers p \<and> main_step demo_main (demo_monitor []) demo_cluster p q
     \<and> stage_rank demo_main (pr_stage p) \<le> 9"
proof -
  let ?R = "proc_reachable demo_main (demo_monitor []) demo_cluster echo_client demo_keys (demo_lib GNil)"
  obtain p where p: "?R p" "0 < pr_workers p" "\<not> exited p" "sg_buffered (pr_signals p) = 0"
    using demo_process by blast
  define p1 where "p1 = p\<lparr>pr_signals := notify (pr_signals p)\<rparr>"
  have p1: "?R p1" unfolding p1_def by (rule proc_reachable.step [OF p(1) proc_step.signal [OF p(3)]])
  obtain s where s: "receive_signal (pr_signals p1) = Some s"
    by (simp add: p1_def notify_def receive_signal_def p(4))
  have live: "\<not> exited p1" using p(3) by (simp add: p1_def exited_def)
  show ?thesis
  proof (cases "sg_cancelled (pr_signals p)")
    case True
    from shutdown_terminates [OF p(1) True] p demo_prelude show ?thesis
      by (auto simp: configured_workers_def)
  next
    case False
    have quiet: "\<not> sg_exited (pr_signals p1)"
      using reachable_exit_inv [OF p1] live by (auto simp: exit_inv_def shutdown_inv_def exited_def)
    have s': "sg_cancelled s" "\<not> sg_exited s"
      using receive_cases [OF s] False quiet by (auto simp: p1_def notify_def)
    define p2 where "p2 = p1\<lparr>pr_signals := s, pr_stage := (if sg_exited s then Exited 1 else pr_stage p1)\<rparr>"
    have p2: "?R p2" unfolding p2_def by (rule proc_reachable.step [OF p1 proc_step.receive [OF live s]])
    moreover have "sg_cancelled (pr_signals p2)" "\<not> exited p2" "pr_workers p2 = pr_workers p"
      using s' live by (simp_all add: p2_def p1_def exited_def)
    ultimately show ?thesis using shutdown_terminates [OF p2] p(2) demo_prelude
      by (auto simp: configured_workers_def)
  qed
qed

text \<open>C40: how the process ends. Its exit code is 0 after one signal, when both servers and the queue have
  been shut down, or when the version flag is the only one that is set; 1 when it is not and the
  configuration or one of the clients cannot be built or the broadcaster refuses its handler, when
  a signal comes before the caches are synced, and at the second signal; 2 for a panic, of an
  invalid flag or of the registry. A controller is only made when everything before it worked.
  Every shutdown of a server is called with a context that is already done, so that requests still
  being answered are not waited for.\<close>

theorem exit_codes:
  assumes "proc_reachable ml api d cl kl lib p"
  shows "(\<forall>code. pr_stage p = Exited code \<longrightarrow> exit_reason ml p code)
     \<and> (pr_controller p \<noteq> None \<longrightarrow> (\<exists>fs. visit_flags (ml_flag ml) (ml_flags ml) = Some fs
          \<and> \<not> only_version ml fs \<and> clients_built ml fs))
     \<and> SelfShutdown False \<notin> set (pr_trace p) \<and> MainShutdown False \<notin> set (pr_trace p)"
proof -
  have "\<exists>opt. main_prelude ml = Inr opt" if "pr_controller p \<noteq> None"
    using that proc_reachable_inv [OF assms] by (auto simp: queued_inv_def split: option.splits)
  then show ?thesis
    using reachable_exit_inv [OF assms] prelude_goes_on by (fastforce simp: exit_inv_def shutdown_inv_def)
qed

text \<open>A client that cannot be built.\<close>

theorem exit_codes_witness:
  "\<exists>p fs. proc_reachable (demo_main\<lparr>ml_NewForConfig_dynamic := False\<rparr>) (demo_monitor []) demo_cluster echo_client
       demo_keys (demo_lib GNil) p
     \<and> pr_stage p = Exited 1 \<and> \<not> sg_cancelled (pr_signals p)
     \<and> visit_flags (ml_flag demo_main) (ml_flags demo_main) = Some fs \<and> \<not> only_version demo_main fs
     \<and> \<not> clients_built (demo_main\<lparr>ml_NewForConfig_dynamic := False\<rparr>) fs"
proof -
  let ?ml = "demo_main\<lparr>ml_NewForConfig_dynamic := False\<rparr>" and ?p = "boot\<lparr>pr_stage := Exited 1\<rparr> :: monitor process"
  have "flag_text (registered_flags [] []) ''version'' = ''false''"
    by (simp add: flag_text_def registered_flags_def registered_def flag_names)
  then have "main_prelude ?ml = Inl 1"
    by (simp add: main_prelude_def demo_main_def defaults_kept copy_registered_def Let_def)
  from proc_reachable.step [OF proc_reachable.start proc_step.main [OF main_step.quit [OF _ this]]]
  have p: "proc_reachable ?ml (demo_monitor []) demo_cluster echo_client demo_keys (demo_lib GNil) ?p"
    by (simp add: boot_def)
  have calm: "\<not> sg_cancelled (pr_signals ?p)" by (simp add: boot_def SetupSignalHandler_def)
  have "exit_reason ?ml ?p 1" using exit_codes [OF p] by simp
  then obtain fs where "visit_flags (ml_flag ?ml) (ml_flags ?ml) = Some fs" "\<not> only_version ?ml fs" "\<not> clients_built ?ml fs"
    using calm unfolding exit_reason_def by auto
  with p calm show ?thesis
    by (intro exI [of _ ?p] exI [of _ fs]) (simp add: only_version_def)
qed

text \<open>The version flag only quits when it is the one flag that is set, and a flag set from the
  environment counts: with any override the process goes on as if it were not given.\<close>

lemma version_needs_single_flag:
  "main_prelude ml = Inl 0 \<longleftrightarrow> (\<exists>fs. visit_flags (ml_flag ml) (ml_flags ml) = Some fs
     \<and> flag_text fs ''version'' = ''true'' \<and> NFlag (ml_flag ml) (ml_given ml) (ml_flags ml) = 1)"
  by (auto simp: main_prelude_def copy_registered_def Let_def split: option.splits)

lemma override_counts:
  assumes "f \<in> set fs" "f' \<in> set fs" "fl_Name f \<noteq> fl_Name f'" "fl_Name f \<in> set given" "overridden lib f'"
  shows "1 < NFlag lib given fs"
proof -
  have "{f, f'} \<subseteq> set (filter (\<lambda>f. fl_Name f \<in> set given \<or> overridden lib f) fs)" using assms by simp
  moreover have "card {f, f'} = 2" using assms(3) by (metis card_2_iff)
  ultimately have "2 \<le> card (set (filter (\<lambda>f. fl_Name f \<in> set given \<or> overridden lib f) fs))"
    by (metis List.finite_set card_mono)
  also have "\<dots> \<le> NFlag lib given fs" unfolding NFlag_def by (rule card_length)
  finally show ?thesis by simp
qed

end
