(* ===== verification/Own_Writes.thy ===== *)
theory Own_Writes
  imports Controller
begin

text \<open>
  What the controller writes to the API server, and what comes back to it. The contract of the
  client is the one of the API: a read returns the object with the name asked for, and a write
  leaves every specification as it was, except that it may store the one it was given under the
  name it was given.
\<close>

section \<open>Which updates are queued\<close>

fun_cases updateHandlerE: "updateHandler kl old new = item # items"

lemma updateHandler_queues:
  "updateHandler kl old new = item # items
     \<Longrightarrow> \<exists>r r'. old = HMonitor r \<and> new = HMonitor r' \<and> rmm_Spec r \<noteq> rmm_Spec r'
          \<and> rmm_ResourceVersion r \<noteq> rmm_ResourceVersion r' \<and> enqueue kl new UpdateEvent = item # items"
  by (erule updateHandlerE) (auto split: if_splits)

section \<open>Specifications are only read\<close>

definition spec_at :: "'api api_client \<Rightarrow> 'api \<Rightarrow> string \<Rightarrow> string \<Rightarrow> configuration option" where
  "spec_at cl api ns n = map_option rmm_Spec (api_Get cl api ns n)"

definition api_contract :: "'api api_client \<Rightarrow> bool" where
  "api_contract cl \<longleftrightarrow>
     (\<forall>api ns n r. api_Get cl api ns n = Some r \<longrightarrow> rmm_Namespace r = ns \<and> rmm_Name r = n)
     \<and> (\<forall>write \<in> {api_Update cl, api_UpdateStatus cl}. \<forall>api r ns n.
          spec_at cl (fst (write api r)) ns n = spec_at cl api ns n
          \<or> ns = rmm_Namespace r \<and> n = rmm_Name r \<and> spec_at cl (fst (write api r)) ns n = Some (rmm_Spec r))"

definition keeps_specs :: "'api api_client \<Rightarrow> 'api controller \<Rightarrow> 'api controller \<Rightarrow> bool" where
  "keeps_specs cl c c' \<longleftrightarrow> spec_at cl (cn_api c') = spec_at cl (cn_api c)"

lemma keeps_specs_same: "cn_api c' = cn_api c \<Longrightarrow> keeps_specs cl c c'"
  by (simp add: keeps_specs_def)

lemma keeps_specs_trans: "keeps_specs cl a b \<Longrightarrow> keeps_specs cl b c \<Longrightarrow> keeps_specs cl a c"
  by (simp add: keeps_specs_def)

text \<open>Writing back an object that was read, with its specification untouched.\<close>

lemma write_back:
  assumes "api_contract cl" and "write \<in> {api_Update cl, api_UpdateStatus cl}"
    and "api_Get cl api ns n = Some g"
    and "rmm_Spec r = rmm_Spec g" "rmm_Namespace r = rmm_Namespace g" "rmm_Name r = rmm_Name g"
  shows "spec_at cl (fst (write api r)) = spec_at cl api"
proof (intro ext)
  fix ns' n'
  have key: "rmm_Namespace r = ns" "rmm_Name r = n" using assms(1,3,5,6) by (auto simp: api_contract_def)
  have "spec_at cl (fst (write api r)) ns' n' = spec_at cl api ns' n'
      \<or> ns' = rmm_Namespace r \<and> n' = rmm_Name r \<and> spec_at cl (fst (write api r)) ns' n' = Some (rmm_Spec r)"
    using assms(1,2) unfolding api_contract_def by blast
  with key assms(3,4) show "spec_at cl (fst (write api r)) ns' n' = spec_at cl api ns' n'"
    by (auto simp: spec_at_def)
qed

lemmas update_back = write_back [of _ "api_Update _", OF _ insertI1]
lemmas update_status_back = write_back [of _ "api_UpdateStatus _", OF _ insertI2 [OF singletonI]]

named_theorems specs_kept \<open>handlers that keep every specification\<close>

lemma emitSuccess_specs [specs_kept]:
  "api_contract cl \<Longrightarrow> emitSuccess cl env r b m c = (c', res) \<Longrightarrow> keeps_specs cl c c'"
  by (auto simp: emitSuccess_def keeps_specs_def Let_def split_def
      intro!: update_status_back split: option.splits)

lemma emitFailure_specs [specs_kept]:
  "api_contract cl \<Longrightarrow> keeps_specs cl c (emitFailure cl env r m c)"
  by (auto simp: emitFailure_def keeps_specs_def Let_def split_def
      intro!: update_status_back split: option.splits)

lemma updateMetadata_specs [specs_kept]:
  "api_contract cl \<Longrightarrow> updateMetadata cl env r c = (c', e) \<Longrightarrow> keeps_specs cl c c'"
  by (auto simp: updateMetadata_def keeps_specs_def Let_def split_def intro!: update_back split: option.splits)

lemma setCardinalityConditions_keeps:
  "rmm_Spec (setCardinalityConditions now vs r) = rmm_Spec r"
  "rmm_Namespace (setCardinalityConditions now vs r) = rmm_Namespace r"
  "rmm_Name (setCardinalityConditions now vs r) = rmm_Name r"
  by (simp_all add: setCardinalityConditions_def Let_def split_def)

lemma persist_specs [specs_kept]:
  "api_contract cl \<Longrightarrow> persistCardinalityStatus cl env r agg c = (c', e) \<Longrightarrow> keeps_specs cl c c'"
  by (auto simp: persistCardinalityStatus_def keeps_specs_def cardinality_patch_def setCardinalityConditions_keeps
      Let_def split_def intro!: update_status_back split: option.splits)

lemma validateAndPrepare_specs [specs_kept]:
  assumes "api_contract cl" and "validateAndPrepareResource cl env obj ev c = (c', res)"
  shows "keeps_specs cl c c'"
proof (cases obj)
  case None
  with assms(2) show ?thesis by (simp add: validateAndPrepareResource_def keeps_specs_def)
next
  case (Some r)
  obtain c1 e where u: "updateMetadata cl env r c = (c1, e)" by (cases "updateMetadata cl env r c")
  note k = updateMetadata_specs [OF assms(1) u]
  show ?thesis
  proof (cases e)
    case True
    with Some u k assms(2) show ?thesis by (simp add: validateAndPrepareResource_def)
  next
    case False
    with Some u assms have "emitSuccess cl env r ConditionFalse (''Event handler received event: '' @ ev) c1 = (c', res)"
      by (simp add: validateAndPrepareResource_def)
    from keeps_specs_trans [OF k emitSuccess_specs [OF assms(1) this]] show ?thesis .
  qed
qed

lemma processEvent_specs [specs_kept]:
  assumes "api_contract cl" and "processEvent cl env ev r c = (c', err)"
  shows "keeps_specs cl c c'"
proof -
  have "keeps_specs cl c (processAddOrUpdate env r c)" "keeps_specs cl c (processDelete r c)"
    by (simp_all add: keeps_specs_def processAddOrUpdate_def processDelete_def Let_def split_def)
  with assms(2) emitFailure_specs [OF assms(1)] show ?thesis
    by (auto simp: processEvent_def Let_def keeps_specs_def split: if_splits)
qed

lemma keeps_specs_count [simp]: "keeps_specs cl c (count_event ns n e st c') = keeps_specs cl c c'"
  by (simp add: keeps_specs_def)

lemma handleEvent_specs [specs_kept]:
  assumes "api_contract cl"
  shows "keeps_specs cl c (handleEvent cl env ev obj c)"
proof -
  obtain c1 res where v: "validateAndPrepareResource cl env (Some obj) ev c = (c1, res)"
    by (cases "validateAndPrepareResource cl env (Some obj) ev c")
  note k1 = validateAndPrepare_specs [OF assms v]
  show ?thesis
  proof (cases res)
    case None
    with v k1 show ?thesis by (simp add: handleEvent_def)
  next
    case (Some r)
    obtain c2 err where p: "processEvent cl env ev r c1 = (c2, err)" by (cases "processEvent cl env ev r c1")
    note k2 = keeps_specs_trans [OF k1 processEvent_specs [OF assms p]]
    obtain c3 res' where e: "emitSuccess cl env r ConditionTrue (''Event handler successfully processed event: '' @ ev) c2 = (c3, res')"
      by (cases "emitSuccess cl env r ConditionTrue (''Event handler successfully processed event: '' @ ev) c2")
    note k3 = keeps_specs_trans [OF k2 emitSuccess_specs [OF assms e]]
    from v Some p e k2 k3 show ?thesis by (cases err; cases res') (simp_all add: handleEvent_def)
  qed
qed

lemma work_specs [specs_kept]:
  assumes "api_contract cl" and "processNextWorkItem cl env kl lister item c = (c', calls, cont)"
  shows "keeps_specs cl c c'"
proof -
  have "keeps_specs cl c (fst (syncHandler cl env kl lister key ev c))" for key ev
    using handleEvent_specs [OF assms(1)]
    by (simp add: syncHandler_def handle_monitor_def keeps_specs_same split: option.split prod.split lister_result.split)
  with assms(2) show ?thesis
    by (auto simp: processNextWorkItem_def keeps_specs_same split: option.splits prod.splits bool.splits) (metis fst_conv)+
qed

lemma status_specs [specs_kept]:
  assumes "api_contract cl" and "updateCardinalityStatus cl env r c = (c', err)"
  shows "keeps_specs cl c c'"
proof (cases "map_of (cn_stores c) (rmm_UID r)")
  case None
  with assms(2) show ?thesis by (simp add: updateCardinalityStatus_def keeps_specs_same)
next
  case (Some ss)
  obtain c1 where "updateCardinalityStatus cl env r c = persistCardinalityStatus cl env r (status_aggregation r ss c) c1"
      "cn_api c1 = cn_api c"
    using updateCardinalityStatus_eq [OF Some, of cl env] by blast
  with persist_specs [OF assms(1)] assms(2) show ?thesis by (metis keeps_specs_def)
qed

lemma step_specs:
  assumes "ctl_step cl kl lib (c, items) (c', items')" and "api_contract cl"
  shows "keeps_specs cl c c'"
  using assms(1)
proof (cases rule: ctl_step_cases)
  case (work item env lister calls continue)
  then show ?thesis using work_specs [OF assms(2)] by blast
next
  case (status r env err)
  then have u: "updateCardinalityStatus cl env r (c\<lparr>cn_pending := remove1 r (cn_pending c)\<rparr>) = (c', err)" by blast
  show ?thesis
    by (rule keeps_specs_trans [OF _ status_specs [OF assms(2) u]]) (simp add: keeps_specs_same)
qed (auto simp: keeps_specs_same)

section \<open>Properties\<close>

text \<open>C14: the controller never wakes itself. Whatever a step does, on an API server that keeps its
  contract no specification changes; so when the informer reports the controller's own writes
  of labels and status as updates of a monitor, the update callback queues nothing for them,
  and an event is not answered by another one without end.\<close>

theorem controller_never_wakes_itself:
  assumes "api_contract cl" and "ctl_step cl kl lib (c, items) (c', items')"
    and "api_Get cl (cn_api c) ns n = Some old" and "api_Get cl (cn_api c') ns n = Some new"
  shows "rmm_Spec new = rmm_Spec old \<and> updateHandler kl (HMonitor old) (HMonitor new) = []"
proof -
  have "spec_at cl (cn_api c') ns n = spec_at cl (cn_api c) ns n"
    using step_specs [OF assms(2,1)] by (simp add: keeps_specs_def)
  with assms(3,4) show ?thesis by (simp add: spec_at_def)
qed

text \<open>An API server that holds a table of monitors.\<close>

definition table_write :: "(string \<times> string, monitor) gomap \<Rightarrow> monitor
    \<Rightarrow> (string \<times> string, monitor) gomap \<times> monitor option" where
  "table_write t r = (if map_of t (rmm_Namespace r, rmm_Name r) = None then (t, None)
     else (gm_put (rmm_Namespace r, rmm_Name r) r t, Some r))"

definition table_client :: "(string \<times> string, monitor) gomap api_client" where
  "table_client = \<lparr>api_Get = (\<lambda>t ns n. case map_of t (ns, n) of
         Some r \<Rightarrow> if rmm_Namespace r = ns \<and> rmm_Name r = n then Some r else None | None \<Rightarrow> None),
     api_Update = table_write, api_UpdateStatus = table_write\<rparr>"

lemma table_client_contract: "api_contract table_client"
  by (auto simp: api_contract_def table_client_def table_write_def spec_at_def update_conv split: option.splits if_splits)

definition table_controller :: "(string \<times> string, monitor) gomap controller" where
  "table_controller = running_controller [((''ns'', ''n''), demo_monitor [])] demo_cluster demo_options"

theorem controller_never_wakes_itself_witness:
  "\<exists>c' items' new. ctl_step table_client demo_keys (demo_lib GNil) (table_controller, [(''ns/n'', ''addEvent'')]) (c', items')
     \<and> api_Get table_client (cn_api c') ''ns'' ''n'' = Some new \<and> cn_pending c' \<noteq> []
     \<and> updateHandler demo_keys (HMonitor (demo_monitor [])) (HMonitor new) = []"
proof -
  let ?lister = "\<lambda>_ _. LFound (demo_monitor [])"
  let ?c = "handleEvent table_client demo_event_env ''addEvent'' (demo_monitor []) table_controller"
  have w: "processNextWorkItem table_client demo_event_env demo_keys ?lister (Some (''ns/n'', ''addEvent'')) table_controller
      = (?c, [QForget (''ns/n'', ''addEvent''), QDone (''ns/n'', ''addEvent'')], True)"
    by (simp add: processNextWorkItem_def syncHandler_def demo_keys_def handle_monitor_def)
  have st: "ctl_step table_client demo_keys (demo_lib GNil) (table_controller, [(''ns/n'', ''addEvent'')]) (?c, [(''ns/n'', ''addEvent'')])"
    by (rule ctl_step.work [OF _ w]) simp
  have old: "api_Get table_client (cn_api table_controller) ''ns'' ''n'' = Some (demo_monitor [])"
    by (simp add: table_client_def table_controller_def running_controller_defs demo_monitor_def)
  obtain new where new: "api_Get table_client (cn_api ?c) ''ns'' ''n'' = Some new"
  proof -
    have "spec_at table_client (cn_api ?c) ''ns'' ''n'' = spec_at table_client (cn_api table_controller) ''ns'' ''n''"
      using step_specs [OF st table_client_contract] by (simp only: keeps_specs_def)
    with old that show ?thesis by (auto simp: spec_at_def)
  qed
  obtain c1 r where v: "validateAndPrepareResource table_client demo_event_env (Some (demo_monitor [])) ''addEvent'' table_controller = (c1, Some r)"
    by (simp add: validateAndPrepareResource_def updateMetadata_def emitSuccess_def table_client_def table_write_def
        demo_event_env_def table_controller_def running_controller_defs demo_monitor_def Let_def)
  obtain c2 where p: "processEvent table_client demo_event_env ''addEvent'' r c1 = (c2, False)" "cn_pending c2 \<noteq> []"
    using processAddOrUpdate_eq [of demo_event_env r c1] by (fastforce simp: processEvent_def)
  have "cn_pending ?c \<noteq> []" using handleEvent_state(3) [OF v p(1)] p(2) by simp
  with controller_never_wakes_itself [OF table_client_contract st old new] st new show ?thesis by blast
qed

end
