(* ===== verification/Concurrent.thy ===== *)
theory Concurrent
  imports Own_Writes Interleaving
begin

text \<open>
  The handlers and the status goroutine of \<open>internal/events.go\<close> as the sequences of atomic actions
  they are, on a state with an explicit heap. A monitor's stores are a list that is allocated when
  they are built; the \<open>sync.Map\<close> holds its address, a status goroutine keeps the address it loaded,
  and the reflectors of a list go on when the map has forgotten it. An action is one call of the
  API server, one operation of the \<open>sync.Map\<close>, one method of the manager or of a tracker, each
  under its own mutex, or one access to a telemetry vector; a loop over telemetry is one action.
  The methods of a store hold its mutex, and are one action here; the check of the thresholds in
  the status goroutine does not, and is several.
\<close>

section \<open>The shared state\<close>

text \<open>The controller without its map of stores.\<close>

record 'api shared =
  sh_ctl :: "'api controller"
  sh_heap :: "store list list"
  sh_map :: "(uid, nat) gomap"

text \<open>The controller that the state stands for.\<close>

definition view :: "'api shared \<Rightarrow> 'api controller" where
  "view s = (sh_ctl s)\<lparr>cn_stores := map (\<lambda>(u, a). (u, sh_heap s ! a)) (sh_map s)\<rparr>"

definition on_ctl :: "('api controller \<Rightarrow> 'api controller) \<Rightarrow> 'api shared \<Rightarrow> 'api shared" where
  "on_ctl f s = s\<lparr>sh_ctl := f (sh_ctl s)\<rparr>"

definition stores_Load :: "uid \<Rightarrow> 'api shared \<Rightarrow> nat option" where
  "stores_Load u s = map_of (sh_map s) u"

definition stores_Delete :: "uid \<Rightarrow> 'api shared \<Rightarrow> 'api shared" where
  "stores_Delete u s = s\<lparr>sh_map := gm_del u (sh_map s)\<rparr>"

definition stores_Store :: "uid \<Rightarrow> store list \<Rightarrow> 'api shared \<Rightarrow> 'api shared" where
  "stores_Store u ss s = s\<lparr>sh_heap := sh_heap s @ [ss], sh_map := gm_put u (length (sh_heap s)) (sh_map s)\<rparr>"

definition at_store :: "nat \<Rightarrow> nat \<Rightarrow> 'api shared \<Rightarrow> store" where
  "at_store a i s = sh_heap s ! a ! i"

definition on_store :: "nat \<Rightarrow> nat \<Rightarrow> (store \<Rightarrow> store) \<Rightarrow> 'api shared \<Rightarrow> 'api shared" where
  "on_store a i f s = s\<lparr>sh_heap := (sh_heap s)[a := (sh_heap s ! a)[i := f (sh_heap s ! a ! i)]]\<rparr>"

text \<open>A write to the API server.\<close>

definition api_call ::
    "('api \<Rightarrow> monitor \<Rightarrow> 'api \<times> monitor option) \<Rightarrow> monitor \<Rightarrow> 'api shared \<Rightarrow> 'api shared \<times> monitor option" where
  "api_call f r s =
     (let (api, res) = f (cn_api (sh_ctl s)) r in (on_ctl (\<lambda>c. c\<lparr>cn_api := api\<rparr>) s, res))"

type_synonym 'api thread = "'api shared prog"

section \<open>The handlers\<close>

definition c_Get :: "'api api_client \<Rightarrow> monitor \<Rightarrow> (monitor option \<Rightarrow> 'api thread) \<Rightarrow> 'api thread" where
  "c_Get cl r = peek (\<lambda>s. api_Get cl (cn_api (sh_ctl s)) (rmm_Namespace r) (rmm_Name r))"

definition c_emit ::
    "'api api_client \<Rightarrow> (monitor \<Rightarrow> monitor) \<Rightarrow> monitor \<Rightarrow> (monitor option \<Rightarrow> 'api thread) \<Rightarrow> 'api thread" where
  "c_emit cl f r k =
     c_Get cl r (\<lambda>got. case got of
         None \<Rightarrow> k None
       | Some resource \<Rightarrow> act (api_call (api_UpdateStatus cl) (f resource)) k)"

definition c_emitSuccess ::
    "'api api_client \<Rightarrow> event_env \<Rightarrow> monitor \<Rightarrow> condition_status \<Rightarrow> string
      \<Rightarrow> (monitor option \<Rightarrow> 'api thread) \<Rightarrow> 'api thread" where
  "c_emitSuccess cl env r statusBool message =
     c_emit cl (set_condition (en_now env) ConditionTypeProcessed statusBool [] message) r"

definition c_emitFailure ::
    "'api api_client \<Rightarrow> event_env \<Rightarrow> monitor \<Rightarrow> string \<Rightarrow> 'api thread \<Rightarrow> 'api thread" where
  "c_emitFailure cl env r message p =
     c_emit cl (set_condition (en_now env) ConditionTypeFailed ConditionTrue [] message) r (\<lambda>_. p)"

definition managed :: "event_env \<Rightarrow> monitor \<Rightarrow> monitor" where
  "managed env resource =
     (let labels = gm_put ''app.kubernetes.io/managed-by'' (en_controllerName env) (rmm_Labels resource);
          labels = (case en_revision env of
              Some sha \<Rightarrow> gm_put ''app.kubernetes.io/version'' sha labels
            | None \<Rightarrow> labels)
      in resource\<lparr>rmm_Labels := labels\<rparr>)"

definition c_updateMetadata ::
    "'api api_client \<Rightarrow> event_env \<Rightarrow> monitor \<Rightarrow> (bool \<Rightarrow> 'api thread) \<Rightarrow> 'api thread" where
  "c_updateMetadata cl env r k =
     c_Get cl r (\<lambda>got. case got of
         None \<Rightarrow> k True
       | Some resource \<Rightarrow> act (api_call (api_Update cl) (managed env resource)) (\<lambda>res. k (res = None)))"

definition c_validateAndPrepareResource ::
    "'api api_client \<Rightarrow> event_env \<Rightarrow> monitor \<Rightarrow> string \<Rightarrow> (monitor option \<Rightarrow> 'api thread) \<Rightarrow> 'api thread" where
  "c_validateAndPrepareResource cl env resource event k =
     c_updateMetadata cl env resource (\<lambda>err.
       if err then k None
       else c_emitSuccess cl env resource ConditionFalse (''Event handler received event: '' @ event) k)"

text \<open>The two gauges are set before the stores are built; building a store starts its reflector.\<close>

definition c_processAddOrUpdate :: "event_env \<Rightarrow> monitor \<Rightarrow> 'api thread \<Rightarrow> 'api thread" where
  "c_processAddOrUpdate env r p =
     poke (stores_Delete (rmm_UID r))
       (peek (\<lambda>s. event_configurer r (sh_ctl s)) (\<lambda>configurerInstance.
          case dedup_pass (expand_pass (cg_discovery configurerInstance)
              (cf_Stores (cg_configuration configurerInstance)) []) [] [] [] of
            (seenStores, seenFamilies, deduplicatedStores) \<Rightarrow>
          poke (on_ctl (\<lambda>c. c\<lparr>cn_duplicateStores := map_option
              (set_store_gauge (rmm_Namespace r) (rmm_Name r) seenStores) (cn_duplicateStores c)\<rparr>))
         (poke (on_ctl (\<lambda>c. c\<lparr>cn_duplicateFamilies := map_option
              (set_family_gauge (rmm_Namespace r) (rmm_Name r) seenFamilies) (cn_duplicateFamilies c)\<rparr>))
         (poke (stores_Store (rmm_UID r)
              (map (buildStoreFromConfig (en_createdAt env) configurerInstance) deduplicatedStores))
         (poke (on_ctl (\<lambda>c. c\<lparr>cn_resourcesMonitored :=
              gm_put [rmm_Namespace r, rmm_Name r] f64_one (cn_resourcesMonitored c)\<rparr>)) p)))))"

definition c_processDelete :: "monitor \<Rightarrow> 'api thread \<Rightarrow> 'api thread" where
  "c_processDelete r p =
     poke (stores_Delete (rmm_UID r))
    (poke (on_ctl (\<lambda>c. c\<lparr>cn_resourcesMonitored :=
         gm_del [rmm_Namespace r, rmm_Name r] (cn_resourcesMonitored c)\<rparr>))
    (poke (on_ctl (\<lambda>c. c\<lparr>cn_manager := DeleteResource (rmm_UID r) (cn_manager c)\<rparr>))
    (poke (on_ctl (\<lambda>c. c\<lparr>cn_resourceCardinality :=
         gm_del [rmm_Namespace r, rmm_Name r] (cn_resourceCardinality c)\<rparr>))
    (peek (\<lambda>s. GetGlobalTotal (cn_manager (sh_ctl s))) (\<lambda>total.
     poke (on_ctl (\<lambda>c. c\<lparr>cn_globalCardinality := f64_of_int64 total\<rparr>)) p)))))"

definition c_count :: "monitor \<Rightarrow> string \<Rightarrow> string \<Rightarrow> 'api thread \<Rightarrow> 'api thread" where
  "c_count r event status = poke (on_ctl (count_event (rmm_Namespace r) (rmm_Name r) event status))"

text \<open>The goroutine that an add or update starts waits for \<open>emitDone\<close>, which is closed when the
  handler returns: until then it only looks whether the stores are synced, so it joins the pending
  ones there.\<close>

definition close_emitDone :: "monitor \<Rightarrow> 'api thread" where
  "close_emitDone r = poke (on_ctl (\<lambda>c. c\<lparr>cn_pending := cn_pending c @ [r]\<rparr>)) Done"

definition c_finish ::
    "'api api_client \<Rightarrow> event_env \<Rightarrow> string \<Rightarrow> monitor \<Rightarrow> 'api thread \<Rightarrow> 'api thread" where
  "c_finish cl env event r p =
     c_emitSuccess cl env r ConditionTrue (''Event handler successfully processed event: '' @ event)
       (\<lambda>res. case res of None \<Rightarrow> c_count r event ''failed'' p | Some _ \<Rightarrow> c_count r event ''success'' p)"

text \<open>\<open>processEvent\<close> with what \<open>handleEvent\<close> does after it.\<close>

definition c_processEvent :: "'api api_client \<Rightarrow> event_env \<Rightarrow> string \<Rightarrow> monitor \<Rightarrow> 'api thread" where
  "c_processEvent cl env event r =
     (if event = event_string AddEvent \<or> event = event_string UpdateEvent
      then c_processAddOrUpdate env r (c_finish cl env event r (close_emitDone r))
      else if event = event_string DeleteEvent
      then c_processDelete r (c_finish cl env event r Done)
      else c_emitFailure cl env r (''Unknown event type: '' @ event)
             (c_count r event ''failed'' (c_count r event ''failed'' Done)))"

definition c_handleEvent :: "'api api_client \<Rightarrow> event_env \<Rightarrow> string \<Rightarrow> monitor \<Rightarrow> 'api thread" where
  "c_handleEvent cl env event obj =
     c_validateAndPrepareResource cl env obj event (\<lambda>res. case res of
         None \<Rightarrow> c_count obj event ''failed'' Done
       | Some r \<Rightarrow> c_processEvent cl env event r)"

text \<open>A worker with an item of the queue.\<close>

definition c_worker ::
    "'api api_client \<Rightarrow> event_env \<Rightarrow> key_lib \<Rightarrow> (string \<Rightarrow> string \<Rightarrow> lister_result) \<Rightarrow> work_item \<Rightarrow> 'api thread" where
  "c_worker cl env kl lister item =
     (case item of (key, event) \<Rightarrow>
        (case SplitMetaNamespaceKey kl key of
           None \<Rightarrow> Done
         | Some (namespace, name) \<Rightarrow>
             (case lister namespace name of
                LError \<Rightarrow> Done
              | LNotFound \<Rightarrow> c_handleEvent cl env event (empty_monitor\<lparr>rmm_Name := name\<rparr>)
              | LFound resource \<Rightarrow> c_handleEvent cl env event resource)))"

section \<open>The status goroutine\<close>

text \<open>What the goroutine polls for, for five seconds at most, before it goes on in any case.\<close>

definition stores_ready :: "monitor \<Rightarrow> 'api shared \<Rightarrow> bool" where
  "stores_ready r s \<longleftrightarrow>
     (case stores_Load (rmm_UID r) s of
        None \<Rightarrow> False
      | Some a \<Rightarrow> sh_heap s ! a \<noteq> [] \<and> list_all IsSynced (sh_heap s ! a))"

text \<open>A read of a tracker under its own mutex.\<close>

definition tracked :: "'a \<Rightarrow> (cardinality_tracker \<Rightarrow> 'a) \<Rightarrow> nat \<Rightarrow> nat \<Rightarrow> 'api shared \<Rightarrow> 'a" where
  "tracked d f a i s = (case so_cardinalityTracker (at_store a i s) of None \<Rightarrow> d | Some ct \<Rightarrow> f ct)"

fun c_set_cutoffs :: "nat \<Rightarrow> nat \<Rightarrow> nat list \<Rightarrow> 'api thread \<Rightarrow> 'api thread" where
  "c_set_cutoffs a i [] p = p"
| "c_set_cutoffs a i (j # js) p =
     peek (\<lambda>s. tracked False (\<lambda>ct. IsFamilyCutoff ct (fs_Name (so_Families (at_store a i s) ! j))) a i s) (\<lambda>cutoff.
     poke (on_store a i (\<lambda>st. st\<lparr>so_Families := (so_Families st)[j := SetCutoff cutoff (so_Families st ! j)]\<rparr>))
       (c_set_cutoffs a i js p))"

definition track_check :: "nat \<Rightarrow> nat \<Rightarrow> 'api shared \<Rightarrow> 'api shared \<times> threshold_violation list" where
  "track_check a i s =
     (case so_cardinalityTracker (at_store a i s) of
        None \<Rightarrow> (s, [])
      | Some ct \<Rightarrow> (case ct_CheckThresholds ct of (violations, ct') \<Rightarrow>
          (on_store a i (\<lambda>st. st\<lparr>so_cardinalityTracker := Some ct'\<rparr>) s, violations)))"

definition c_checkAndApplyThresholds ::
    "nat \<Rightarrow> nat \<Rightarrow> (threshold_violation list \<Rightarrow> 'api thread) \<Rightarrow> 'api thread" where
  "c_checkAndApplyThresholds a i k =
     act (track_check a i) (\<lambda>violations.
     peek (\<lambda>s. length (so_Families (at_store a i s))) (\<lambda>n. c_set_cutoffs a i [0..<n] (k violations)))"

fun c_aggregate ::
    "monitor \<Rightarrow> nat \<Rightarrow> nat list \<Rightarrow> cardinality_aggregation \<Rightarrow> (cardinality_aggregation \<Rightarrow> 'api thread) \<Rightarrow> 'api thread" where
  "c_aggregate resource a [] agg k = k agg"
| "c_aggregate resource a (i # is) agg k =
     peek (\<lambda>s. so_cardinalityTracker (at_store a i s) = None) (\<lambda>untracked.
       if untracked then c_aggregate resource a is agg k
       else
         peek (\<lambda>s. GetStoreIdentifier (at_store a i s)) (\<lambda>storeID.
         peek (tracked 0 GetStoreTotal a i) (\<lambda>storeTotal.
         peek (tracked 0 GetStoreThreshold a i) (\<lambda>storeLimit.
         peek (tracked [] GetAllFamilyCardinalities a i) (\<lambda>familyCards.
         peek (tracked [] GetAllFamilyThresholds a i) (\<lambda>familyLimits.
         peek (tracked [] GetCutoffFamilies a i) (\<lambda>cutoffFamilies.
         c_checkAndApplyThresholds a i (\<lambda>violations.
         c_aggregate resource a is
           \<lparr>ag_totalCardinality = ag_totalCardinality agg + storeTotal,
            ag_perStore = gm_put storeID storeTotal (ag_perStore agg),
            ag_perStoreLimit = gm_put storeID storeLimit (ag_perStoreLimit agg),
            ag_perFamily = add_families familyCards (ag_perFamily agg),
            ag_perFamilyLimit = max_limits familyLimits (ag_perFamilyLimit agg),
            ag_cutoffFamilies = ag_cutoffFamilies agg @ cutoffFamilies,
            ag_violations = ag_violations agg @ map (\<lambda>v. v\<lparr>v_StoreName := storeID,
              v_RMMName := rmm_Name resource, v_RMMNamespace := rmm_Namespace resource\<rparr>) violations\<rparr> k))))))))"

text \<open>After the aggregation: the manager, twice, the telemetry, and the server.\<close>

definition c_publish ::
    "'api api_client \<Rightarrow> event_env \<Rightarrow> monitor \<Rightarrow> cardinality_aggregation \<Rightarrow> 'api thread" where
  "c_publish cl env r agg =
     poke (on_ctl (\<lambda>c. c\<lparr>cn_manager := UpdateResource (rmm_UID r) (ag_totalCardinality agg) (cn_manager c)\<rparr>))
    (act (\<lambda>s. case gcm_CheckThresholds (rmm_UID r) 0 (cn_manager (sh_ctl s)) of
         (vs, m) \<Rightarrow> (on_ctl (\<lambda>c. c\<lparr>cn_manager := m\<rparr>) s, vs)) (\<lambda>resourceViolations.
      let agg = agg\<lparr>ag_violations := ag_violations agg
            @ map (\<lambda>v. v\<lparr>v_RMMName := rmm_Name r, v_RMMNamespace := rmm_Namespace r\<rparr>) resourceViolations\<rparr>
      in poke (on_ctl (updateCardinalityMetrics r agg))
        (poke (on_ctl (recordCardinalityViolations r (ag_violations agg)))
        (c_emit cl (cardinality_patch env agg) r (\<lambda>_. Done)))))"

definition c_updateCardinalityStatus :: "'api api_client \<Rightarrow> event_env \<Rightarrow> monitor \<Rightarrow> 'api thread" where
  "c_updateCardinalityStatus cl env r =
     peek (stores_Load (rmm_UID r)) (\<lambda>storesI. case storesI of
         None \<Rightarrow> Done
       | Some a \<Rightarrow> peek (\<lambda>s. length (sh_heap s ! a)) (\<lambda>n.
           c_aggregate r a [0..<n] empty_aggregation (c_publish cl env r)))"

section \<open>The system\<close>

text \<open>The workers, the status goroutines started so far, the shared state, and the items ever queued. A
  reflector delivers to the lists that the map has forgotten as well: nothing stops it.\<close>

type_synonym 'api system = "'api thread list \<times> 'api thread list \<times> 'api shared \<times> work_item list"

inductive conc_step ::
    "'api api_client \<Rightarrow> key_lib \<Rightarrow> 'm metric_lib_scheme \<Rightarrow> 'api system \<Rightarrow> 'api system \<Rightarrow> bool"
  for cl :: "'api api_client" and kl :: key_lib and lib :: "'m metric_lib_scheme" where
  informer: "conc_step cl kl lib (ws, gs, s, items) (ws, gs, s, items @ registerEventHandlers kl e)"
| take_item: "i < length ws \<Longrightarrow> ws ! i = Done \<Longrightarrow> item \<in> set items
    \<Longrightarrow> conc_step cl kl lib (ws, gs, s, items) (ws[i := c_worker cl env kl lister item], gs, s, items)"
| work: "thread_step i (ws, s) = Some (ws', s') \<Longrightarrow> conc_step cl kl lib (ws, gs, s, items) (ws', gs, s', items)"
| spawn: "r \<in> set (cn_pending (sh_ctl s))
    \<Longrightarrow> conc_step cl kl lib (ws, gs, s, items)
          (ws, gs @ [c_updateCardinalityStatus cl env r],
           on_ctl (\<lambda>c. c\<lparr>cn_pending := remove1 r (cn_pending c)\<rparr>) s, items)"
| status: "thread_step i (gs, s) = Some (gs', s') \<Longrightarrow> conc_step cl kl lib (ws, gs, s, items) (ws, gs', s', items)"
| reflect: "a < length (sh_heap s) \<Longrightarrow> i < length (sh_heap s ! a) \<Longrightarrow> store_step lib e (at_store a i s) = Some st
    \<Longrightarrow> conc_step cl kl lib (ws, gs, s, items) (ws, gs, on_store a i (\<lambda>_. st) s, items)"

inductive_cases conc_stepE: "conc_step cl kl lib (ws, gs, s, items) (ws', gs', s', items')"

lemmas conc_step_cases = conc_stepE [consumes 1, case_names informer take_item work spawn status reflect]

definition shared_start :: "'api \<Rightarrow> discovery_client \<Rightarrow> controller_options \<Rightarrow> 'api shared" where
  "shared_start api d opt = \<lparr>sh_ctl = running_controller api d opt, sh_heap = [], sh_map = []\<rparr>"

inductive conc_reachable ::
    "'api api_client \<Rightarrow> key_lib \<Rightarrow> 'm metric_lib_scheme \<Rightarrow> 'api \<Rightarrow> discovery_client \<Rightarrow> controller_options \<Rightarrow> nat
      \<Rightarrow> 'api system \<Rightarrow> bool"
  for cl :: "'api api_client" and kl :: key_lib and lib :: "'m metric_lib_scheme"
    and api :: 'api and d :: discovery_client and opt :: controller_options and workers :: nat where
  start: "conc_reachable cl kl lib api d opt workers (replicate workers Done, [], shared_start api d opt, [])"
| step: "conc_reachable cl kl lib api d opt workers x \<Longrightarrow> conc_step cl kl lib x y
    \<Longrightarrow> conc_reachable cl kl lib api d opt workers y"

section \<open>What every action keeps\<close>

definition lists_ok :: "store list \<Rightarrow> bool" where
  "lists_ok ss \<longleftrightarrow> list_all store_data ss \<and> distinct (map GetStoreIdentifier ss)"

definition conc_inv :: "'api shared \<Rightarrow> bool" where
  "conc_inv s \<longleftrightarrow> gm_ok (sh_map s) \<and> distinct (map snd (sh_map s))
     \<and> (\<forall>a \<in> snd ` set (sh_map s). a < length (sh_heap s))
     \<and> (\<forall>ss \<in> set (sh_heap s). lists_ok ss) \<and> gcm.balanced (cn_manager (sh_ctl s))"

lemma on_ctl_fields [simp]:
  "sh_heap (on_ctl f s) = sh_heap s" "sh_map (on_ctl f s) = sh_map s" "sh_ctl (on_ctl f s) = f (sh_ctl s)"
  by (simp_all add: on_ctl_def)

lemma on_store_fields [simp]:
  "sh_ctl (on_store a i f s) = sh_ctl s" "sh_map (on_store a i f s) = sh_map s"
  "length (sh_heap (on_store a i f s)) = length (sh_heap s)"
  by (simp_all add: on_store_def)

lemma inv_on_ctl: "conc_inv s \<Longrightarrow> gcm.balanced (cn_manager (f (sh_ctl s))) \<Longrightarrow> conc_inv (on_ctl f s)"
  by (simp add: conc_inv_def)

lemma inv_ctl_same: "conc_inv s \<Longrightarrow> cn_manager (f (sh_ctl s)) = cn_manager (sh_ctl s) \<Longrightarrow> conc_inv (on_ctl f s)"
  by (simp add: conc_inv_def)

lemma distinct_del: "distinct (map snd m) \<Longrightarrow> distinct (map snd (gm_del k m))"
proof (induction m)
  case (Cons kv m)
  then show ?case using snd_set_del [of k m] by auto
qed simp

lemma distinct_put: "distinct (map snd m) \<Longrightarrow> v \<notin> snd ` set m \<Longrightarrow> distinct (map snd (gm_put k v m))"
proof (induction m)
  case (Cons kv m)
  then show ?case using snd_set_put [of k v m] by auto
qed simp

lemma inv_Delete:
  assumes "conc_inv s"
  shows "conc_inv (stores_Delete u s)"
proof -
  have "\<forall>a \<in> snd ` set (sh_map s). a < length (sh_heap s)" using assms unfolding conc_inv_def by blast
  from ball_del [OF this, of u] assms show ?thesis
    by (simp add: conc_inv_def stores_Delete_def distinct_del)
qed

lemma inv_Store:
  assumes "conc_inv s" and "lists_ok ss"
  shows "conc_inv (stores_Store u ss s)"
proof -
  have "\<forall>a \<in> snd ` set (sh_map s). a < Suc (length (sh_heap s))" "length (sh_heap s) \<notin> snd ` set (sh_map s)"
    using assms(1) by (auto simp: conc_inv_def)
  from ball_put [OF this(1), of "length (sh_heap s)" u] this(2) assms show ?thesis
    by (simp add: conc_inv_def stores_Store_def distinct_put)
qed

lemma lists_ok_update:
  assumes "lists_ok ss" and "i < length ss" and "store_data st" and "GetStoreIdentifier st = GetStoreIdentifier (ss ! i)"
  shows "lists_ok (ss[i := st])"
proof -
  have "map GetStoreIdentifier (ss[i := st]) = map GetStoreIdentifier ss"
    using assms(2,4) by (simp add: map_update list_update_same_conv)
  moreover have "list_all store_data (ss[i := st])"
    using assms(1,3) set_update_subset_insert [of ss i st] by (auto simp: lists_ok_def list_all_iff)
  ultimately show ?thesis using assms(1) by (simp add: lists_ok_def)
qed

text \<open>An action on a store: it keeps the data where there is one, and does nothing elsewhere.\<close>

lemma inv_on_store:
  assumes "conc_inv s"
    and "store_data (at_store a i s) \<Longrightarrow> store_data (f (at_store a i s))
      \<and> GetStoreIdentifier (f (at_store a i s)) = GetStoreIdentifier (at_store a i s)"
  shows "conc_inv (on_store a i f s)"
proof (cases "a < length (sh_heap s) \<and> i < length (sh_heap s ! a)")
  case True
  then have ok: "lists_ok (sh_heap s ! a)" using assms(1) by (simp add: conc_inv_def)
  then have "store_data (at_store a i s)" using True by (simp add: lists_ok_def at_store_def list_all_length)
  with assms(2) lists_ok_update [OF ok] True
  have "lists_ok ((sh_heap s ! a)[i := f (at_store a i s)])" by (simp add: at_store_def)
  then have "\<forall>ss \<in> set (sh_heap (on_store a i f s)). lists_ok ss"
    using assms(1) set_update_subset_insert [of "sh_heap s" a]
    by (fastforce simp: on_store_def at_store_def conc_inv_def)
  with assms(1) show ?thesis by (simp add: conc_inv_def)
next
  case False
  then have "on_store a i f s = s"
    by (cases "a < length (sh_heap s)") (simp_all add: on_store_def list_update_beyond)
  with assms(1) show ?thesis by simp
qed

lemma data_set_cutoff:
  assumes "store_data st"
  shows "store_data (st\<lparr>so_Families := (so_Families st)[j := SetCutoff b (so_Families st ! j)]\<rparr>)"
proof -
  have "map fs_Name ((so_Families st)[j := SetCutoff b (so_Families st ! j)]) = map fs_Name (so_Families st)"
    by (cases "j < length (so_Families st)")
      (simp_all add: map_update SetCutoff_def list_update_same_conv list_update_beyond)
  then have "fs_Name ` set ((so_Families st)[j := SetCutoff b (so_Families st ! j)]) = fs_Name ` set (so_Families st)"
    by (metis set_map)
  with assms show ?thesis by (simp add: store_data_def)
qed

lemma data_check:
  assumes "store_data st" and "so_cardinalityTracker st = Some ct" and "ct_CheckThresholds ct = (vs, ct')"
  shows "store_data (st\<lparr>so_cardinalityTracker := Some ct'\<rparr>)"
proof -
  have ct': "ct' = snd (ct_CheckThresholds ct)" by (simp add: assms(3))
  have "ct_inv ct" using assms(1,2) by (auto simp: store_data_def)
  then have "ct_inv ct'" unfolding ct' by (rule ct_inv_cong) simp_all
  moreover have "ct_perObject ct' = ct_perObject ct" unfolding ct' by simp
  ultimately show ?thesis using assms(1,2) by (simp add: store_data_def)
qed

lemma inv_track_check: "conc_inv s \<Longrightarrow> conc_inv (fst (track_check a i s))"
  by (auto simp: track_check_def GetStoreIdentifier_def intro!: inv_on_store data_check
      split: option.split prod.split)

lemma inv_api_call: "conc_inv s \<Longrightarrow> conc_inv (fst (api_call f r s))"
  by (simp add: api_call_def split_def Let_def inv_ctl_same)

text \<open>The parts of the programs keep the invariant, if what follows them does.\<close>

named_theorems conc_safe \<open>programs that keep the invariant\<close>

lemma safe_peek_here [conc_safe]: "(\<And>a. safe conc_inv (k a)) \<Longrightarrow> safe conc_inv (peek f k)"
  by (rule safe_peek)

lemma safe_done [conc_safe]: "safe conc_inv Done"
  by (rule safe.over)

lemma safe_on_ctl [conc_safe]:
  "(\<And>c. cn_manager (f c) = cn_manager c) \<Longrightarrow> safe conc_inv p \<Longrightarrow> safe conc_inv (poke (on_ctl f) p)"
  by (rule safe_poke) (simp_all add: inv_ctl_same)

lemma safe_manager [conc_safe]:
  "(\<And>c. gcm.balanced (cn_manager c) \<Longrightarrow> gcm.balanced (cn_manager (f c))) \<Longrightarrow> safe conc_inv p
    \<Longrightarrow> safe conc_inv (poke (on_ctl f) p)"
  by (rule safe_poke) (simp_all add: inv_on_ctl conc_inv_def)

lemma safe_Delete [conc_safe]: "safe conc_inv p \<Longrightarrow> safe conc_inv (poke (stores_Delete u) p)"
  by (rule safe_poke) (simp_all add: inv_Delete)

lemma safe_Store [conc_safe]: "lists_ok ss \<Longrightarrow> safe conc_inv p \<Longrightarrow> safe conc_inv (poke (stores_Store u ss) p)"
  by (rule safe_poke) (simp_all add: inv_Store)

lemma safe_api [conc_safe]: "(\<And>res. safe conc_inv (k res)) \<Longrightarrow> safe conc_inv (act (api_call f r) k)"
  by (rule safe_act) (simp add: inv_api_call)

lemma safe_emit [conc_safe]: "(\<And>res. safe conc_inv (k res)) \<Longrightarrow> safe conc_inv (c_emit cl f r k)"
  by (auto simp: c_emit_def c_Get_def intro!: conc_safe split: option.split)

lemma safe_metadata [conc_safe]: "(\<And>err. safe conc_inv (k err)) \<Longrightarrow> safe conc_inv (c_updateMetadata cl env r k)"
  by (auto simp: c_updateMetadata_def c_Get_def intro!: conc_safe split: option.split)

lemma safe_count [conc_safe]: "safe conc_inv p \<Longrightarrow> safe conc_inv (c_count r ev st p)"
  unfolding c_count_def by (rule safe_on_ctl) simp_all

lemma safe_processDelete [conc_safe]: "safe conc_inv p \<Longrightarrow> safe conc_inv (c_processDelete r p)"
  unfolding c_processDelete_def
  by (intro safe_Delete safe_peek_here safe_manager) (simp_all add: gcm.balanced_del)

lemma built_ok:
  "dedup_pass (expand_pass d ss []) [] [] [] = (seen, fams, dedup)
     \<Longrightarrow> lists_ok (map (buildStoreFromConfig t cfg) dedup)"
  using first_of_key_keys [of "expand_pass d ss []" "{}"]
  by (simp add: dedup_pass_eq lists_ok_def list_all_iff store_inv_built store_inv_data comp_def GetStoreIdentifier_built)

lemma safe_processAddOrUpdate [conc_safe]:
  "safe conc_inv p \<Longrightarrow> safe conc_inv (c_processAddOrUpdate env r p)"
  unfolding c_processAddOrUpdate_def
  by (auto intro!: safe_Delete safe_peek_here safe_on_ctl safe_Store dest: built_ok split: prod.split)

lemma safe_finish [conc_safe]: "safe conc_inv p \<Longrightarrow> safe conc_inv (c_finish cl env ev r p)"
  unfolding c_finish_def c_emitSuccess_def
  by (intro safe_emit) (auto intro: safe_count split: option.split)

lemma safe_processEvent [conc_safe]: "safe conc_inv (c_processEvent cl env ev r)"
proof -
  have close: "safe conc_inv (close_emitDone r)" for r :: monitor
    unfolding close_emitDone_def by (intro safe_on_ctl safe_done) simp
  show ?thesis unfolding c_processEvent_def c_emitFailure_def by (simp add: conc_safe close)
qed

lemma safe_handleEvent [conc_safe]: "safe conc_inv (c_handleEvent cl env ev obj)"
  unfolding c_handleEvent_def c_validateAndPrepareResource_def c_emitSuccess_def
  by (intro safe_metadata) (simp add: conc_safe split: option.split)

lemma safe_worker [conc_safe]: "safe conc_inv (c_worker cl env kl lister item)"
  by (auto simp: c_worker_def intro!: safe_handleEvent safe_done split: prod.split option.split lister_result.split)

lemma safe_set_cutoffs [conc_safe]: "safe conc_inv p \<Longrightarrow> safe conc_inv (c_set_cutoffs a i js p)"
proof (induction js)
  case (Cons j js)
  have "conc_inv (on_store a i (\<lambda>st. st\<lparr>so_Families := (so_Families st)[j := SetCutoff b (so_Families st ! j)]\<rparr>) s)"
    if "conc_inv s" for b and s :: "'a shared"
    using that by (auto intro!: inv_on_store data_set_cutoff simp: GetStoreIdentifier_def)
  with Cons show ?case by (auto intro!: safe_peek safe_poke)
qed simp

lemma safe_check [conc_safe]:
  "(\<And>vs. safe conc_inv (k vs)) \<Longrightarrow> safe conc_inv (c_checkAndApplyThresholds a i k)"
  unfolding c_checkAndApplyThresholds_def
  by (rule safe_act) (auto simp: inv_track_check intro!: safe_peek safe_set_cutoffs)

lemma safe_aggregate [conc_safe]:
  "(\<And>agg. safe conc_inv (k agg)) \<Longrightarrow> safe conc_inv (c_aggregate r a is agg k)"
  by (induction r a "is" agg k rule: c_aggregate.induct) (auto intro!: safe_peek safe_check)

lemma safe_publish [conc_safe]: "safe conc_inv (c_publish cl env r agg)"
proof -
  have "gcm.balanced (snd (gcm_CheckThresholds u n m))" if "gcm.balanced m" for u n m
    using manager_step_balanced [of m "MCheck u n"] that by simp
  moreover have "safe conc_inv (poke (on_ctl (updateCardinalityMetrics r agg'))
      (poke (on_ctl (recordCardinalityViolations r vs)) (c_emit cl f r (\<lambda>_. Done))))" for agg' vs f
    by (intro safe_on_ctl safe_emit safe_done) simp_all
  ultimately show ?thesis
    unfolding c_publish_def Let_def
    by (intro safe_manager safe_act) (auto simp: gcm.balanced_put conc_inv_def split_def)
qed

lemma safe_status [conc_safe]: "safe conc_inv (c_updateCardinalityStatus cl env r)"
  by (auto simp: c_updateCardinalityStatus_def intro!: safe_peek safe_aggregate safe_publish safe_done split: option.split)

section \<open>What holds at every moment\<close>

lemma conc_start: "conc_inv (shared_start api d opt)"
  by (simp add: conc_inv_def shared_start_def running_controller_defs gcm.balanced_def NewGlobalCardinalityManager_def)

lemma conc_step_safe:
  assumes "conc_step cl kl lib (ws, gs, s, items) (ws', gs', s', items')" and "index_sorter (SortIndices lib)"
    and "conc_inv s" and "\<forall>p \<in> set ws. safe conc_inv p" and "\<forall>p \<in> set gs. safe conc_inv p"
  shows "conc_inv s' \<and> (\<forall>p \<in> set ws'. safe conc_inv p) \<and> (\<forall>p \<in> set gs'. safe conc_inv p) \<and> length ws' = length ws"
  using assms(1)
proof (cases rule: conc_step_cases)
  case (informer e)
  with assms(3-) show ?thesis by simp
next
  case (take_item i item env lister)
  have "safe conc_inv p" if "p \<in> set (ws[i := c_worker cl env kl lister item])" for p
    using that assms(4) safe_worker set_update_subset_insert [of ws i] by fastforce
  with take_item assms(3-) show ?thesis by simp
next
  case (work i)
  then have t: "thread_step i (ws, s) = Some (ws', s')" by simp
  from thread_step_safe [OF t assms(4,3)] thread_step_length [OF t] work assms(5) show ?thesis by simp
next
  case (spawn r env)
  with assms(3-) safe_status show ?thesis by (auto simp: inv_ctl_same)
next
  case (status i)
  then have t: "thread_step i (gs, s) = Some (gs', s')" by simp
  from thread_step_safe [OF t assms(5,3)] status assms(4) show ?thesis by simp
next
  case (reflect a i e st)
  have "conc_inv (on_store a i (\<lambda>_. st) s)"
    using store_data_step [OF assms(2)] store_step_id reflect by (intro inv_on_store [OF assms(3)]) blast
  with reflect assms(4,5) show ?thesis by simp
qed

lemma conc_reachable_safe:
  assumes "conc_reachable cl kl lib api d opt workers (ws, gs, s, items)" and "index_sorter (SortIndices lib)"
  shows "conc_inv s \<and> (\<forall>p \<in> set ws. safe conc_inv p) \<and> (\<forall>p \<in> set gs. safe conc_inv p) \<and> length ws = workers"
proof -
  have "case x of (ws, gs, s, items) \<Rightarrow>
      conc_inv s \<and> (\<forall>p \<in> set ws. safe conc_inv p) \<and> (\<forall>p \<in> set gs. safe conc_inv p) \<and> length ws = workers"
    if "conc_reachable cl kl lib api d opt workers x" for x
    using that
  proof (induction rule: conc_reachable.induct)
    case start
    then show ?case by (auto simp: conc_start safe_done)
  next
    case (step x y)
    obtain ws gs s items where x: "x = (ws, gs, s, items)" by (rule prod_cases4)
    obtain ws' gs' s' items' where y: "y = (ws', gs', s', items')" by (rule prod_cases4)
    show ?case
      using conc_step_safe [OF step.hyps(2) [unfolded x y] assms(2)] step.IH unfolding x y prod.case by blast
  qed
  from this [OF assms(1)] show ?thesis by simp
qed

end
