(* ===== verification/Uninterrupted.thy ===== *)
theory Uninterrupted
  imports Concurrent
begin

text \<open>
  A handler or a status goroutine that is not interrupted does what the step of the sequential
  model in \<open>Controller\<close> does to the controller that the shared state stands for; so every run of
  the sequential model is a schedule of the interleaved one.
\<close>

section \<open>A handler that is not interrupted\<close>

lemma view_fields [simp]:
  "cn_api (view s) = cn_api (sh_ctl s)" "cn_manager (view s) = cn_manager (sh_ctl s)"
  "cn_pending (view s) = cn_pending (sh_ctl s)" "cn_discovery (view s) = cn_discovery (sh_ctl s)"
  "cn_options (view s) = cn_options (sh_ctl s)"
  "cn_stores (view s) = map (\<lambda>(u, a). (u, sh_heap s ! a)) (sh_map s)"
  by (simp_all add: view_def)

lemma view_on_ctl: "(\<And>c m. (f c)\<lparr>cn_stores := m\<rparr> = f (c\<lparr>cn_stores := m\<rparr>)) \<Longrightarrow> view (on_ctl f s) = f (view s)"
  by (simp add: view_def)

lemma view_api: "view (fst (api_call f r s)) = (view s)\<lparr>cn_api := fst (f (cn_api (sh_ctl s)) r)\<rparr>"
  "snd (api_call f r s) = snd (f (cn_api (sh_ctl s)) r)"
  "sh_heap (fst (api_call f r s)) = sh_heap s" "sh_map (fst (api_call f r s)) = sh_map s"
  by (simp_all add: api_call_def view_def split_def Let_def)

lemma view_Delete: "view (stores_Delete u s) = (view s)\<lparr>cn_stores := gm_del u (cn_stores (view s))\<rparr>"
proof -
  have "map (\<lambda>(u, a). (u, g a)) (gm_del u m) = gm_del u (map (\<lambda>(u, a). (u, g a)) m)"
    for g :: "nat \<Rightarrow> store list" and m :: "(uid, nat) gomap"
    by (induction m) auto
  then show ?thesis by (simp add: view_def stores_Delete_def)
qed

lemma view_Store:
  assumes "conc_inv s"
  shows "view (stores_Store u ss s) = (view s)\<lparr>cn_stores := gm_put u ss (cn_stores (view s))\<rparr>"
proof -
  have put: "map (\<lambda>(u, a). (u, g a)) (gm_put u b m) = gm_put u (g b) (map (\<lambda>(u, a). (u, g a)) m)"
    for g :: "nat \<Rightarrow> store list" and b and m :: "(uid, nat) gomap"
    by (induction m) auto
  have "(sh_heap s @ [ss]) ! a = sh_heap s ! a" if "(v, a) \<in> set (sh_map s)" for v a
    using assms that by (force simp: conc_inv_def nth_append)
  then have "map (\<lambda>(u, a). (u, (sh_heap s @ [ss]) ! a)) (sh_map s) = map (\<lambda>(u, a). (u, sh_heap s ! a)) (sh_map s)"
    by auto
  then show ?thesis by (simp add: view_def stores_Store_def put del: map_eq_conv)
qed

text \<open>What a call does to the view, with the heap and the map as they were.\<close>

lemma alone_emitSuccess:
  "\<exists>s' res. alone (c_emitSuccess cl env r b m k) s (k res) s' \<and> emitSuccess cl env r b m (view s) = (view s', res)
     \<and> sh_heap s' = sh_heap s \<and> sh_map s' = sh_map s"
proof (cases "api_Get cl (cn_api (sh_ctl s)) (rmm_Namespace r) (rmm_Name r)")
  case None
  then have "alone (c_emitSuccess cl env r b m k) s (k None) s"
    unfolding c_emitSuccess_def c_emit_def c_Get_def by (intro alone_peek) (simp add: alone.here)
  with None show ?thesis by (intro exI [of _ s] exI [of _ None]) (simp add: emitSuccess_def)
next
  case (Some got)
  let ?a = "api_call (api_UpdateStatus cl) (set_condition (en_now env) ConditionTypeProcessed b [] m got)"
  have "alone (c_emitSuccess cl env r b m k) s (k (snd (?a s))) (fst (?a s))"
    unfolding c_emitSuccess_def c_emit_def c_Get_def
    by (intro alone_peek) (simp add: Some alone_act alone.here)
  with Some show ?thesis
    by (intro exI [of _ "fst (?a s)"] exI [of _ "snd (?a s)"]) (simp add: emitSuccess_def view_api Let_def split_def)
qed

lemma alone_emitFailure:
  "\<exists>s'. alone (c_emitFailure cl env r m p) s p s' \<and> emitFailure cl env r m (view s) = view s'"
proof (cases "api_Get cl (cn_api (sh_ctl s)) (rmm_Namespace r) (rmm_Name r)")
  case None
  then have "alone (c_emitFailure cl env r m p) s p s"
    unfolding c_emitFailure_def c_emit_def c_Get_def by (intro alone_peek) (simp add: alone.here)
  with None show ?thesis by (intro exI [of _ s]) (simp add: emitFailure_def)
next
  case (Some got)
  let ?a = "api_call (api_UpdateStatus cl) (set_condition (en_now env) ConditionTypeFailed ConditionTrue [] m got)"
  have "alone (c_emitFailure cl env r m p) s p (fst (?a s))"
    unfolding c_emitFailure_def c_emit_def c_Get_def
    by (intro alone_peek) (simp add: Some alone_act alone.here)
  with Some show ?thesis
    by (intro exI [of _ "fst (?a s)"]) (simp add: emitFailure_def view_api Let_def split_def)
qed

lemma alone_updateMetadata:
  "\<exists>s' err. alone (c_updateMetadata cl env r k) s (k err) s' \<and> updateMetadata cl env r (view s) = (view s', err)
     \<and> sh_heap s' = sh_heap s \<and> sh_map s' = sh_map s"
proof (cases "api_Get cl (cn_api (sh_ctl s)) (rmm_Namespace r) (rmm_Name r)")
  case None
  then have "alone (c_updateMetadata cl env r k) s (k True) s"
    unfolding c_updateMetadata_def c_Get_def by (intro alone_peek) (simp add: alone.here)
  with None show ?thesis by (intro exI [of _ s] exI [of _ True]) (simp add: updateMetadata_def)
next
  case (Some got)
  let ?a = "api_call (api_Update cl) (managed env got)"
  have "alone (c_updateMetadata cl env r k) s (k (snd (?a s) = None)) (fst (?a s))"
    unfolding c_updateMetadata_def c_Get_def
    by (intro alone_peek) (simp add: Some alone_act alone.here)
  with Some show ?thesis
    by (intro exI [of _ "fst (?a s)"] exI [of _ "snd (?a s) = None"])
      (simp add: updateMetadata_def view_api managed_def Let_def split_def)
qed

lemma alone_validate:
  "\<exists>s' res. alone (c_validateAndPrepareResource cl env r ev k) s (k res) s'
     \<and> validateAndPrepareResource cl env (Some r) ev (view s) = (view s', res)
     \<and> sh_heap s' = sh_heap s \<and> sh_map s' = sh_map s"
proof -
  let ?m = "''Event handler received event: '' @ ev"
  let ?k = "\<lambda>err. if err then k None else c_emitSuccess cl env r ConditionFalse ?m k"
  obtain s1 err where u: "alone (c_updateMetadata cl env r ?k) s (?k err) s1"
      "updateMetadata cl env r (view s) = (view s1, err)" "sh_heap s1 = sh_heap s" "sh_map s1 = sh_map s"
    using alone_updateMetadata [of cl env r ?k s] by blast
  show ?thesis
  proof (cases err)
    case True
    with u show ?thesis by (auto simp: c_validateAndPrepareResource_def validateAndPrepareResource_def)
  next
    case False
    obtain s2 res where e: "alone (c_emitSuccess cl env r ConditionFalse ?m k) s1 (k res) s2"
        "emitSuccess cl env r ConditionFalse ?m (view s1) = (view s2, res)" "sh_heap s2 = sh_heap s1" "sh_map s2 = sh_map s1"
      using alone_emitSuccess [of cl env r ConditionFalse ?m k s1] by blast
    with u False alone_trans [OF u(1)] show ?thesis
      by (intro exI [of _ s2] exI [of _ res])
        (auto simp: c_validateAndPrepareResource_def validateAndPrepareResource_def)
  qed
qed

lemma alone_processAddOrUpdate:
  assumes "conc_inv s"
  shows "\<exists>s'. alone (c_processAddOrUpdate env r p) s p s'
     \<and> (view s')\<lparr>cn_pending := cn_pending (view s') @ [r]\<rparr> = processAddOrUpdate env r (view s)"
proof -
  let ?cfg = "event_configurer r (sh_ctl s)"
  obtain seen fams dedup where d: "dedup_pass (expand_pass (cg_discovery ?cfg) (cf_Stores (cg_configuration ?cfg)) []) [] [] []
      = (seen, fams, dedup)" by (metis prod_cases3)
  let ?fS = "\<lambda>c. c\<lparr>cn_duplicateStores := map_option (set_store_gauge (rmm_Namespace r) (rmm_Name r) seen) (cn_duplicateStores c)\<rparr>"
  let ?fF = "\<lambda>c. c\<lparr>cn_duplicateFamilies := map_option (set_family_gauge (rmm_Namespace r) (rmm_Name r) fams) (cn_duplicateFamilies c)\<rparr>"
  let ?fM = "\<lambda>c. c\<lparr>cn_resourcesMonitored := gm_put [rmm_Namespace r, rmm_Name r] f64_one (cn_resourcesMonitored c)\<rparr>"
  let ?ss = "map (buildStoreFromConfig (en_createdAt env) ?cfg) dedup"
  define s1 where "s1 = stores_Delete (rmm_UID r) s"
  define s3 where "s3 = on_ctl ?fF (on_ctl ?fS s1)"
  define s5 where "s5 = on_ctl ?fM (stores_Store (rmm_UID r) ?ss s3)"
  have cfg: "event_configurer r (sh_ctl s1) = ?cfg" by (simp add: s1_def stores_Delete_def)
  have al: "alone (c_processAddOrUpdate env r p) s p s5"
    unfolding c_processAddOrUpdate_def
    by (intro alone_poke alone_peek, fold s1_def, unfold cfg d prod.case)
      (intro alone_poke, fold s3_def, fold s5_def, rule alone.here)
  have inv: "conc_inv s3"
    using inv_Delete [OF assms] by (simp add: s3_def s1_def inv_ctl_same)
  have "view s5 = ?fM ((?fF (?fS (view s1)))\<lparr>cn_stores := gm_put (rmm_UID r) ?ss (cn_stores (view s1))\<rparr>)"
    unfolding s5_def s3_def by (simp add: view_on_ctl view_Store [OF inv, unfolded s3_def])
  moreover have "view s1 = (view s)\<lparr>cn_stores := gm_del (rmm_UID r) (cn_stores (view s))\<rparr>"
    unfolding s1_def by (rule view_Delete)
  moreover have "event_configurer r (view s) = ?cfg" by (simp add: event_configurer_def view_def)
  ultimately show ?thesis
    using al d
    by (intro exI [of _ s5])
      (simp add: processAddOrUpdate_def event_configurer_def [symmetric] build_def Let_def,
       simp add: view_def event_configurer_def newConfigurer_def)
qed

lemma alone_processDelete:
  "\<exists>s'. alone (c_processDelete r p) s p s' \<and> view s' = processDelete r (view s)"
proof -
  let ?f1 = "\<lambda>c. c\<lparr>cn_resourcesMonitored := gm_del [rmm_Namespace r, rmm_Name r] (cn_resourcesMonitored c)\<rparr>"
  let ?f2 = "\<lambda>c. c\<lparr>cn_manager := DeleteResource (rmm_UID r) (cn_manager c)\<rparr>"
  let ?f3 = "\<lambda>c. c\<lparr>cn_resourceCardinality := gm_del [rmm_Namespace r, rmm_Name r] (cn_resourceCardinality c)\<rparr>"
  define s4 where "s4 = on_ctl ?f3 (on_ctl ?f2 (on_ctl ?f1 (stores_Delete (rmm_UID r) s)))"
  let ?f5 = "\<lambda>c. c\<lparr>cn_globalCardinality := f64_of_int64 (GetGlobalTotal (cn_manager (sh_ctl s4)))\<rparr>"
  have "alone (c_processDelete r p) s p (on_ctl ?f5 s4)"
    unfolding c_processDelete_def
    by (intro alone_poke, fold s4_def, rule alone_peek, rule alone_poke, rule alone.here)
  moreover have "view (on_ctl ?f5 s4) = processDelete r (view s)"
    by (simp add: s4_def view_on_ctl view_Delete processDelete_def Let_def)
      (simp add: view_def stores_Delete_def)
  ultimately show ?thesis by blast
qed

lemma alone_finish:
  "\<exists>s'. alone (c_finish cl env ev r p) s p s'
     \<and> view s' = (case emitSuccess cl env r ConditionTrue (''Event handler successfully processed event: '' @ ev) (view s) of
           (c, None) \<Rightarrow> count_event (rmm_Namespace r) (rmm_Name r) ev ''failed'' c
         | (c, Some _) \<Rightarrow> count_event (rmm_Namespace r) (rmm_Name r) ev ''success'' c)"
proof -
  let ?k = "\<lambda>res. case res of None \<Rightarrow> c_count r ev ''failed'' p | Some _ \<Rightarrow> c_count r ev ''success'' p"
  obtain s1 res where e: "alone (c_finish cl env ev r p) s (?k res) s1"
      "emitSuccess cl env r ConditionTrue (''Event handler successfully processed event: '' @ ev) (view s) = (view s1, res)"
    unfolding c_finish_def
    using alone_emitSuccess [of cl env r ConditionTrue "''Event handler successfully processed event: '' @ ev" ?k s] by blast
  let ?st = "if res = None then ''failed'' else ''success''"
  let ?s2 = "on_ctl (count_event (rmm_Namespace r) (rmm_Name r) ev ?st) s1"
  have "?k res = c_count r ev ?st p" by (simp split: option.split)
  moreover have "alone (c_count r ev ?st p) s1 p ?s2"
    unfolding c_count_def by (intro alone_poke alone.here)
  moreover have "view ?s2 = count_event (rmm_Namespace r) (rmm_Name r) ev ?st (view s1)"
    by (rule view_on_ctl) (simp add: count_event_def)
  ultimately show ?thesis using alone_trans [OF e(1)] e(2)
    by (intro exI [of _ ?s2]) (simp split: option.split)
qed

text \<open>Neither the server nor the counters look at the pending goroutines.\<close>

lemma finish_pending:
  "(case emitSuccess cl env r b m (c\<lparr>cn_pending := ps\<rparr>) of
      (c, None) \<Rightarrow> count_event ns n ev st c | (c, Some _) \<Rightarrow> count_event ns n ev st' c)
   = (case emitSuccess cl env r b m c of
      (c, None) \<Rightarrow> count_event ns n ev st c | (c, Some _) \<Rightarrow> count_event ns n ev st' c)\<lparr>cn_pending := ps\<rparr>"
  by (auto simp: emitSuccess_def count_event_def Let_def split_def split: option.split)

lemma emitSuccess_pending: "emitSuccess cl env r b m c = (c', res) \<Longrightarrow> cn_pending c' = cn_pending c"
  by (auto simp: emitSuccess_def Let_def split_def split: option.splits)

definition finished :: "'api api_client \<Rightarrow> event_env \<Rightarrow> string \<Rightarrow> monitor \<Rightarrow> 'api controller \<Rightarrow> 'api controller" where
  "finished cl env ev r c =
     (case emitSuccess cl env r ConditionTrue (''Event handler successfully processed event: '' @ ev) c of
        (c, None) \<Rightarrow> count_event (rmm_Namespace r) (rmm_Name r) ev ''failed'' c
      | (c, Some _) \<Rightarrow> count_event (rmm_Namespace r) (rmm_Name r) ev ''success'' c)"

definition processed :: "'api api_client \<Rightarrow> event_env \<Rightarrow> string \<Rightarrow> monitor \<Rightarrow> 'api controller \<Rightarrow> 'api controller" where
  "processed cl env ev r c =
     (case processEvent cl env ev r c of
        (c, True) \<Rightarrow> count_event (rmm_Namespace r) (rmm_Name r) ev ''failed'' c
      | (c, False) \<Rightarrow> finished cl env ev r c)"

lemma handleEvent_processed:
  "handleEvent cl env ev obj c =
     (case validateAndPrepareResource cl env (Some obj) ev c of
        (c, None) \<Rightarrow> count_event (rmm_Namespace obj) (rmm_Name obj) ev ''failed'' c
      | (c, Some r) \<Rightarrow> processed cl env ev r c)"
proof (cases "validateAndPrepareResource cl env (Some obj) ev c")
  case (Pair c1 res)
  then show ?thesis by (cases res) (simp_all add: handleEvent_def processed_def finished_def)
qed

lemma finished_pending:
  "finished cl env ev r (c\<lparr>cn_pending := ps\<rparr>) = (finished cl env ev r c)\<lparr>cn_pending := ps\<rparr>"
  "cn_pending (finished cl env ev r c) = cn_pending c"
  unfolding finished_def finish_pending by (auto dest: emitSuccess_pending split: prod.split option.split)

lemma alone_count:
  "alone (c_count r ev st p) t p (on_ctl (count_event (rmm_Namespace r) (rmm_Name r) ev st) t)"
  "view (on_ctl (count_event (rmm_Namespace r) (rmm_Name r) ev st) t)
     = count_event (rmm_Namespace r) (rmm_Name r) ev st (view t)"
  unfolding c_count_def by (intro alone_poke alone.here view_on_ctl | simp add: count_event_def)+

lemma alone_processEvent:
  assumes "conc_inv s"
  shows "\<exists>s'. alone (c_processEvent cl env ev r) s Done s' \<and> view s' = processed cl env ev r (view s)"
proof -
  consider (put) "ev = event_string AddEvent \<or> ev = event_string UpdateEvent"
    | (del) "ev = event_string DeleteEvent" "\<not> (ev = event_string AddEvent \<or> ev = event_string UpdateEvent)"
    | (other) "ev \<noteq> event_string DeleteEvent" "\<not> (ev = event_string AddEvent \<or> ev = event_string UpdateEvent)"
    by blast
  then show ?thesis
  proof cases
    case put
    let ?fin = "c_finish cl env ev r (close_emitDone r)"
    let ?f = "\<lambda>c. c\<lparr>cn_pending := cn_pending c @ [r]\<rparr>"
    obtain s2 where a: "alone (c_processAddOrUpdate env r ?fin) s ?fin s2"
        "?f (view s2) = processAddOrUpdate env r (view s)"
      using alone_processAddOrUpdate [OF assms, of env r ?fin] by blast
    obtain s3 where f: "alone ?fin s2 (close_emitDone r) s3" "view s3 = finished cl env ev r (view s2)"
      unfolding finished_def using alone_finish [of cl env ev r "close_emitDone r" s2] by blast
    have "alone (close_emitDone r) s3 Done (on_ctl ?f s3)"
      unfolding close_emitDone_def by (intro alone_poke alone.here)
    from alone_trans [OF a(1) alone_trans [OF f(1) this]] put
    have "alone (c_processEvent cl env ev r) s Done (on_ctl ?f s3)" by (auto simp: c_processEvent_def)
    moreover have "view (on_ctl ?f s3) = ?f (view s3)" by (rule view_on_ctl) simp
    moreover have "processed cl env ev r (view s) = finished cl env ev r (?f (view s2))"
      unfolding a(2) using put by (auto simp: processed_def processEvent_def)
    ultimately show ?thesis using f(2) by (intro exI [of _ "on_ctl ?f s3"]) (simp add: finished_pending)
  next
    case del
    let ?fin = "c_finish cl env ev r Done"
    obtain s2 where a: "alone (c_processDelete r ?fin) s ?fin s2" "view s2 = processDelete r (view s)"
      using alone_processDelete [of r ?fin s] by blast
    obtain s3 where f: "alone ?fin s2 Done s3" "view s3 = finished cl env ev r (view s2)"
      unfolding finished_def using alone_finish [of cl env ev r Done s2] by blast
    from alone_trans [OF a(1) f(1)] del have "alone (c_processEvent cl env ev r) s Done s3"
      by (simp add: c_processEvent_def)
    with del a(2) f(2) show ?thesis
      by (intro exI [of _ s3]) (simp add: processed_def processEvent_def)
  next
    case other
    let ?c2 = "c_count r ev ''failed'' Done"
    let ?c1 = "c_count r ev ''failed'' ?c2"
    obtain s2 where a: "alone (c_emitFailure cl env r (''Unknown event type: '' @ ev) ?c1) s ?c1 s2"
        "emitFailure cl env r (''Unknown event type: '' @ ev) (view s) = view s2"
      using alone_emitFailure [of cl env r "''Unknown event type: '' @ ev" ?c1 s] by blast
    let ?cnt = "on_ctl (count_event (rmm_Namespace r) (rmm_Name r) ev ''failed'')"
    have "alone (c_processEvent cl env ev r) s Done (?cnt (?cnt s2))"
      using alone_trans [OF a(1) alone_trans [OF alone_count(1) alone_count(1)]] other
      by (simp add: c_processEvent_def)
    with other a(2) show ?thesis
      by (intro exI [of _ "?cnt (?cnt s2)"]) (simp add: processed_def processEvent_def alone_count(2) Let_def)
  qed
qed

lemma alone_handleEvent:
  assumes "conc_inv s"
  shows "\<exists>s'. alone (c_handleEvent cl env ev obj) s Done s' \<and> view s' = handleEvent cl env ev obj (view s)"
proof -
  let ?k = "\<lambda>res. case res of None \<Rightarrow> c_count obj ev ''failed'' Done | Some r \<Rightarrow> c_processEvent cl env ev r"
  obtain s1 res where v: "alone (c_handleEvent cl env ev obj) s (?k res) s1"
      "validateAndPrepareResource cl env (Some obj) ev (view s) = (view s1, res)"
    unfolding c_handleEvent_def using alone_validate [of cl env obj ev ?k s] by blast
  show ?thesis
  proof (cases res)
    case None
    have "alone (c_count obj ev ''failed'' Done) s1 Done (on_ctl (count_event (rmm_Namespace obj) (rmm_Name obj) ev ''failed'') s1)"
      by (rule alone_count)
    with v None alone_trans [OF v(1)] show ?thesis
      by (intro exI conjI) (auto simp: handleEvent_processed alone_count(2))
  next
    case (Some r)
    have "conc_inv s1" using safe_alone [OF v(1) safe_handleEvent assms] by blast
    from alone_processEvent [OF this, of cl env ev r] v Some alone_trans [OF v(1)] show ?thesis
      by (auto simp: handleEvent_processed)
  qed
qed

lemma alone_worker:
  assumes "conc_inv s"
  shows "\<exists>s'. alone (c_worker cl env kl lister item) s Done s'
     \<and> view s' = fst (processNextWorkItem cl env kl lister (Some item) (view s))"
  using alone_handleEvent [OF assms] alone.here [of Done s]
  by (cases item) (auto simp: c_worker_def processNextWorkItem_def syncHandler_def handle_monitor_def
      split: option.split lister_result.split prod.split bool.split)

section \<open>A status goroutine that is not interrupted\<close>

lemma at_on_store:
  "a < length (sh_heap s) \<Longrightarrow> i < length (sh_heap s ! a) \<Longrightarrow> at_store a i (on_store a i f s) = f (at_store a i s)"
  by (simp add: at_store_def on_store_def)

lemma on_on_store:
  "a < length (sh_heap s) \<Longrightarrow> i < length (sh_heap s ! a)
    \<Longrightarrow> on_store a i g (on_store a i f s) = on_store a i (\<lambda>st. g (f st)) s"
  by (simp add: on_store_def)

lemma on_store_range [simp]:
  "length (sh_heap (on_store a i f s) ! b) = length (sh_heap s ! b)"
  by (cases "b < length (sh_heap s)"; cases "a = b")
    (simp_all add: on_store_def list_update_beyond)

text \<open>Setting the flags one by one.\<close>

lemma fold_update_map:
  "n \<le> length xs \<Longrightarrow> fold (\<lambda>j xs. xs[j := g (xs ! j)]) [0..<n] xs = map g (take n xs) @ drop n xs"
proof (induction n)
  case (Suc n)
  then have "(map g (take n xs) @ drop n xs)[n := g ((map g (take n xs) @ drop n xs) ! n)]
      = map g (take n xs) @ (drop n xs)[0 := g (xs ! n)]"
    by (simp add: list_update_append nth_append min_absorb2)
  also have "\<dots> = map g (take (Suc n) xs) @ drop (Suc n) xs"
    using Suc.prems by (simp add: take_Suc_conv_app_nth Cons_nth_drop_Suc [symmetric])
  finally show ?case using Suc by simp
qed simp

lemma alone_set_cutoffs:
  assumes "a < length (sh_heap s)" "i < length (sh_heap s ! a)" "so_cardinalityTracker (at_store a i s) = Some ct"
  shows "alone (c_set_cutoffs a i js p) s p
    (on_store a i (\<lambda>st. st\<lparr>so_Families := fold (\<lambda>j fs. fs[j := SetCutoff (IsFamilyCutoff ct (fs_Name (fs ! j))) (fs ! j)])
        js (so_Families st)\<rparr>) s)"
  using assms
proof (induction js arbitrary: s)
  case Nil
  then have "on_store a i (\<lambda>st. st) s = s" by (simp add: on_store_def)
  then show ?case by (simp add: alone.here)
next
  case (Cons j js)
  let ?g = "\<lambda>st. st\<lparr>so_Families := (so_Families st)[j := SetCutoff (IsFamilyCutoff ct (fs_Name (so_Families (at_store a i s) ! j)))
      (so_Families st ! j)]\<rparr>"
  let ?h = "\<lambda>st. st\<lparr>so_Families := (so_Families st)[j := SetCutoff (IsFamilyCutoff ct (fs_Name (so_Families st ! j)))
      (so_Families st ! j)]\<rparr>"
  have same: "on_store a i ?g s = on_store a i ?h s" by (simp add: on_store_def at_store_def)
  have "alone (c_set_cutoffs a i js p) (on_store a i ?h s) p
      (on_store a i (\<lambda>st. st\<lparr>so_Families := fold (\<lambda>j fs. fs[j := SetCutoff (IsFamilyCutoff ct (fs_Name (fs ! j))) (fs ! j)])
        js (so_Families st)\<rparr>) (on_store a i ?h s))"
    using Cons.prems by (intro Cons.IH) (simp_all add: at_on_store)
  then show ?case
    using Cons.prems
    by (auto simp: tracked_def on_on_store same intro!: alone_peek alone_poke)
qed

lemma alone_check:
  assumes "a < length (sh_heap s)" "i < length (sh_heap s ! a)" "so_cardinalityTracker (at_store a i s) = Some ct"
  shows "alone (c_checkAndApplyThresholds a i k) s (k (fst (checkAndApplyThresholds (at_store a i s))))
    (on_store a i (\<lambda>st. snd (checkAndApplyThresholds st)) s)"
proof -
  obtain vs ct' where c: "ct_CheckThresholds ct = (vs, ct')" by (cases "ct_CheckThresholds ct")
  define s1 where "s1 = on_store a i (\<lambda>st. st\<lparr>so_cardinalityTracker := Some ct'\<rparr>) s"
  have t: "track_check a i s = (s1, vs)" by (simp add: track_check_def assms(3) c s1_def)
  have at: "a < length (sh_heap s1)" "i < length (sh_heap s1 ! a)" "so_cardinalityTracker (at_store a i s1) = Some ct'"
    "so_Families (at_store a i s1) = so_Families (at_store a i s)"
    using assms by (simp_all add: s1_def at_on_store)
  let ?n = "length (so_Families (at_store a i s1))"
  let ?F = "\<lambda>st. st\<lparr>so_Families := fold (\<lambda>j fs. fs[j := SetCutoff (IsFamilyCutoff ct' (fs_Name (fs ! j))) (fs ! j)])
      [0..<?n] (so_Families st)\<rparr>"
  have "on_store a i ?F s1 = on_store a i (\<lambda>st. snd (checkAndApplyThresholds st)) s"
  proof -
    have "?F (at_store a i s1) = snd (checkAndApplyThresholds (at_store a i s))"
      using fold_update_map [of ?n "so_Families (at_store a i s1)" "\<lambda>f. SetCutoff (IsFamilyCutoff ct' (fs_Name f)) f"] assms
      by (simp add: checkAndApplyThresholds_def c at(4)) (simp add: s1_def at_on_store)
    then show ?thesis using assms(1,2) by (simp add: s1_def on_store_def at_store_def)
  qed
  moreover have "fst (checkAndApplyThresholds (at_store a i s)) = vs"
    by (simp add: checkAndApplyThresholds_def assms(3) c)
  moreover have "alone (c_set_cutoffs a i [0..<?n] (k vs)) s1 (k vs) (on_store a i ?F s1)"
    by (rule alone_set_cutoffs [OF at(1-3)])
  ultimately show ?thesis
    unfolding c_checkAndApplyThresholds_def by (auto intro!: alone_act alone_peek simp: t)
qed

definition set_list :: "nat \<Rightarrow> store list \<Rightarrow> 'api shared \<Rightarrow> 'api shared" where
  "set_list a ss s = s\<lparr>sh_heap := (sh_heap s)[a := ss]\<rparr>"

lemma alone_aggregate:
  assumes "a < length (sh_heap s)" and "sh_heap s ! a = pre @ xs" and "aggregate_stores r xs agg = (agg', ss')"
  shows "alone (c_aggregate r a [length pre..<length pre + length xs] agg k) s (k agg') (set_list a (pre @ ss') s)"
  using assms
proof (induction xs arbitrary: pre agg ss' s)
  case Nil
  then have "set_list a (pre @ ss') s = s" by (auto simp: set_list_def)
  with Nil show ?case by (simp add: alone.here)
next
  case (Cons st xs)
  let ?i = "length pre"
  have at: "at_store a ?i s = st" using Cons.prems(2) by (simp add: at_store_def)
  have range: "?i < length (sh_heap s ! a)" using Cons.prems(2) by simp
  have upt: "[?i..<?i + length (st # xs)] = ?i # [length (pre @ [st'])..<length (pre @ [st']) + length xs]" for st' :: store
    using upt_conv_Cons [of ?i "?i + length (st # xs)"] by simp
  obtain agg1 st1 where one: "aggregate_store r st agg = (agg1, st1)" by (cases "aggregate_store r st agg")
  obtain ss1 where rest: "aggregate_stores r xs agg1 = (agg', ss1)" and ss': "ss' = st1 # ss1"
    using Cons.prems(3) one by (auto simp: Let_def split: prod.splits)
  show ?case
  proof (cases "so_cardinalityTracker st")
    case None
    then have "agg1 = agg" "st1 = st" using one by (simp_all add: aggregate_store_def)
    moreover have "alone (c_aggregate r a [length (pre @ [st])..<length (pre @ [st]) + length xs] agg k) s (k agg')
        (set_list a ((pre @ [st]) @ ss1) s)"
      using Cons.prems(1,2) rest \<open>agg1 = agg\<close> by (intro Cons.IH) simp_all
    ultimately show ?thesis
      unfolding upt [of st] ss' by (auto simp: at None intro!: alone_peek)
  next
    case (Some ct)
    let ?chk = "checkAndApplyThresholds st"
    define s1 where "s1 = on_store a ?i (\<lambda>st. snd (checkAndApplyThresholds st)) s"
    have st1: "st1 = snd ?chk" using one Some by (simp add: aggregate_store_def Let_def split_def)
    have heap: "sh_heap s1 ! a = (pre @ [st1]) @ xs" "a < length (sh_heap s1)"
      using Cons.prems(1,2) at by (simp_all add: s1_def on_store_def at_store_def st1)
    have "set_list a ((pre @ [st1]) @ ss1) s1 = set_list a (pre @ ss') s"
      by (simp add: set_list_def s1_def on_store_def ss')
    then have ih: "alone (c_aggregate r a [length (pre @ [st1])..<length (pre @ [st1]) + length xs] agg1 k) s1 (k agg')
        (set_list a (pre @ ss') s)"
      using Cons.IH [OF heap(2,1) rest] by simp
    have chk: "alone (c_checkAndApplyThresholds a ?i k') s (k' (fst ?chk)) s1" for k'
      using alone_check [OF Cons.prems(1) range, of ct k'] by (simp add: at Some s1_def)
    have agg1: "agg1 = \<lparr>ag_totalCardinality = ag_totalCardinality agg + GetStoreTotal ct,
        ag_perStore = gm_put (GetStoreIdentifier st) (GetStoreTotal ct) (ag_perStore agg),
        ag_perStoreLimit = gm_put (GetStoreIdentifier st) (GetStoreThreshold ct) (ag_perStoreLimit agg),
        ag_perFamily = add_families (GetAllFamilyCardinalities ct) (ag_perFamily agg),
        ag_perFamilyLimit = max_limits (GetAllFamilyThresholds ct) (ag_perFamilyLimit agg),
        ag_cutoffFamilies = ag_cutoffFamilies agg @ GetCutoffFamilies ct,
        ag_violations = ag_violations agg @ map (\<lambda>v. v\<lparr>v_StoreName := GetStoreIdentifier st,
          v_RMMName := rmm_Name r, v_RMMNamespace := rmm_Namespace r\<rparr>) (fst ?chk)\<rparr>"
      using one Some by (simp add: aggregate_store_def Let_def split_def)
    show ?thesis
      unfolding upt [of st1] c_aggregate.simps
      by (rule alone_peek, simp only: at Some option.distinct if_False, (rule alone_peek)+, rule alone_trans [OF chk])
        (use ih in \<open>simp add: at tracked_def Some agg1\<close>)
  qed
qed

lemma alone_publish:
  "\<exists>s'. alone (c_publish cl env r agg) s Done s'
     \<and> view s' = (let m = UpdateResource (rmm_UID r) (ag_totalCardinality agg) (cn_manager (sh_ctl s));
           (vs, m) = gcm_CheckThresholds (rmm_UID r) 0 m;
           agg = agg\<lparr>ag_violations := ag_violations agg
             @ map (\<lambda>v. v\<lparr>v_RMMName := rmm_Name r, v_RMMNamespace := rmm_Namespace r\<rparr>) vs\<rparr>
         in fst (persistCardinalityStatus cl env r agg (recordCardinalityViolations r (ag_violations agg)
              (updateCardinalityMetrics r agg ((view s)\<lparr>cn_manager := m\<rparr>)))))"
proof -
  let ?m = "UpdateResource (rmm_UID r) (ag_totalCardinality agg) (cn_manager (sh_ctl s))"
  obtain vs m where g: "gcm_CheckThresholds (rmm_UID r) 0 ?m = (vs, m)" by (cases "gcm_CheckThresholds (rmm_UID r) 0 ?m")
  define agg' where "agg' = agg\<lparr>ag_violations := ag_violations agg
      @ map (\<lambda>v. v\<lparr>v_RMMName := rmm_Name r, v_RMMNamespace := rmm_Namespace r\<rparr>) vs\<rparr>"
  let ?u = "on_ctl (\<lambda>c. c\<lparr>cn_manager := UpdateResource (rmm_UID r) (ag_totalCardinality agg) (cn_manager c)\<rparr>) s"
  let ?s1 = "on_ctl (\<lambda>c. c\<lparr>cn_manager := m\<rparr>) ?u"
  define s2 where "s2 = on_ctl (recordCardinalityViolations r (ag_violations agg')) (on_ctl (updateCardinalityMetrics r agg') ?s1)"
  have v1: "view ?s1 = (view s)\<lparr>cn_manager := m\<rparr>" by (simp add: view_on_ctl)
  have v2: "view s2 = recordCardinalityViolations r (ag_violations agg') (updateCardinalityMetrics r agg' (view ?s1))"
    unfolding s2_def
    by (simp add: view_on_ctl recordCardinalityViolations_def updateCardinalityMetrics_def Let_def)
  have al: "alone (c_publish cl env r agg) s (c_emit cl (cardinality_patch env agg') r (\<lambda>_. Done)) s2"
    unfolding c_publish_def s2_def
    by (rule alone_poke, rule alone_act, simp add: g Let_def agg'_def [symmetric])
      (intro alone_poke alone.here)
  let ?a = "\<lambda>got. api_call (api_UpdateStatus cl) (cardinality_patch env agg' got)"
  have "\<exists>s'. alone (c_emit cl (cardinality_patch env agg') r (\<lambda>_. Done)) s2 Done s'
      \<and> view s' = fst (persistCardinalityStatus cl env r agg' (view s2))"
  proof (cases "api_Get cl (cn_api (sh_ctl s2)) (rmm_Namespace r) (rmm_Name r)")
    case None
    then show ?thesis
      by (intro exI [of _ s2]) (auto simp: c_emit_def c_Get_def persistCardinalityStatus_def intro!: alone_peek alone.here)
  next
    case (Some got)
    then show ?thesis
      by (intro exI [of _ "fst (?a got s2)"])
        (auto simp: c_emit_def c_Get_def persistCardinalityStatus_def view_api Let_def split_def
          intro!: alone_peek alone_act alone.here)
  qed
  with alone_trans [OF al] v1 v2 g show ?thesis by (auto simp: Let_def agg'_def)
qed

text \<open>Replacing the list at an address replaces the list of the one monitor that has it.\<close>

lemma view_set_list:
  assumes "conc_inv s" and "map_of (sh_map s) u = Some a"
  shows "view (set_list a ss s) = (view s)\<lparr>cn_stores := gm_put u ss (cn_stores (view s))\<rparr>"
proof -
  have "map (\<lambda>(u, b). (u, (h[a := ss]) ! b)) m = gm_put u ss (map (\<lambda>(u, b). (u, h ! b)) m)"
    if "map_of m u = Some a" "gm_ok m" "distinct (map snd m)" "\<forall>b \<in> snd ` set m. b < length h"
    for m :: "(uid, nat) gomap" and h :: "store list list"
    using that
  proof (induction m)
    case (Cons vb m)
    obtain v b where vb: "vb = (v, b)" by (cases vb)
    show ?case
    proof (cases "v = u")
      case True
      with Cons.prems vb have "\<forall>c \<in> snd ` set m. c \<noteq> a" by force
      then have "map (\<lambda>(u, b). (u, (h[a := ss]) ! b)) m = map (\<lambda>(u, b). (u, h ! b)) m" by auto
      with True Cons.prems vb show ?thesis by simp
    next
      case False
      then have m: "map_of m u = Some a" using Cons.prems(1) vb by simp
      then have "b \<noteq> a" using Cons.prems(3) vb by (force dest: map_of_SomeD)
      with False Cons m vb show ?thesis by simp
    qed
  qed simp
  from this [OF assms(2)] assms(1) show ?thesis
    by (simp add: view_def set_list_def conc_inv_def)
qed

lemma alone_status:
  assumes "conc_inv s"
  shows "\<exists>s'. alone (c_updateCardinalityStatus cl env r) s Done s'
     \<and> view s' = fst (updateCardinalityStatus cl env r (view s))"
proof (cases "stores_Load (rmm_UID r) s")
  case None
  then have "map_of (cn_stores (view s)) (rmm_UID r) = None"
    by (force simp: stores_Load_def map_of_eq_None_iff image_iff)
  with None show ?thesis
    unfolding c_updateCardinalityStatus_def
    by (intro exI [of _ s] conjI alone_peek) (simp_all add: alone.here updateCardinalityStatus_def)
next
  case (Some a)
  then have m: "map_of (sh_map s) (rmm_UID r) = Some a" by (simp add: stores_Load_def)
  then have a: "a < length (sh_heap s)" using assms by (force simp: conc_inv_def dest: map_of_SomeD)
  have load: "map_of (cn_stores (view s)) (rmm_UID r) = Some (sh_heap s ! a)"
    using m map_of_map [of "\<lambda>a. sh_heap s ! a" "sh_map s"] by simp
  obtain agg ss where g: "aggregate_stores r (sh_heap s ! a) empty_aggregation = (agg, ss)"
    by (cases "aggregate_stores r (sh_heap s ! a) empty_aggregation")
  let ?s1 = "set_list a ss s"
  have al: "alone (c_updateCardinalityStatus cl env r) s (c_publish cl env r agg) ?s1"
    using alone_aggregate [OF a, of "[]" "sh_heap s ! a" r empty_aggregation agg ss "c_publish cl env r"] g
    unfolding c_updateCardinalityStatus_def by (intro alone_peek) (simp add: Some alone_peek)
  obtain s' where p: "alone (c_publish cl env r agg) ?s1 Done s'"
     "view s' = (let m = UpdateResource (rmm_UID r) (ag_totalCardinality agg) (cn_manager (sh_ctl ?s1));
           (vs, m) = gcm_CheckThresholds (rmm_UID r) 0 m;
           agg = agg\<lparr>ag_violations := ag_violations agg
             @ map (\<lambda>v. v\<lparr>v_RMMName := rmm_Name r, v_RMMNamespace := rmm_Namespace r\<rparr>) vs\<rparr>
         in fst (persistCardinalityStatus cl env r agg (recordCardinalityViolations r (ag_violations agg)
              (updateCardinalityMetrics r agg ((view ?s1)\<lparr>cn_manager := m\<rparr>)))))"
    using alone_publish by blast
  have "sh_ctl ?s1 = sh_ctl s" by (simp add: set_list_def)
  then have "view s' = fst (updateCardinalityStatus cl env r (view s))"
    unfolding updateCardinalityStatus_def load option.case aggregateStoreCardinality_def g prod.case Let_def p(2) view_set_list [OF assms m]
    by (simp add: Let_def split_def \<open>sh_ctl ?s1 = sh_ctl s\<close>)
  with alone_trans [OF al p(1)] show ?thesis by blast
qed

end
