(* ===== verification/Schedules.thy ===== *)
theory Schedules
  imports Uninterrupted
begin

text \<open>
  What schedules of the workers, the status goroutines and the reflectors can do: the properties
  that hold under every schedule, the sequential runs among them, and the
  schedule that counts a monitor again after it was deleted.
\<close>

section \<open>Uninterrupted runs as schedules\<close>

lemma alone_works:
  assumes "alone p s q t" and "i < length ws" and "ws ! i = p"
  shows "(conc_step cl kl lib)\<^sup>*\<^sup>* (ws, gs, s, items) (ws[i := q], gs, t, items)"
  using assms
proof (induction arbitrary: ws rule: alone.induct)
  case (here p s)
  then show ?case using list_update_id [of ws i] by simp
next
  case (further f s q t)
  let ?ws = "ws[i := snd (f s)]"
  have "thread_step i (ws, s) = Some (?ws, fst (f s))" using further.prems by (simp add: thread_step_def)
  then have "conc_step cl kl lib (ws, gs, s, items) (?ws, gs, fst (f s), items)" by (rule conc_step.work)
  with further.IH [of ?ws] further.prems show ?case by (simp add: converse_rtranclp_into_rtranclp)
qed

lemma alone_publishes:
  assumes "alone p s q t" and "j < length gs" and "gs ! j = p"
  shows "(conc_step cl kl lib)\<^sup>*\<^sup>* (ws, gs, s, items) (ws, gs[j := q], t, items)"
  using assms
proof (induction arbitrary: gs rule: alone.induct)
  case (here p s)
  then show ?case using list_update_id [of gs j] by simp
next
  case (further f s q t)
  let ?gs = "gs[j := snd (f s)]"
  have "thread_step j (gs, s) = Some (?gs, fst (f s))" using further.prems by (simp add: thread_step_def)
  then have "conc_step cl kl lib (ws, gs, s, items) (ws, ?gs, fst (f s), items)" by (rule conc_step.status)
  with further.IH [of ?gs] further.prems show ?case by (simp add: converse_rtranclp_into_rtranclp)
qed

lemma reachable_run:
  assumes "(conc_step cl kl lib)\<^sup>*\<^sup>* x y" and "conc_reachable cl kl lib api d opt workers x"
  shows "conc_reachable cl kl lib api d opt workers y"
  using assms by (induction rule: rtranclp_induct) (auto intro: conc_reachable.step)

text \<open>The monitors of the view.\<close>

lemma view_load:
  "map_of (cn_stores (view s)) u = map_option (\<lambda>a. sh_heap s ! a) (stores_Load u s)"
  using map_of_map [of "\<lambda>a. sh_heap s ! a" "sh_map s"] by (simp add: stores_Load_def)

lemma step_is_schedule:
  assumes "ctl_step cl kl lib (view s, items) (c', items')"
    and "conc_inv s" and "0 < workers" and "ws = replicate workers Done" and "set gs \<subseteq> {Done}"
  shows "\<exists>gs' s'. (conc_step cl kl lib)\<^sup>*\<^sup>* (ws, gs, s, items) (ws, gs', s', items') \<and> view s' = c' \<and> set gs' \<subseteq> {Done}"
  using assms(1)
proof (cases rule: ctl_step_cases)
  case (informer e)
  then have "conc_step cl kl lib (ws, gs, s, items) (ws, gs, s, items')" by (simp add: conc_step.informer)
  with informer assms(5) show ?thesis by blast
next
  case (work item env lister calls continue)
  let ?p = "c_worker cl env kl lister item"
  obtain s' where s': "alone ?p s Done s'" "view s' = c'"
    using alone_worker [OF assms(2), of cl env kl lister item] work by auto
  have "conc_step cl kl lib (ws, gs, s, items) (ws[0 := ?p], gs, s, items)"
    using work assms(3,4) by (intro conc_step.take_item) simp_all
  moreover have "(conc_step cl kl lib)\<^sup>*\<^sup>* (ws[0 := ?p], gs, s, items) (ws[0 := ?p, 0 := Done], gs, s', items)"
    using assms(3,4) by (intro alone_works [OF s'(1)]) simp_all
  moreover have "ws[0 := ?p, 0 := Done] = ws" using assms(3,4) by (cases workers) simp_all
  ultimately show ?thesis using s'(2) work assms(5) by (auto intro: converse_rtranclp_into_rtranclp)
next
  case (reflect u ss i e st)
  then obtain a where a: "stores_Load u s = Some a" "ss = sh_heap s ! a"
    using view_load [of s u] by (auto simp del: view_fields)
  then have m: "map_of (sh_map s) u = Some a" by (simp add: stores_Load_def)
  then have "a < length (sh_heap s)" using assms(2) by (force simp: conc_inv_def dest: map_of_SomeD)
  then have "conc_step cl kl lib (ws, gs, s, items) (ws, gs, on_store a i (\<lambda>_. st) s, items)"
    using reflect a by (intro conc_step.reflect) (simp_all add: at_store_def)
  moreover have "on_store a i (\<lambda>_. st) s = set_list a (ss[i := st]) s" by (simp add: on_store_def set_list_def a)
  moreover have "view (set_list a (ss[i := st]) s) = c'" using view_set_list [OF assms(2) m] reflect by simp
  ultimately show ?thesis using reflect assms(5) by auto
next
  case (status r env err)
  let ?f = "\<lambda>c. c\<lparr>cn_pending := remove1 r (cn_pending c)\<rparr>"
  let ?p = "c_updateCardinalityStatus cl env r"
  have "conc_inv (on_ctl ?f s)" using assms(2) by (simp add: inv_ctl_same)
  moreover have "view (on_ctl ?f s) = ?f (view s)" by (rule view_on_ctl) simp
  ultimately obtain s' where s': "alone ?p (on_ctl ?f s) Done s'" "view s' = c'"
    using alone_status [of "on_ctl ?f s" cl env r] status by auto
  have "conc_step cl kl lib (ws, gs, s, items) (ws, gs @ [?p], on_ctl ?f s, items)"
    using status by (intro conc_step.spawn) simp
  moreover have "(conc_step cl kl lib)\<^sup>*\<^sup>* (ws, gs @ [?p], on_ctl ?f s, items) (ws, (gs @ [?p])[length gs := Done], s', items)"
    by (intro alone_publishes [OF s'(1)]) simp_all
  ultimately show ?thesis using s'(2) status assms(5)
    by (intro exI [of _ "gs @ [Done]"] exI [of _ s']) (simp add: converse_rtranclp_into_rtranclp)
qed

lemma schedule_of:
  assumes "ctl_reachable cl kl lib api d opt x" and "index_sorter (SortIndices lib)" and "0 < workers"
  shows "\<exists>gs s. conc_reachable cl kl lib api d opt workers (replicate workers Done, gs, s, snd x) \<and> view s = fst x
     \<and> set gs \<subseteq> {Done}"
  using assms(1)
proof (induction rule: ctl_reachable.induct)
  case start
  have "view (shared_start api d opt) = running_controller api d opt"
    by (simp add: view_def shared_start_def running_controller_defs)
  then show ?case using conc_reachable.start [of cl kl lib api d opt workers]
    by (intro exI [of _ "[]"] exI [of _ "shared_start api d opt"]) simp
next
  case (step x y)
  then obtain gs s where s: "conc_reachable cl kl lib api d opt workers (replicate workers Done, gs, s, snd x)"
      "view s = fst x" "set gs \<subseteq> {Done}" by blast
  obtain gs' s' where "(conc_step cl kl lib)\<^sup>*\<^sup>* (replicate workers Done, gs, s, snd x) (replicate workers Done, gs', s', snd y)"
      "view s' = fst y" "set gs' \<subseteq> {Done}"
    using step_is_schedule [of cl kl lib s "snd x" "fst y" "snd y" workers _ gs] s(2,3) step.hyps(2)
      conc_reachable_safe [OF s(1) assms(2)] assms(3) by auto
  with reachable_run [OF _ s(1)] show ?case by blast
qed

section \<open>Who is counted\<close>

text \<open>Without interleaving, a monitor that counts has stores.\<close>

definition counted_have_stores :: "'api controller \<Rightarrow> bool" where
  "counted_have_stores c \<longleftrightarrow>
     (\<forall>u. map_of (gcm_perResource (cn_manager c)) u \<noteq> None \<longrightarrow> map_of (cn_stores c) u \<noteq> None)"

lemma counted_status:
  assumes "counted_have_stores c" and "updateCardinalityStatus cl env r c = (c', err)"
  shows "counted_have_stores c'"
proof (cases "map_of (cn_stores c) (rmm_UID r)")
  case None
  with assms show ?thesis by (simp add: updateCardinalityStatus_def)
next
  case (Some ss)
  from assms(1) updateCardinalityStatus_fields [OF Some assms(2)] show ?thesis
    by (auto simp: counted_have_stores_def status_manager_def)
qed

interpretation served: controller_invariant counted_have_stores lib for lib :: "'m metric_lib_scheme"
proof unfold_locales
  fix c :: "'a controller" and env r
  assume "counted_have_stores c"
  then show "counted_have_stores (processAddOrUpdate env r c)"
    using processAddOrUpdate_eq [of env r c] by (auto simp: counted_have_stores_def)
next
  fix c c' :: "'a controller" and cl env r err
  assume "counted_have_stores c" and "updateCardinalityStatus cl env r c = (c', err)"
  then show "counted_have_stores c'" by (rule counted_status)
qed (auto simp: counted_have_stores_def processDelete_def count_event_def Let_def)

lemma counted_reachable:
  assumes "ctl_reachable cl kl (lib :: 'm metric_lib_scheme) api d opt x" and "index_sorter (SortIndices lib)"
  shows "counted_have_stores (fst x)"
  by (rule served.keeps_reachable [OF assms])
    (simp add: counted_have_stores_def running_controller_defs NewGlobalCardinalityManager_def)

section \<open>Properties\<close>

text \<open>C15: what holds whatever the schedule. With any number of workers, any status goroutines and the
  reflectors of all lists, those of monitors that are deleted or rebuilt too, interleaved action
  by action, at every moment the data of every store agree with its tracker, the stores of a list
  have distinct identifiers, no list belongs to two monitors, and the global total is the sum
  over the monitors.\<close>

theorem concurrent_consistent:
  assumes "conc_reachable cl kl lib api d opt workers (ws, gs, s, items)" and "index_sorter (SortIndices lib)"
  shows "(\<forall>ss \<in> set (sh_heap s). list_all store_data ss \<and> distinct (map GetStoreIdentifier ss))
     \<and> (\<forall>u u' a. stores_Load u s = Some a \<and> stores_Load u' s = Some a \<longrightarrow> u = u' \<and> a < length (sh_heap s))
     \<and> GetGlobalTotal (cn_manager (sh_ctl s)) = gm_sum (\<lambda>n. n) (gcm_perResource (cn_manager (sh_ctl s)))"
proof -
  have inv: "conc_inv s" using conc_reachable_safe [OF assms] by blast
  have "u = u' \<and> a < length (sh_heap s)" if "stores_Load u s = Some a" "stores_Load u' s = Some a" for u u' a
  proof -
    have mem: "(u, a) \<in> set (sh_map s)" "(u', a) \<in> set (sh_map s)"
      using that by (simp_all add: stores_Load_def map_of_SomeD)
    have "inj_on snd (set (sh_map s))" using inv by (simp add: conc_inv_def distinct_map)
    from inj_onD [OF this _ mem] mem inv show ?thesis by (force simp: conc_inv_def)
  qed
  with inv show ?thesis by (auto simp: conc_inv_def lists_ok_def gcm.balanced_def GetGlobalTotal_def)
qed

lemma demo_schedule:
  "\<exists>gs s a. conc_reachable echo_client demo_keys (demo_lib GNil) (demo_monitor []) demo_cluster opt 2
       ([Done, Done], gs, s, [(''ns/n'', ''addEvent'')])
     \<and> stores_Load ''u'' s = Some a \<and> conc_inv s"
proof -
  let ?c = "handleEvent echo_client demo_event_env ''addEvent'' (demo_monitor []) (demo_controller_with opt)"
  obtain gs s where s: "conc_reachable echo_client demo_keys (demo_lib GNil) (demo_monitor []) demo_cluster opt 2
      (replicate 2 Done, gs, s, [(''ns/n'', ''addEvent'')])" "view s = ?c"
    using schedule_of [OF demo_reachable demo_sorter, of 2 opt] by auto
  obtain ss where "map_of (cn_stores (view s)) ''u'' = Some ss" using demo_handles s(2) by auto
  then obtain a where "stores_Load ''u'' s = Some a" using view_load [of s "''u''"] by (auto simp del: view_fields)
  with s conc_reachable_safe [OF s(1) demo_sorter] show ?thesis by (auto simp: numeral_2_eq_2)
qed

theorem concurrent_consistent_witness:
  "\<exists>gs s items. conc_reachable echo_client demo_keys (demo_lib GNil) (demo_monitor []) demo_cluster demo_options 2 ([Done, Done], gs, s, items)
     \<and> stores_Load ''u'' s \<noteq> None \<and> (\<forall>ss \<in> set (sh_heap s). list_all store_data ss)"
proof -
  obtain gs s a where s: "conc_reachable echo_client demo_keys (demo_lib GNil) (demo_monitor []) demo_cluster demo_options 2
      ([Done, Done], gs, s, [(''ns/n'', ''addEvent'')])" "stores_Load ''u'' s = Some a"
    using demo_schedule by blast
  from concurrent_consistent [OF s(1) demo_sorter] s show ?thesis by blast
qed

text \<open>C17: the sequential model is a special schedule. Every run of it is a run of the interleaved one,
  with any number of workers, that ends with all of them idle and in a shared state that stands
  for the same controller; and from there a worker or a status goroutine that is not interrupted
  does to that controller what \<open>processNextWorkItem\<close> or \<open>updateCardinalityStatus\<close> does.\<close>

theorem sequential_runs_are_schedules:
  assumes "ctl_reachable cl kl lib api d opt (c, items)" and "index_sorter (SortIndices lib)" and "0 < workers"
  shows "\<exists>gs s. conc_reachable cl kl lib api d opt workers (replicate workers Done, gs, s, items)
     \<and> set gs \<subseteq> {Done} \<and> view s = c
     \<and> (\<forall>env lister item. view (run (c_worker cl env kl lister item) s)
          = fst (processNextWorkItem cl env kl lister (Some item) c))
     \<and> (\<forall>env r. view (run (c_updateCardinalityStatus cl env r) s) = fst (updateCardinalityStatus cl env r c))"
proof -
  obtain gs s where s: "conc_reachable cl kl lib api d opt workers (replicate workers Done, gs, s, items)"
      "view s = c" "set gs \<subseteq> {Done}"
    using schedule_of [OF assms] by auto
  have inv: "conc_inv s" using conc_reachable_safe [OF s(1) assms(2)] by blast
  have "view (run (c_worker cl env kl lister item) s) = fst (processNextWorkItem cl env kl lister (Some item) c)"
    for env lister item
    using alone_worker [OF inv, of cl env kl lister item] s(2) by (auto dest: alone_run)
  moreover have "view (run (c_updateCardinalityStatus cl env r) s) = fst (updateCardinalityStatus cl env r c)" for env r
    using alone_status [OF inv, of cl env r] s(2) by (auto dest: alone_run)
  ultimately show ?thesis using s by blast
qed

theorem sequential_runs_are_schedules_witness:
  "\<exists>gs s. conc_reachable echo_client demo_keys (demo_lib GNil) (demo_monitor []) demo_cluster demo_options 3
       (replicate 3 Done, gs, s, [(''ns/n'', ''addEvent'')])
     \<and> view s = handleEvent echo_client demo_event_env ''addEvent'' (demo_monitor []) demo_controller"
  using sequential_runs_are_schedules [OF demo_reachable demo_sorter, of 3 demo_options] by auto

text \<open>Without interleaving, only monitors with stores count: in a state the sequential model can
  reach, a monitor that has no stores has no cardinality, and adds nothing to the global total.\<close>

theorem only_served_monitors_count:
  assumes "ctl_reachable cl kl (lib :: 'm metric_lib_scheme) api d opt (c, items)" and "index_sorter (SortIndices lib)"
    and "map_of (cn_stores c) u = None"
  shows "GetResourceCardinality (cn_manager c) u = 0 \<and> GetGlobalTotal (DeleteResource u (cn_manager c)) = GetGlobalTotal (cn_manager c)"
proof -
  have "map_of (gcm_perResource (cn_manager c)) u = None"
    using counted_reachable [OF assms(1,2)] assms(3) by (auto simp: counted_have_stores_def)
  then show ?thesis
    by (simp add: GetResourceCardinality_def gm_get_def DeleteResource_def GetGlobalTotal_def Let_def)
qed

theorem only_served_monitors_count_witness:
  "GetResourceCardinality (cn_manager (running_controller (demo_monitor []) demo_cluster demo_options)) ''u'' = 0"
proof -
  have reach: "ctl_reachable echo_client demo_keys (demo_lib GNil) (demo_monitor []) demo_cluster demo_options (demo_controller, [])"
    by (rule ctl_reachable.start)
  have "map_of (cn_stores demo_controller) ''u'' = None" by (simp add: running_controller_defs)
  from only_served_monitors_count [OF reach demo_sorter this] show ?thesis by simp
qed

text \<open>C16: with interleaving, a deleted monitor can count for ever. When a status goroutine has loaded
  the stores before a worker removes the monitor, the removal takes them out of the map and the
  monitor out of the manager, and the goroutine then puts back what it had added up: nothing is
  served for the monitor any more, yet it counts, and no later status of it corrects that, for
  there is nothing to load. The sequential model cannot do this
  (\<open>only_served_monitors_count\<close>).\<close>

theorem late_status_counts_deleted:
  assumes "i < length ws" and "ws ! i = c_processDelete r p"
    and "j < length gs" and "gs ! j = c_updateCardinalityStatus cl env r"
    and "stores_Load (rmm_UID r) s = Some a" and "a < length (sh_heap s)"
    and "aggregateStoreCardinality r (sh_heap s ! a) = (agg, ss)"
  shows "\<exists>s'. (conc_step cl kl lib)\<^sup>*\<^sup>* (ws, gs, s, items) (ws[i := p], gs[j := Done], s', items)
     \<and> stores_Load (rmm_UID r) s' = None
     \<and> GetResourceCardinality (cn_manager (sh_ctl s')) (rmm_UID r) = ag_totalCardinality agg
     \<and> updateCardinalityStatus cl env' r (view s') = (view s', False)"
proof -
  let ?gs = "gs[j := c_publish cl env r agg]"
  define s1 where "s1 = set_list a ss s"
  have "alone (c_updateCardinalityStatus cl env r) s (c_publish cl env r agg) s1"
    using alone_aggregate [OF assms(6), of "[]" "sh_heap s ! a" r empty_aggregation agg ss "c_publish cl env r"] assms(7)
    unfolding c_updateCardinalityStatus_def aggregateStoreCardinality_def s1_def
    by (intro alone_peek) (simp add: assms(5) alone_peek)
  from alone_publishes [OF this assms(3,4)]
  have run1: "(conc_step cl kl lib)\<^sup>*\<^sup>* (ws, gs, s, items) (ws, ?gs, s1, items)" .
  obtain s2 where s2: "alone (c_processDelete r p) s1 p s2" "view s2 = processDelete r (view s1)"
    using alone_processDelete by blast
  from alone_works [OF s2(1) assms(1,2)]
  have run2: "(conc_step cl kl lib)\<^sup>*\<^sup>* (ws, ?gs, s1, items) (ws[i := p], ?gs, s2, items)" .
  obtain s3 where s3: "alone (c_publish cl env r agg) s2 Done s3"
    "view s3 = (let m = UpdateResource (rmm_UID r) (ag_totalCardinality agg) (cn_manager (sh_ctl s2));
           (vs, m) = gcm_CheckThresholds (rmm_UID r) 0 m;
           agg = agg\<lparr>ag_violations := ag_violations agg
             @ map (\<lambda>v. v\<lparr>v_RMMName := rmm_Name r, v_RMMNamespace := rmm_Namespace r\<rparr>) vs\<rparr>
         in fst (persistCardinalityStatus cl env r agg (recordCardinalityViolations r (ag_violations agg)
              (updateCardinalityMetrics r agg ((view s2)\<lparr>cn_manager := m\<rparr>)))))"
    using alone_publish by blast
  have run3: "(conc_step cl kl lib)\<^sup>*\<^sup>* (ws[i := p], ?gs, s2, items) (ws[i := p], gs[j := Done], s3, items)"
    using alone_publishes [OF s3(1), of j ?gs cl kl lib "ws[i := p]" items] assms(3) by simp
  note keep = same_but_api_fields [OF persist_keeps [OF prod.collapse [symmetric]]]
  have "cn_stores (view s3) = cn_stores (view s2)"
    unfolding s3(2) by (simp add: Let_def split_def keep)
  moreover have "map_of (cn_stores (view s2)) (rmm_UID r) = None"
    unfolding s2(2) by (simp add: processDelete_def Let_def)
  ultimately have none: "map_of (cn_stores (view s3)) (rmm_UID r) = None" by simp
  have "cn_manager (view s3) = snd (gcm_CheckThresholds (rmm_UID r) 0
      (UpdateResource (rmm_UID r) (ag_totalCardinality agg) (cn_manager (sh_ctl s2))))"
    unfolding s3(2) by (simp add: Let_def split_def keep)
  then have "GetResourceCardinality (cn_manager (sh_ctl s3)) (rmm_UID r) = ag_totalCardinality agg"
    by (simp add: GetResourceCardinality_def)
  moreover have "stores_Load (rmm_UID r) s3 = None" using none by (simp add: view_load del: view_fields)
  moreover have "updateCardinalityStatus cl env' r (view s3) = (view s3, False)"
    using none by (simp add: updateCardinalityStatus_def del: view_fields)
  ultimately show ?thesis using run1 run2 run3 by (meson rtranclp_trans)
qed

text \<open>The monitor of \<open>crowded_controller\<close>, which counts five.\<close>

theorem late_status_counts_deleted_witness:
  "\<exists>s s'. (conc_step echo_client demo_keys (demo_lib GNil))\<^sup>*\<^sup>*
       ([c_processDelete (demo_monitor []) Done], [c_updateCardinalityStatus echo_client demo_event_env (demo_monitor [])], s, [])
       ([Done], [Done], s', [])
     \<and> view s = crowded_controller \<and> stores_Load ''u'' s' = None
     \<and> GetResourceCardinality (cn_manager (sh_ctl s')) ''u'' = 5"
proof -
  let ?ss = "snd (hd (cn_stores crowded_controller))"
  define s where "s = \<lparr>sh_ctl = crowded_controller, sh_heap = [?ss], sh_map = [(''u'', 0)]\<rparr>"
  have view: "view s = crowded_controller" by (simp add: s_def view_def crowded_controller_def)
  obtain agg ss where agg: "aggregateStoreCardinality (demo_monitor []) ?ss = (agg, ss)"
    by (cases "aggregateStoreCardinality (demo_monitor []) ?ss")
  have total: "GetStoreTotal (ct_Update ''o'' [(''m'', 5)] (NewCardinalityTracker 0 f64_0_8)) = 5"
    by (simp add: GetStoreTotal_def ct_Update_def NewCardinalityTracker_def Let_def)
  have five: "ag_totalCardinality agg = 5"
    using agg total by (auto simp: empty_aggregation_def crowded_controller_def aggregateStoreCardinality_def aggregate_store_def Let_def split_def)
  have uid: "rmm_UID (demo_monitor []) = ''u''" by (simp add: demo_monitor_def)
  then have load: "stores_Load (rmm_UID (demo_monitor [])) s = Some 0" by (simp add: s_def stores_Load_def)
  have heap: "0 < length (sh_heap s)" "aggregateStoreCardinality (demo_monitor []) (sh_heap s ! 0) = (agg, ss)"
    using agg by (simp_all add: s_def)
  from late_status_counts_deleted [of 0 "[c_processDelete (demo_monitor []) Done]" _ Done 0
      "[c_updateCardinalityStatus echo_client demo_event_env (demo_monitor [])]" echo_client demo_event_env,
      OF _ _ _ _ load heap, of demo_keys "demo_lib GNil" "[]"]
  have "\<exists>s'. (conc_step echo_client demo_keys (demo_lib GNil))\<^sup>*\<^sup>*
       ([c_processDelete (demo_monitor []) Done], [c_updateCardinalityStatus echo_client demo_event_env (demo_monitor [])], s, [])
       ([Done], [Done], s', [])
     \<and> stores_Load ''u'' s' = None \<and> GetResourceCardinality (cn_manager (sh_ctl s')) ''u'' = ag_totalCardinality agg"
    unfolding uid by auto
  with five view show ?thesis by auto
qed

text \<open>C26: a family can stay cut off against its tracker. The status goroutine checks the thresholds
  without the mutex of the store. When it has read that the only family of a store is cut off,
  and an event then brings the family below its limit, the event resets the flag and the
  goroutine sets it again: the tracker says that the family is not cut off, the flag says that it
  is, and the next object is stored with an empty text. The data of the store stay in order
  (\<open>concurrent_consistent\<close>); what is lost is that the flags are those of the tracker.\<close>

theorem status_sets_stale_cutoff:
  assumes "j < length gs" and "gs ! j = c_checkAndApplyThresholds a i k"
    and "a < length (sh_heap s)" and "i < length (sh_heap s ! a)"
    and "so_cardinalityTracker (at_store a i s) = Some ct" and "so_Families (at_store a i s) = [f]"
    and "IsFamilyCutoff (snd (ct_CheckThresholds ct)) (fs_Name f)"
    and "store_step lib e ((at_store a i s)\<lparr>so_cardinalityTracker := Some (snd (ct_CheckThresholds ct))\<rparr>) = Some st"
    and "so_cardinalityTracker st = Some ct'" and "so_Families st = [f']" and "\<not> IsFamilyCutoff ct' (fs_Name f')"
  shows "\<exists>s'. (conc_step cl kl lib)\<^sup>*\<^sup>* (ws, gs, s, items) (ws, gs[j := k (fst (ct_CheckThresholds ct))], s', items)
     \<and> so_cardinalityTracker (at_store a i s') = Some ct' \<and> so_Families (at_store a i s') = [SetCutoff True f']
     \<and> \<not> store_inv (at_store a i s')
     \<and> (\<forall>raw text n. buildMetricString lib (SetCutoff True f') raw = Some (text, n) \<longrightarrow> text = [])"
proof -
  obtain vs ct1 where c: "ct_CheckThresholds ct = (vs, ct1)" by (cases "ct_CheckThresholds ct")
  define s1 where "s1 = on_store a i (\<lambda>st. st\<lparr>so_cardinalityTracker := Some ct1\<rparr>) s"
  let ?set = "on_store a i (\<lambda>st. st\<lparr>so_Families := (so_Families st)[0 := SetCutoff True (so_Families st ! 0)]\<rparr>)"
  have t: "track_check a i s = (s1, vs)" by (simp add: track_check_def assms(5) c s1_def)
  have at1: "at_store a i s1 = (at_store a i s)\<lparr>so_cardinalityTracker := Some ct1\<rparr>"
    using assms(3,4) by (simp add: s1_def at_on_store)
  have "alone (c_checkAndApplyThresholds a i k) s (poke ?set (k vs)) s1"
    unfolding c_checkAndApplyThresholds_def using assms(6,7)
    by (intro alone_act alone_peek) (simp add: t at1 tracked_def c alone_peek alone.here)
  from alone_publishes [OF this assms(1,2)]
  have run1: "(conc_step cl kl lib)\<^sup>*\<^sup>* (ws, gs, s, items) (ws, gs[j := poke ?set (k vs)], s1, items)" .
  let ?s2 = "on_store a i (\<lambda>_. st) s1"
  have run2: "conc_step cl kl lib (ws, gs[j := poke ?set (k vs)], s1, items) (ws, gs[j := poke ?set (k vs)], ?s2, items)"
    using assms(3,4,8) by (intro conc_step.reflect) (simp_all add: at1 c s1_def [symmetric], simp_all add: s1_def)
  have "alone (poke ?set (k vs)) ?s2 (k vs) (?set ?s2)" by (intro alone_poke alone.here)
  from alone_publishes [OF this, of j "gs[j := poke ?set (k vs)]" cl kl lib ws items] assms(1)
  have run3: "(conc_step cl kl lib)\<^sup>*\<^sup>* (ws, gs[j := poke ?set (k vs)], ?s2, items) (ws, gs[j := k vs], ?set ?s2, items)" by simp
  have at3: "at_store a i (?set ?s2) = st\<lparr>so_Families := [SetCutoff True f']\<rparr>"
    using assms(3,4,10) by (simp add: at_on_store s1_def)
  moreover have "\<not> store_inv (st\<lparr>so_Families := [SetCutoff True f']\<rparr>)"
    using assms(9,11) by (simp add: store_inv_def IsCutoff_def SetCutoff_def)
  moreover have "\<forall>raw text n. buildMetricString lib (SetCutoff True f') raw = Some (text, n) \<longrightarrow> text = []"
    by (auto simp: buildMetricString_def IsCutoff_def SetCutoff_def split: option.splits)
  ultimately show ?thesis
    using run1 run2 run3 assms(9) c
    by (intro exI [of _ "?set ?s2"]) (auto intro: rtranclp_trans [OF rtranclp_trans [OF _ r_into_rtranclp]])
qed

text \<open>A family over its limit of one, whose only object is deleted between the two.\<close>

definition contested_tracker :: cardinality_tracker where
  "contested_tracker = SetFamilyThreshold ''m'' 1 (ct_Update ''a'' [(''m'', 2)] (NewCardinalityTracker 10 f64_0_8))"

definition contested_store :: store where
  "contested_store = demo_store\<lparr>so_metrics := [(''a'', [''text''])], so_cardinalityTracker := Some contested_tracker\<rparr>"

theorem status_sets_stale_cutoff_witness:
  "\<exists>s s'. (conc_step echo_client demo_keys (demo_lib GNil))\<^sup>*\<^sup>*
       ([], [c_checkAndApplyThresholds 0 0 (\<lambda>_. Done)], s, []) ([], [Done], s', [])
     \<and> store_data (at_store 0 0 s) \<and> \<not> store_inv (at_store 0 0 s')"
proof -
  define s where "s = \<lparr>sh_ctl = demo_controller, sh_heap = [[contested_store]], sh_map = [(''u'', 0)]\<rparr>"
  have at: "at_store 0 0 s = contested_store" by (simp add: s_def at_store_def)
  obtain f where f: "so_Families contested_store = [f]" "fs_Name f = ''m''"
    by (simp add: contested_store_def demo_store_def buildStore_def newStore_def SetCardinalityTracker_def Let_def demo_family_def)
  define ct1 where "ct1 = snd (ct_CheckThresholds contested_tracker)"
  define st where "st = fst (store_Delete (Some ''a'') (contested_store\<lparr>so_cardinalityTracker := Some ct1\<rparr>))"
  define ct2 where "ct2 = snd (ct_CheckThresholds (ct_Delete ''a'' ct1))"
  have fields: "ct_perFamily contested_tracker = [(''m'', 2)]" "ct_perObject contested_tracker = [(''a'', [(''m'', 2)])]"
    "ct_storeTotal contested_tracker = 2" "ct_storeThreshold contested_tracker = 10"
    "ct_familyThreshold contested_tracker = [(''m'', 1)]"
    by (simp_all add: contested_tracker_def SetFamilyThreshold_def ct_Update_def NewCardinalityTracker_def)
  have cut1: "IsFamilyCutoff ct1 ''m'' \<longleftrightarrow> sint (GetFamilyThreshold contested_tracker ''m'') < sint (2::int64)"
    unfolding ct1_def
    by (rule cutoff_exact) (simp_all add: fields GetFamilyThreshold_def GetStoreTotal_def GetStoreThreshold_def)
  have fields2: "ct_perFamily (ct_Delete ''a'' ct1) = [(''m'', 0)]" "ct_storeTotal (ct_Delete ''a'' ct1) = 0"
    "ct_storeThreshold ct1 = 10" "ct_familyThreshold ct1 = [(''m'', 1)]"
    by (simp_all add: ct1_def ct_Delete_def fields)
  have cut2: "IsFamilyCutoff ct2 ''m'' \<longleftrightarrow> sint (GetFamilyThreshold (ct_Delete ''a'' ct1) ''m'') < sint (0::int64)"
    unfolding ct2_def
    by (rule cutoff_exact) (simp_all add: fields2 GetFamilyThreshold_def GetStoreTotal_def GetStoreThreshold_def)
  have st: "so_cardinalityTracker st = Some ct2" "so_Families st = [SetCutoff (IsFamilyCutoff ct2 ''m'') f]"
    by (simp_all add: st_def store_Delete_def checkAndApplyThresholds_def Let_def split_def ct2_def f)
  have "fst ` set (so_metrics contested_store) = {''a''}" "gm_ok (so_metrics contested_store)"
    "so_cardinalityTracker contested_store = Some contested_tracker" "so_metrics contested_store = [(''a'', [''text''])]"
    by (simp_all add: contested_store_def)
  moreover have "ct_inv contested_tracker"
    using ct_inv_run [OF ct_inv_New, of "[TUpdate ''a'' [(''m'', 2)], TSetFamilyThreshold ''m'' 1]" 10 f64_0_8]
    by (simp add: contested_tracker_def)
  ultimately have data: "store_data contested_store"
    by (simp add: store_data_def fields f)
  have tracker: "so_cardinalityTracker (at_store 0 0 s) = Some contested_tracker" by (simp add: at contested_store_def)
  have step: "store_step (demo_lib GNil) (EvDelete ''a'') ((at_store 0 0 s)\<lparr>so_cardinalityTracker := Some (snd (ct_CheckThresholds contested_tracker))\<rparr>)
      = Some st"
    by (simp add: at st_def ct1_def)
  have was: "IsFamilyCutoff (snd (ct_CheckThresholds contested_tracker)) (fs_Name f)"
    using cut1 by (simp add: f ct1_def [symmetric] GetFamilyThreshold_def fields)
  have now: "\<not> IsFamilyCutoff ct2 (fs_Name (SetCutoff (IsFamilyCutoff ct2 ''m'') f))"
    using cut2 by (simp add: f SetCutoff_def GetFamilyThreshold_def fields2)
  have fam: "so_Families (at_store 0 0 s) = [f]" by (simp add: at f)
  have heap: "0 < length (sh_heap s)" "0 < length (sh_heap s ! 0)" by (simp_all add: s_def)
  from status_sets_stale_cutoff [of 0 "[c_checkAndApplyThresholds 0 0 (\<lambda>_. Done)]" 0 0 "\<lambda>_. Done" s,
      OF _ _ heap tracker fam was step st(1,2) now, of echo_client demo_keys "[]" "[]"]
  obtain s' where s': "(conc_step echo_client demo_keys (demo_lib GNil))\<^sup>*\<^sup>*
       ([], [c_checkAndApplyThresholds 0 0 (\<lambda>_. Done)], s, []) ([], [Done], s', [])" "\<not> store_inv (at_store 0 0 s')"
    by auto
  have "store_data (at_store 0 0 s)" using data by (simp add: at)
  with s' show ?thesis by (intro exI [of _ s] exI [of _ s'] conjI)
qed

end
