(* ===== verification/Store_History.thy ===== *)
theory Store_History
  imports Metric_Store
begin

text \<open>
  What a store holds, in terms of the objects the reflector handed to it. An object is processed
  with the configuration its store had then: every family has taken the store's labels once more
  than for the object before it. The true number of samples of an object is \<open>sample_count\<close>, read
  off the rows (or the script's samples) of each family; \<open>latest_table\<close> is that number per family
  name for the object last given under a UID. A trace relates a store to the objects it was
  given, and is kept by every operation and by the status goroutine's check of the thresholds.
\<close>

section \<open>What the objects of a store contribute\<close>

text \<open>A family when the \<open>n\<close>-th object is processed: it has taken the configuration of its store \<open>n\<close> times.\<close>

definition configured :: "store \<Rightarrow> nat \<Rightarrow> family \<Rightarrow> family" where
  "configured b n f =
     f\<lparr>fs_Resolver := (if 0 < n \<and> fs_Resolver f = ResolverTypeNone then so_Resolver b else fs_Resolver f),
       fs_Labels := fs_Labels f @ concat (replicate n (so_Labels b))\<rparr>"

text \<open>The families that keep their count: of those of one name, the last. They are all families
  when the names are distinct.\<close>

fun counted_families :: "family list \<Rightarrow> family list" where
  "counted_families [] = []"
| "counted_families (f # fs) =
     (if fs_Name f \<in> fs_Name ` set fs then counted_families fs else f # counted_families fs)"

lemma counted_all: "distinct (map fs_Name fs) \<Longrightarrow> counted_families fs = fs"
  by (induction fs) (auto simp: image_iff)

text \<open>The true number of samples per family name that an object contributes as the \<open>n\<close>-th object.\<close>

definition count_table :: "'a metric_lib_scheme \<Rightarrow> store \<Rightarrow> nat \<Rightarrow> uobject \<Rightarrow> (string, int64) gomap" where
  "count_table lib b n obj =
     map (\<lambda>f. (fs_Name f, of_nat (sample_count lib (configured b n f) obj))) (counted_families (so_Families b))"

text \<open>The objects the reflector handed over, in order, and where a UID occurs last among them.\<close>

fun event_adds :: "store_event \<Rightarrow> uobject list" where
  "event_adds (EvAdd obj) = [obj]"
| "event_adds (EvUpdate obj) = [obj]"
| "event_adds (EvDelete uid) = []"
| "event_adds (EvReplace objs) = objs"

definition adds :: "store_event list \<Rightarrow> uobject list" where
  "adds es = concat (map event_adds es)"

definition last_position :: "uobject list \<Rightarrow> uid \<Rightarrow> nat" where
  "last_position objs u = last (filter (\<lambda>j. uo_UID (objs ! j) = u) [0..<length objs])"

definition latest_table :: "'a metric_lib_scheme \<Rightarrow> store \<Rightarrow> uobject list \<Rightarrow> uid \<Rightarrow> (string, int64) gomap" where
  "latest_table lib b objs u =
     (let j = last_position objs u in count_table lib b (Suc j) (objs ! j))"

lemma last_position_append:
  "last_position (objs @ [obj]) (uo_UID obj) = length objs"
  "u \<noteq> uo_UID obj \<Longrightarrow> u \<in> uo_UID ` set objs \<Longrightarrow> last_position (objs @ [obj]) u = last_position objs u"
proof -
  have *: "filter (\<lambda>j. uo_UID ((objs @ [obj]) ! j) = u) [0..<length objs] = filter (\<lambda>j. uo_UID (objs ! j) = u) [0..<length objs]"
    for u by (rule filter_cong) (auto simp: nth_append)
  show "last_position (objs @ [obj]) (uo_UID obj) = length objs" by (simp add: last_position_def)
  show "last_position (objs @ [obj]) u = last_position objs u" if "u \<noteq> uo_UID obj"
    using that * by (simp add: last_position_def)
qed

lemma last_position_less:
  assumes "u \<in> uo_UID ` set objs"
  shows "last_position objs u < length objs" and "uo_UID (objs ! last_position objs u) = u"
proof -
  obtain j where "j < length objs" "uo_UID (objs ! j) = u" using assms by (auto simp: in_set_conv_nth)
  then have "j \<in> set (filter (\<lambda>j. uo_UID (objs ! j) = u) [0..<length objs])" by simp
  then have "filter (\<lambda>j. uo_UID (objs ! j) = u) [0..<length objs] \<noteq> []" by (metis empty_iff empty_set)
  then have "last (filter (\<lambda>j. uo_UID (objs ! j) = u) [0..<length objs]) \<in> set (filter (\<lambda>j. uo_UID (objs ! j) = u) [0..<length objs])"
    by (rule last_in_set)
  then show "last_position objs u < length objs" "uo_UID (objs ! last_position objs u) = u"
    unfolding last_position_def by auto
qed

lemma latest_table_append:
  "latest_table lib b (objs @ [obj]) (uo_UID obj) = count_table lib b (Suc (length objs)) obj"
  "u \<noteq> uo_UID obj \<Longrightarrow> u \<in> uo_UID ` set objs \<Longrightarrow> latest_table lib b (objs @ [obj]) u = latest_table lib b objs u"
  using last_position_less [of u objs]
  by (simp_all add: latest_table_def last_position_append nth_append Let_def)

lemma counted_names: "fs_Name ` set (counted_families fs) = fs_Name ` set fs"
  by (induction fs) auto

lemma counted_distinct: "distinct (map fs_Name (counted_families fs))"
  by (induction fs) (auto simp: counted_names [unfolded image_def, simplified] counted_names)

lemma count_table_ok [simp]: "gm_ok (count_table lib b n obj)"
  using counted_distinct by (simp add: count_table_def gm_ok_def comp_def)

text \<open>Recording the counts one after the other leaves the table.\<close>

lemma fold_put_counted:
  "map_of (fold (\<lambda>f. gm_put (fs_Name f) (h f)) fs m) k =
     (case map_of (map (\<lambda>f. (fs_Name f, h f)) (counted_families fs)) k of Some n \<Rightarrow> Some n | None \<Rightarrow> map_of m k)"
proof (induction fs arbitrary: m)
  case (Cons f fs)
  have "map_of (map (\<lambda>f. (fs_Name f, h f)) (counted_families fs)) (fs_Name f) \<noteq> None \<longleftrightarrow> fs_Name f \<in> fs_Name ` set fs"
    by (simp add: map_of_eq_None_iff image_image counted_names)
  with Cons show ?case by (auto simp: update_conv split: option.split)
qed simp

section \<open>The history of a store\<close>

definition latest_texts :: "'a metric_lib_scheme \<Rightarrow> store \<Rightarrow> uobject list \<Rightarrow> uid \<Rightarrow> string list" where
  "latest_texts lib b objs u =
     (let j = last_position objs u
      in map (\<lambda>f. fst (the (buildMetricString lib (SetCutoff False (configured b (Suc j) f)) (objs ! j)))) (so_Families b))"

definition full_or_empty :: "string list \<Rightarrow> string list \<Rightarrow> bool" where
  "full_or_empty ts full = list_all2 (\<lambda>t t'. t = [] \<or> t = t') ts full"

text \<open>The store \<open>s\<close> is \<open>b\<close> after the objects \<open>objs\<close> were handed to it, and perhaps some were deleted.\<close>

definition trace_families :: "store \<Rightarrow> uobject list \<Rightarrow> store \<Rightarrow> bool" where
  "trace_families b objs s \<longleftrightarrow> so_Resolver s = so_Resolver b \<and> so_Labels s = so_Labels b
     \<and> map (SetCutoff False) (so_Families s) = map (\<lambda>f. SetCutoff False (configured b (length objs) f)) (so_Families b)"

definition trace_counts :: "'a metric_lib_scheme \<Rightarrow> store \<Rightarrow> uobject list \<Rightarrow> (uid, (string, int64) gomap) gomap \<Rightarrow> bool" where
  "trace_counts lib b objs m \<longleftrightarrow> (\<forall>u cs. map_of m u = Some cs \<longrightarrow>
     u \<in> uo_UID ` set objs \<and> gm_ok cs \<and> map_of cs = map_of (latest_table lib b objs u))"

definition trace_texts :: "'a metric_lib_scheme \<Rightarrow> store \<Rightarrow> uobject list \<Rightarrow> (uid, string list) gomap \<Rightarrow> bool" where
  "trace_texts lib b objs m \<longleftrightarrow> (\<forall>u ts. map_of m u = Some ts \<longrightarrow>
     u \<in> uo_UID ` set objs \<and> full_or_empty ts (latest_texts lib b objs u))"

definition traced :: "'a metric_lib_scheme \<Rightarrow> store \<Rightarrow> uobject list \<Rightarrow> store \<Rightarrow> bool" where
  "traced lib b objs s \<longleftrightarrow> trace_families b objs s \<and> trace_texts lib b objs (so_metrics s)
     \<and> (\<exists>ct. so_cardinalityTracker s = Some ct \<and> trace_counts lib b objs (ct_perObject ct))"

lemma latest_texts_append:
  "latest_texts lib b (objs @ [obj]) (uo_UID obj)
     = map (\<lambda>f. fst (the (buildMetricString lib (SetCutoff False (configured b (Suc (length objs)) f)) obj))) (so_Families b)"
  "u \<noteq> uo_UID obj \<Longrightarrow> u \<in> uo_UID ` set objs \<Longrightarrow> latest_texts lib b (objs @ [obj]) u = latest_texts lib b objs u"
  using last_position_less [of u objs]
  by (simp_all add: latest_texts_def last_position_append nth_append Let_def)

lemma trace_counts_put:
  assumes "trace_counts lib b objs m" and "gm_ok cs" and "map_of cs = map_of (count_table lib b (Suc (length objs)) obj)"
  shows "trace_counts lib b (objs @ [obj]) (gm_put (uo_UID obj) cs m)"
proof -
  have "u \<in> uo_UID ` set (objs @ [obj]) \<and> gm_ok cs' \<and> map_of cs' = map_of (latest_table lib b (objs @ [obj]) u)"
    if "map_of (gm_put (uo_UID obj) cs m) u = Some cs'" for u cs'
  proof (cases "u = uo_UID obj")
    case True
    with that assms(2,3) show ?thesis by (simp add: latest_table_append update_conv)
  next
    case False
    with that have "map_of m u = Some cs'" by (simp add: update_conv)
    with assms(1) have old: "u \<in> uo_UID ` set objs" "gm_ok cs'" "map_of cs' = map_of (latest_table lib b objs u)"
      by (simp_all add: trace_counts_def)
    then show ?thesis by (simp add: latest_table_append(2) [OF False old(1)])
  qed
  then show ?thesis by (simp add: trace_counts_def)
qed

lemma trace_texts_put:
  assumes "trace_texts lib b objs m"
    and "full_or_empty ts (map (\<lambda>f. fst (the (buildMetricString lib (SetCutoff False (configured b (Suc (length objs)) f)) obj))) (so_Families b))"
  shows "trace_texts lib b (objs @ [obj]) (gm_put (uo_UID obj) ts m)"
proof -
  have "u \<in> uo_UID ` set (objs @ [obj]) \<and> full_or_empty ts' (latest_texts lib b (objs @ [obj]) u)"
    if "map_of (gm_put (uo_UID obj) ts m) u = Some ts'" for u ts'
  proof (cases "u = uo_UID obj")
    case True
    with that assms(2) show ?thesis by (simp add: latest_texts_append update_conv)
  next
    case False
    with that have "map_of m u = Some ts'" by (simp add: update_conv)
    with assms(1) have old: "u \<in> uo_UID ` set objs" "full_or_empty ts' (latest_texts lib b objs u)"
      by (simp_all add: trace_texts_def)
    then show ?thesis by (simp add: latest_texts_append(2) [OF False old(1)])
  qed
  then show ?thesis by (simp add: trace_texts_def)
qed

lemma trace_del:
  "trace_counts lib b objs m \<Longrightarrow> trace_counts lib b objs (gm_del u m)"
  "trace_texts lib b objs m' \<Longrightarrow> trace_texts lib b objs (gm_del u m')"
  by (simp_all add: trace_counts_def trace_texts_def delete_conv)

lemma SetCutoff_twice [simp]: "SetCutoff b (SetCutoff b' f) = SetCutoff b f"
  by (simp add: SetCutoff_def)

lemma configured_Suc:
  assumes "so_Resolver s = so_Resolver b" and "so_Labels s = so_Labels b"
  shows "inheritFamilyConfiguration s (configured b n f) = configured b (Suc n) f"
proof -
  have "concat (replicate n ls) @ ls = ls @ concat (replicate n ls)" for ls :: "label list"
    by (induction n) simp_all
  then show ?thesis using assms by (simp add: configured_def inheritFamilyConfiguration_def Let_def)
qed

lemma with_cutoffs_trace: "map (SetCutoff False) (with_cutoffs ct fs) = map (SetCutoff False) fs"
  by (simp add: with_cutoffs_def)

lemma inherited_trace:
  assumes "trace_families b objs s"
  shows "map (SetCutoff False) (inherited s)
    = map (\<lambda>f. SetCutoff False (configured b (Suc (length objs)) f)) (so_Families b)"
proof -
  have "map (SetCutoff False) (inherited s) = map (inheritFamilyConfiguration s) (map (SetCutoff False) (so_Families s))"
    by (simp add: inherited_cutoff)
  also have "\<dots> = map (\<lambda>f. SetCutoff False (configured b (Suc (length objs)) f)) (so_Families b)"
    using assms configured_Suc [of s b "length objs"] by (simp add: trace_families_def inherited_cutoff [symmetric])
  finally show ?thesis .
qed

lemma object_counts_table:
  assumes "index_sorter (SortIndices lib)" and "trace_families b objs s"
  shows "map_of (object_counts lib obj (inherited s)) = map_of (count_table lib b (Suc (length objs)) obj)"
proof -
  let ?c = "\<lambda>f. gm_put (fs_Name f) (of_nat (sample_count lib f obj) :: int64)"
  have "snd (the (buildMetricString lib f obj)) = of_nat (sample_count lib f obj)" for f
    using buildMetricString_count [OF assms(1), of f obj] by auto
  then have "object_counts lib obj (inherited s) = fold ?c (inherited s) []" by (simp add: object_counts_def)
  also have "\<dots> = fold ?c (map (SetCutoff False) (inherited s)) []" by (simp add: fold_map comp_def)
  also have "\<dots> = fold (\<lambda>f. gm_put (fs_Name f) (of_nat (sample_count lib (configured b (Suc (length objs)) f) obj))) (so_Families b) []"
    unfolding inherited_trace [OF assms(2)] by (simp add: fold_map comp_def configured_def)
  finally show ?thesis
    by (intro ext) (simp add: fold_put_counted count_table_def split: option.split)
qed

lemma text_full_or_empty:
  assumes "index_sorter (SortIndices lib)"
  shows "fst (the (buildMetricString lib f obj)) = []
    \<or> fst (the (buildMetricString lib f obj)) = fst (the (buildMetricString lib (SetCutoff False f) obj))"
proof (cases "IsCutoff f")
  case True
  then have "f = SetCutoff True f" by (simp add: SetCutoff_def IsCutoff_def)
  then have "buildMetricString lib f obj = map_option (\<lambda>(s, c). ([], c)) (buildMetricString lib (SetCutoff False f) obj)"
    using buildMetricString_cutoff [of lib f obj] by metis
  then show ?thesis using buildMetricString_some [OF assms, of "SetCutoff False f" obj] by auto
next
  case False
  then have "f = SetCutoff False f" by (simp add: SetCutoff_def IsCutoff_def)
  then show ?thesis by metis
qed

lemma object_texts_trace:
  assumes "index_sorter (SortIndices lib)" and "trace_families b objs s"
  shows "full_or_empty (object_texts lib obj (inherited s))
    (map (\<lambda>f. fst (the (buildMetricString lib (SetCutoff False (configured b (Suc (length objs)) f)) obj))) (so_Families b))"
proof -
  let ?t = "\<lambda>f. fst (the (buildMetricString lib f obj))"
  have "full_or_empty (object_texts lib obj fs) (map ?t (map (SetCutoff False) fs))" for fs
    using text_full_or_empty [OF assms(1)]
    by (simp add: full_or_empty_def object_texts_def list.rel_map list_all2_same)
  from this [of "inherited s"] show ?thesis
    unfolding inherited_trace [OF assms(2)] by (simp add: comp_def)
qed

lemma traced_start:
  assumes "so_cardinalityTracker b = Some ct" and "ct_perObject ct = []" and "so_metrics b = []"
  shows "traced lib b [] b"
  by (simp add: traced_def trace_families_def trace_texts_def trace_counts_def assms configured_def)

lemma traced_check:
  assumes "traced lib b objs s"
  shows "traced lib b objs (snd (checkAndApplyThresholds s))"
  using assms
  by (auto simp: traced_def trace_families_def checkAndApplyThresholds_def Let_def split_def comp_def)

lemma traced_Add:
  assumes "index_sorter (SortIndices lib)" and "traced lib b objs s" and "store_Add lib (Some obj) s = Some (s', e)"
  shows "traced lib b (objs @ [obj]) s'"
proof -
  obtain ct where ct: "so_cardinalityTracker s = Some ct" and c: "trace_counts lib b objs (ct_perObject ct)"
    and f: "trace_families b objs s" and t: "trace_texts lib b objs (so_metrics s)"
    using assms(2) by (auto simp: traced_def)
  let ?cs = "object_counts lib obj (inherited s)"
  define ct' where "ct' = snd (ct_CheckThresholds (ct_Update (uo_UID obj) ?cs ct))"
  have po: "ct_perObject ct' = gm_put (uo_UID obj) ?cs (ct_perObject ct)" by (simp add: ct'_def)
  have s': "s' = s\<lparr>so_Families := with_cutoffs ct' (inherited s),
      so_metrics := gm_put (uo_UID obj) (object_texts lib obj (inherited s)) (so_metrics s), so_cardinalityTracker := Some ct'\<rparr>"
    using store_Add_eq [OF assms(1) ct ct'_def] assms(3) by simp
  have "trace_families b (objs @ [obj]) s'"
    using f by (simp add: s' trace_families_def with_cutoffs_trace inherited_trace [OF f] del: map_map)
  moreover have "trace_texts lib b (objs @ [obj]) (so_metrics s')"
    using trace_texts_put [OF t object_texts_trace [OF assms(1) f]] by (simp add: s')
  moreover have "trace_counts lib b (objs @ [obj]) (ct_perObject ct')"
    unfolding po by (rule trace_counts_put [OF c object_counts_ok object_counts_table [OF assms(1) f]])
  ultimately show ?thesis by (simp add: traced_def s')
qed

lemma traced_Delete:
  assumes "traced lib b objs s"
  shows "traced lib b objs (fst (store_Delete (Some uid) s))"
proof -
  obtain ct where ct: "so_cardinalityTracker s = Some ct" and c: "trace_counts lib b objs (ct_perObject ct)"
    and f: "trace_families b objs s" and t: "trace_texts lib b objs (so_metrics s)"
    using assms by (auto simp: traced_def)
  show ?thesis using f
    by (simp add: store_Delete_eq [OF ct refl] traced_def trace_families_def with_cutoffs_trace
        trace_del(1) [OF c] trace_del(2) [OF t])
qed

lemma traced_items:
  "index_sorter (SortIndices lib) \<Longrightarrow> traced lib b objs s \<Longrightarrow> add_items lib (map Some more_objs) s = Some s'
     \<Longrightarrow> traced lib b (objs @ more_objs) s'"
proof (induction more_objs arbitrary: objs s)
  case (Cons obj more_objs)
  obtain s1 e where a: "store_Add lib (Some obj) s = Some (s1, e)"
    using Cons.prems(3) by (auto split: option.splits)
  from Cons.IH [OF Cons.prems(1) traced_Add [OF Cons.prems(1,2) a]] Cons.prems(3) a show ?case by simp
qed simp

lemma traced_step:
  assumes "index_sorter (SortIndices lib)" and "traced lib b objs s" and "store_step lib e s = Some s'"
  shows "traced lib b (objs @ event_adds e) s'"
proof (cases e)
  case (EvAdd obj)
  with assms(3) traced_Add [OF assms(1,2)] show ?thesis by auto
next
  case (EvUpdate obj)
  with assms(3) traced_Add [OF assms(1,2)] show ?thesis by (auto simp: store_Update_def)
next
  case (EvDelete uid)
  with assms(3) traced_Delete [OF assms(2)] show ?thesis by auto
next
  case (EvReplace objs')
  then obtain s1 where "add_items lib (map Some objs') s = Some s1" and s': "s' = s1\<lparr>so_synced := True\<rparr>"
    using assms(3) by (auto simp: store_Replace_def)
  from traced_items [OF assms(1,2) this(1)] show ?thesis
    by (simp add: EvReplace s' traced_def trace_families_def)
qed

lemma traced_run:
  "index_sorter (SortIndices lib) \<Longrightarrow> traced lib b objs s \<Longrightarrow> store_run lib es s = Some s'
     \<Longrightarrow> traced lib b (objs @ adds es) s'"
proof (induction es arbitrary: objs s)
  case (Cons e es)
  obtain s1 where e: "store_step lib e s = Some s1" using Cons.prems(3) by (auto split: option.splits)
  from Cons.IH [OF Cons.prems(1) traced_step [OF Cons.prems(1,2) e]] Cons.prems(3) e show ?case
    by (simp add: adds_def)
qed (simp add: adds_def)

text \<open>The totals of the tracker are those of the objects.\<close>

lemma traced_totals:
  assumes "traced lib b objs s" and "so_cardinalityTracker s = Some ct" and "ct_inv ct"
  shows "GetStoreTotal ct = (\<Sum>u \<in> fst ` set (ct_perObject ct). gm_sum (\<lambda>n. n) (latest_table lib b objs u))"
    and "GetFamilyCardinality ct f = (\<Sum>u \<in> fst ` set (ct_perObject ct). gm_get 0 (latest_table lib b objs u) f)"
proof -
  have ok: "gm_ok (ct_perObject ct)" using assms(3) by (simp add: ct_inv_def ct_ok_def)
  have cs: "gm_ok cs" "map_of cs = map_of (latest_table lib b objs u)" if "map_of (ct_perObject ct) u = Some cs" for u cs
    using assms(1,2) that by (auto simp: traced_def trace_counts_def)
  have "gm_sum (\<lambda>n. n) cs = gm_sum (\<lambda>n. n) (latest_table lib b objs u)" if "map_of (ct_perObject ct) u = Some cs" for u cs
    by (rule gm_sum_cong [OF cs(1) [OF that]]) (simp_all add: cs(2) [OF that], simp add: latest_table_def Let_def)
  then show "GetStoreTotal ct = (\<Sum>u \<in> fst ` set (ct_perObject ct). gm_sum (\<lambda>n. n) (latest_table lib b objs u))"
    using assms(3) gm_sum_keys [OF ok, of "gm_sum (\<lambda>n. n)"] by (simp add: ct_inv_def)
  have "gm_get 0 cs f = gm_get 0 (latest_table lib b objs u) f" if "map_of (ct_perObject ct) u = Some cs" for u cs
    using cs(2) [OF that] by (simp add: gm_get_def)
  then show "GetFamilyCardinality ct f = (\<Sum>u \<in> fst ` set (ct_perObject ct). gm_get 0 (latest_table lib b objs u) f)"
    using assms(3) gm_sum_keys [OF ok, of "\<lambda>cs. gm_get 0 cs f"] by (simp add: ct_inv_def)
qed

text \<open>The objects known after the events, and their samples.\<close>

definition known :: "store_event list \<Rightarrow> uid set" where
  "known es = fold event_uids es {}"

definition samples_held :: "'a metric_lib_scheme \<Rightarrow> store \<Rightarrow> store_event list \<Rightarrow> int64" where
  "samples_held lib b es = (\<Sum>u \<in> known es. gm_sum (\<lambda>n. n) (latest_table lib b (adds es) u))"

section \<open>Properties\<close>

definition counted_store :: store where
  "counted_store = buildStore 0 ''g'' ''v1'' ''K''
     [demo_family ''m'' [\<lparr>mt_Labels = [], mt_Value = ''o.x'', mt_Resolver = ResolverTypeNone\<rparr>] []]
     ResolverTypeCEL [] 0 0 ''ns'' ''n'' 10 f64_0_8"

lemma counted_resolves: "unstructured_Resolve (demo_lib (GInt 1)) ''o.x'' [] = [(''o.x'', ''1'')]"
  by code_simp

lemma counted_sample:
  assumes "fs_Name f = ''m''" and "fs_Metrics f = [\<lparr>mt_Labels = [], mt_Value = ''o.x'', mt_Resolver = ResolverTypeNone\<rparr>]"
    and "fs_Resolver f = ResolverTypeUnstructured" and "fs_Labels f = []" and "fm_starlarkResolver f = None"
    and "so_Labels b = []"
  shows "sample_count (demo_lib (GInt 1)) (configured b n f) demo_object = 1"
  using assms
  by (simp add: sample_count_def family_rows_def metric_rows_def configured_def family_resolver_def inheritMetricLabels_def
      resolveLabels_def sortLabels_def Let_def resolveMetricValue_def extractAndSortExpandedMetricValues_def
      sample_rows_def value_accepted_def ParseFloat_1 value_ok_def demo_object_def counted_resolves
      family_kind_def HasSuffix_def)

lemma counted_fields:
  "\<exists>f. so_Families counted_store = [f] \<and> fs_Name f = ''m''
     \<and> fs_Metrics f = [\<lparr>mt_Labels = [], mt_Value = ''o.x'', mt_Resolver = ResolverTypeNone\<rparr>]
     \<and> fs_Resolver f = ResolverTypeUnstructured \<and> fs_Labels f = [] \<and> fm_starlarkResolver f = None"
  "so_Labels counted_store = []"
  by (simp_all add: counted_store_def buildStore_def newStore_def SetCardinalityTracker_def demo_family_def Let_def)

lemma counted_table:
  assumes "\<exists>f. so_Families b = [f] \<and> fs_Name f = ''m''
     \<and> fs_Metrics f = [\<lparr>mt_Labels = [], mt_Value = ''o.x'', mt_Resolver = ResolverTypeNone\<rparr>]
     \<and> fs_Resolver f = ResolverTypeUnstructured \<and> fs_Labels f = [] \<and> fm_starlarkResolver f = None"
    and "so_Labels b = []"
  shows "count_table (demo_lib (GInt 1)) b n demo_object = [(''m'', 1)]"
  using assms counted_sample [of _ b n] by (auto simp: count_table_def)

text \<open>
  C3: a store stays consistent with the objects it was given. From a store \<open>b\<close> built for any
  configuration, every sequence of reflector events (add, update, delete, relist) runs without a
  panic and ends with one cached text per family for exactly the known objects, each text empty
  or the full text of the object as it was last given, and with a tracker that knows exactly
  those objects: for each of them and each family name it holds the true number of samples the
  object last given has in that family, the family's and the store's totals are the sums of
  these numbers over the known objects, and every family's cutoff flag is the tracker's decision.
  Where families of one store share a name, the number is that of the last of them.
\<close>

theorem store_consistent:
  assumes "index_sorter (SortIndices lib)" and "\<forall>f \<in> set fs. \<not> fm_cutoff f"
    and "b = buildStore t g v k fs r ls cl tmo ns n lm wr"
  shows "\<exists>s ct. store_run lib es b = Some s
     \<and> so_cardinalityTracker s = Some ct
     \<and> fst ` set (so_metrics s) = known es
     \<and> fst ` set (ct_perObject ct) = known es
     \<and> (\<forall>ts \<in> snd ` set (so_metrics s). length ts = length (so_Families s))
     \<and> (\<forall>u ts. map_of (so_metrics s) u = Some ts \<longrightarrow> full_or_empty ts (latest_texts lib b (adds es) u))
     \<and> (\<forall>u cs. map_of (ct_perObject ct) u = Some cs \<longrightarrow> map_of cs = map_of (latest_table lib b (adds es) u))
     \<and> (\<forall>f. GetFamilyCardinality ct f = (\<Sum>u \<in> known es. gm_get 0 (latest_table lib b (adds es) u) f))
     \<and> GetStoreTotal ct = samples_held lib b es
     \<and> GetStoreTotal ct = gm_sum (gm_sum (\<lambda>n. n)) (ct_perObject ct)
     \<and> (\<forall>f \<in> set (so_Families s). IsCutoff f = IsFamilyCutoff ct (fs_Name f))"
proof -
  obtain s where s: "store_run lib es b = Some s" "store_inv s"
    "fst ` set (so_metrics s) = fold event_uids es (fst ` set (so_metrics b))"
    using store_inv_run [OF assms(1) store_inv_build [OF assms(2)]] assms(3) by blast
  have nil: "so_metrics b = []" unfolding assms(3) by (rule buildStore_fields)
  then have keys: "fst ` set (so_metrics s) = known es" using s(3) by (simp add: known_def)
  obtain ct where ct: "so_cardinalityTracker s = Some ct" "ct_inv ct" "gm_ok (so_metrics s)"
      "fst ` set (so_metrics s) = fst ` set (ct_perObject ct)"
      "\<forall>ts \<in> snd ` set (so_metrics s). length ts = length (so_Families s)"
      "\<forall>cs \<in> snd ` set (ct_perObject ct). fst ` set cs = fs_Name ` set (so_Families s)"
      "\<forall>f \<in> set (so_Families s). IsCutoff f = IsFamilyCutoff ct (fs_Name f)"
    using s(2) by (rule store_invE)
  have po: "fst ` set (ct_perObject ct) = known es" using ct(4) keys by metis
  obtain tr where "so_cardinalityTracker b = Some tr" "ct_perObject tr = []"
    using buildStore_fields(2) unfolding assms(3) by blast
  from traced_run [OF assms(1) traced_start [OF this nil] s(1)] have t: "traced lib b (adds es) s" by simp
  note totals = traced_totals [OF t ct(1,2), unfolded po]
  have "\<forall>u ts. map_of (so_metrics s) u = Some ts \<longrightarrow> full_or_empty ts (latest_texts lib b (adds es) u)"
    using t by (simp add: traced_def trace_texts_def)
  moreover have "\<forall>u cs. map_of (ct_perObject ct) u = Some cs \<longrightarrow> map_of cs = map_of (latest_table lib b (adds es) u)"
    using t ct(1) by (simp add: traced_def trace_counts_def)
  moreover have "GetStoreTotal ct = gm_sum (gm_sum (\<lambda>n. n)) (ct_perObject ct)" using ct(2) by (simp add: ct_inv_def)
  moreover have "GetStoreTotal ct = samples_held lib b es" unfolding samples_held_def by (rule totals(1))
  ultimately show ?thesis
    by (intro exI [of _ s] exI [of _ ct] conjI allI) (use s(1) ct(1,5,7) keys po totals(2) in simp_all)
qed

theorem store_consistent_witness:
  "\<exists>s ct. store_run (demo_lib (GInt 1)) [EvAdd demo_object, EvDelete ''u'', EvReplace [demo_object]] counted_store = Some s
     \<and> so_cardinalityTracker s = Some ct \<and> fst ` set (so_metrics s) = {''u''}
     \<and> GetFamilyCardinality ct ''m'' = 1 \<and> GetStoreTotal ct = 1"
proof -
  let ?es = "[EvAdd demo_object, EvDelete ''u'', EvReplace [demo_object]]"
  have k: "known ?es = {''u''}" by (simp add: known_def demo_object_def)
  have "last_position (adds ?es) ''u'' = 1" by (simp add: last_position_def adds_def demo_object_def)
  then have t: "latest_table (demo_lib (GInt 1)) counted_store (adds ?es) ''u'' = [(''m'', 1)]"
    by (simp add: latest_table_def counted_table [OF counted_fields] adds_def)
  then have held: "samples_held (demo_lib (GInt 1)) counted_store ?es = 1" by (simp add: samples_held_def k)
  have f: "\<forall>f \<in> set [demo_family ''m'' [\<lparr>mt_Labels = [], mt_Value = ''o.x'', mt_Resolver = ResolverTypeNone\<rparr>] []]. \<not> fm_cutoff f"
    by (simp add: demo_family_def)
  obtain s ct where "store_run (demo_lib (GInt 1)) ?es counted_store = Some s" "so_cardinalityTracker s = Some ct"
      "fst ` set (so_metrics s) = known ?es"
      "\<forall>f. GetFamilyCardinality ct f
         = (\<Sum>u \<in> known ?es. gm_get 0 (latest_table (demo_lib (GInt 1)) counted_store (adds ?es) u) f)"
      "GetStoreTotal ct = samples_held (demo_lib (GInt 1)) counted_store ?es"
    using store_consistent [OF demo_sorter f counted_store_def, of "GInt 1" ?es] by (elim exE conjE) (rule that)
  with k t held show ?thesis by (simp add: gm_get_def)
qed

end
