(* ===== verification/Controller_History.thy ===== *)
theory Controller_History
  imports Controller Store_History
begin

text \<open>
  What the status of a monitor counts, in terms of the objects its stores were given. A history of
  a monitor has, for each of its stores, the store as it was when it was last without an object
  (as it is when it was configured) and the events the reflector delivered to it since. The
  history grows with the steps of the controller; every state in which a monitor has stores has one.
\<close>

section \<open>Histories\<close>

type_synonym store_history = "store \<times> store_event list"

definition empty_history :: "store list \<Rightarrow> store_history list" where
  "empty_history ss = map (\<lambda>s. (s, [])) ss"

definition deliver :: "nat \<Rightarrow> store_event \<Rightarrow> store_history list \<Rightarrow> store_history list" where
  "deliver i e hist = hist[i := (fst (hist ! i), snd (hist ! i) @ [e])]"

text \<open>The steps of \<open>ctl_step\<close>, with what they add to the history of the monitor \<open>u\<close>. A worker whose
  handler drops or rebuilds the stores of \<open>u\<close> ends the history.\<close>

inductive ctl_history ::
    "'api api_client \<Rightarrow> key_lib \<Rightarrow> 'm metric_lib_scheme \<Rightarrow> 'api \<Rightarrow> discovery_client \<Rightarrow> controller_options \<Rightarrow> uid
      \<Rightarrow> store_history list \<Rightarrow> 'api controller \<times> work_item list \<Rightarrow> bool"
  for cl :: "'api api_client" and kl :: key_lib and lib :: "'m metric_lib_scheme"
    and api :: 'api and d :: discovery_client and opt :: controller_options and u :: uid where
  configured: "ctl_reachable cl kl lib api d opt (c, items) \<Longrightarrow> map_of (cn_stores c) u = Some ss
    \<Longrightarrow> list_all (\<lambda>s. so_metrics s = []) ss
    \<Longrightarrow> ctl_history cl kl lib api d opt u (empty_history ss) (c, items)"
| informer: "ctl_history cl kl lib api d opt u hist (c, items)
    \<Longrightarrow> ctl_history cl kl lib api d opt u hist (c, items @ registerEventHandlers kl e)"
| work: "ctl_history cl kl lib api d opt u hist (c, items) \<Longrightarrow> item \<in> set items
    \<Longrightarrow> processNextWorkItem cl env kl lister (Some item) c = (c', calls, continue)
    \<Longrightarrow> map_of (cn_stores c') u = map_of (cn_stores c) u
    \<Longrightarrow> ctl_history cl kl lib api d opt u hist (c', items)"
| delivered: "ctl_history cl kl lib api d opt u hist (c, items) \<Longrightarrow> map_of (cn_stores c) u = Some ss
    \<Longrightarrow> i < length ss \<Longrightarrow> store_step lib e (ss ! i) = Some s
    \<Longrightarrow> ctl_history cl kl lib api d opt u (deliver i e hist)
          (c\<lparr>cn_stores := gm_put u (ss[i := s]) (cn_stores c)\<rparr>, items)"
| elsewhere: "ctl_history cl kl lib api d opt u hist (c, items) \<Longrightarrow> u' \<noteq> u \<Longrightarrow> map_of (cn_stores c) u' = Some ss
    \<Longrightarrow> i < length ss \<Longrightarrow> store_step lib e (ss ! i) = Some s
    \<Longrightarrow> ctl_history cl kl lib api d opt u hist (c\<lparr>cn_stores := gm_put u' (ss[i := s]) (cn_stores c)\<rparr>, items)"
| status: "ctl_history cl kl lib api d opt u hist (c, items) \<Longrightarrow> r \<in> set (cn_pending c)
    \<Longrightarrow> updateCardinalityStatus cl env r (c\<lparr>cn_pending := remove1 r (cn_pending c)\<rparr>) = (c', err)
    \<Longrightarrow> ctl_history cl kl lib api d opt u hist (c', items)"

lemma history_reachable:
  "ctl_history cl kl lib api d opt u hist x \<Longrightarrow> ctl_reachable cl kl lib api d opt x"
  by (induction rule: ctl_history.induct) (blast intro: ctl_reachable.step ctl_step.intros)+

section \<open>Every monitor with stores has a history\<close>

lemma built_empty: "so_metrics (buildStoreFromConfig t g spec) = []"
  by (simp add: buildStoreFromConfig_def Let_def buildStore_fields)

lemma work_stores:
  assumes "processNextWorkItem cl env kl lister item c = (c', calls, continue)"
    and "map_of (cn_stores c') u = Some ss"
  shows "map_of (cn_stores c') u = map_of (cn_stores c) u \<or> list_all (\<lambda>s. so_metrics s = []) ss"
proof -
  have fresh: "list_all (\<lambda>s. so_metrics s = []) (map (buildStoreFromConfig t g) specs)" for t g specs
    by (simp add: list_all_iff built_empty)
  consider "c' = c" | r ev where "c' = handleEvent cl env ev r c"
    using assms(1)
    by (auto simp: processNextWorkItem_def syncHandler_def handle_monitor_def
        split: option.splits prod.splits bool.splits lister_result.splits)
  then show ?thesis
  proof cases
    case 2
    from handleEvent_stores [of cl env ev r c u] assms(2) fresh show ?thesis by (auto simp: 2)
  qed simp
qed

lemma status_stores:
  assumes "updateCardinalityStatus cl env r c = (c', err)"
  shows "map_of (cn_stores c') u = (if u = rmm_UID r
    then map_option (map (\<lambda>s. snd (checkAndApplyThresholds s))) (map_of (cn_stores c) u) else map_of (cn_stores c) u)"
proof (cases "map_of (cn_stores c) (rmm_UID r)")
  case None
  with assms show ?thesis by (simp add: updateCardinalityStatus_def)
next
  case (Some ss)
  from updateCardinalityStatus_fields(1) [OF Some assms] Some show ?thesis by (simp add: update_conv)
qed

lemma reachable_history:
  "ctl_reachable cl kl lib api d opt x \<Longrightarrow> map_of (cn_stores (fst x)) u = Some ss
     \<Longrightarrow> \<exists>hist. ctl_history cl kl lib api d opt u hist x"
proof (induction arbitrary: ss rule: ctl_reachable.induct)
  case start
  then show ?case by (simp add: running_controller_defs)
next
  case (step x y)
  obtain c items c' items' where xy: "x = (c, items)" "y = (c', items')" by fastforce
  have reach: "ctl_reachable cl kl lib api d opt (c', items')"
    using step.hyps xy by (metis ctl_reachable.step)
  from step.hyps(2) [unfolded xy] show ?case
  proof (cases rule: ctl_step_cases)
    case (informer e)
    with step.IH step.prems ctl_history.informer show ?thesis unfolding xy by fastforce
  next
    case (work item env lister calls continue)
    from work_stores [OF work(3)] step.prems xy
    consider "map_of (cn_stores c') u = map_of (cn_stores c) u" | "list_all (\<lambda>s. so_metrics s = []) ss" by auto
    then show ?thesis
    proof cases
      case 1
      with step.IH step.prems obtain hist where "ctl_history cl kl lib api d opt u hist (c, items)" by (auto simp: xy)
      from ctl_history.work [OF this work(2,3) 1] show ?thesis using work(1) xy by auto
    next
      case 2
      from ctl_history.configured [OF reach _ 2] step.prems show ?thesis by (auto simp: xy)
    qed
  next
    case (reflect u' ss' i e s)
    have "map_of (cn_stores c) u \<noteq> None" using step.prems reflect by (auto simp: xy update_conv split: if_splits)
    with step.IH obtain hist where h: "ctl_history cl kl lib api d opt u hist (c, items)" by (auto simp: xy)
    show ?thesis
    proof (cases "u' = u")
      case True
      from ctl_history.delivered [OF h reflect(1) [unfolded True] reflect(2,3)] reflect(4,5) True show ?thesis
        by (auto simp: xy)
    next
      case False
      from ctl_history.elsewhere [OF h False reflect(1-3)] reflect(4,5) show ?thesis by (auto simp: xy)
    qed
  next
    case (status r env err)
    have "map_of (cn_stores c) u \<noteq> None"
      using step.prems status_stores [OF status(3), of u] by (auto simp: xy split: if_splits)
    with step.IH obtain hist where h: "ctl_history cl kl lib api d opt u hist (c, items)" by (auto simp: xy)
    from ctl_history.status [OF h status(2,3)] status(1) show ?thesis by (auto simp: xy)
  qed
qed

section \<open>What a history says of the stores\<close>

definition follows :: "'m metric_lib_scheme \<Rightarrow> store_history \<Rightarrow> store \<Rightarrow> bool" where
  "follows lib h s \<longleftrightarrow> traced lib (fst h) (adds (snd h)) s \<and> fst ` set (so_metrics s) = known (snd h)
     \<and> GetStoreIdentifier s = GetStoreIdentifier (fst h)"

lemma follows_start:
  assumes "store_inv s" and "so_metrics s = []"
  shows "follows lib (s, []) s"
proof -
  obtain ct where ct: "so_cardinalityTracker s = Some ct" "fst ` set (so_metrics s) = fst ` set (ct_perObject ct)"
    using assms(1) by (rule store_invE)
  then have "ct_perObject ct = []" using assms(2) by simp
  from traced_start [OF ct(1) this assms(2)] show ?thesis
    by (simp add: follows_def adds_def known_def assms(2))
qed

lemma follows_step:
  assumes "index_sorter (SortIndices lib)" and "follows lib (b, es) s" and "store_inv s" and "store_step lib e s = Some s'"
  shows "follows lib (b, es @ [e]) s'"
proof -
  have "traced lib b (adds es @ event_adds e) s'"
    using traced_step [OF assms(1) _ assms(4)] assms(2) by (simp add: follows_def)
  moreover have "fst ` set (so_metrics s') = event_uids e (fst ` set (so_metrics s))"
    using store_inv_step [OF assms(1,3), of e] assms(4) by auto
  ultimately show ?thesis
    using assms(2) store_step_id [OF assms(4)] by (simp add: follows_def adds_def known_def)
qed

lemma follows_check: "follows lib h s \<Longrightarrow> follows lib h (snd (checkAndApplyThresholds s))"
  using traced_check [of lib "fst h" "adds (snd h)" s]
  by (auto simp: follows_def checkAndApplyThresholds_def GetStoreIdentifier_def Let_def split_def split: option.splits)

lemma history_follows:
  assumes "ctl_history cl kl lib api d opt u hist x" and "index_sorter (SortIndices lib)"
  shows "\<exists>ss. map_of (cn_stores (fst x)) u = Some ss \<and> list_all2 (follows lib) hist ss"
  using assms(1)
proof (induction rule: ctl_history.induct)
  case (configured c items ss)
  have "stores_ok ss" using ctl_inv_stores [OF _ configured(2)] reachable_inv [OF configured(1) assms(2)] by simp
  then have "list_all store_inv ss" by (simp add: stores_ok_def)
  then have "list_all2 (follows lib) (empty_history ss) ss"
    using configured(3) by (simp add: empty_history_def list.rel_map list_all_iff list_all2_same follows_start)
  with configured(2) show ?case by simp
next
  case (delivered hist c items ss i e s)
  then have ss: "list_all2 (follows lib) hist ss" by simp
  have "stores_ok ss"
    using ctl_inv_stores [OF _ delivered(2)] reachable_inv [OF history_reachable [OF delivered(1)] assms(2)] by simp
  then have "store_inv (ss ! i)" using delivered(3) by (simp add: stores_ok_def list_all_length)
  moreover have "follows lib (fst (hist ! i), snd (hist ! i)) (ss ! i)"
    using ss delivered(3) by (simp add: list_all2_conv_all_nth)
  ultimately have "follows lib (fst (hist ! i), snd (hist ! i) @ [e]) s"
    using follows_step [OF assms(2) _ _ delivered(4)] by blast
  with ss have "list_all2 (follows lib) (deliver i e hist) (ss[i := s])"
    unfolding deliver_def by (rule list_all2_update_cong)
  then show ?case by (simp add: update_conv)
next
  case (status hist c items r env c' err)
  then obtain ss where ss: "map_of (cn_stores c) u = Some ss" "list_all2 (follows lib) hist ss" by auto
  then have "list_all2 (follows lib) hist (map (\<lambda>s. snd (checkAndApplyThresholds s)) ss)"
    by (simp add: list_all2_conv_all_nth follows_check)
  with ss status_stores [OF status(3), of u] show ?case by auto
qed (auto simp: update_conv)

lemma follows_samples:
  assumes "follows lib h s" and "store_inv s"
  shows "store_samples s = samples_held lib (fst h) (snd h)"
proof -
  obtain ct where ct: "so_cardinalityTracker s = Some ct" "ct_inv ct" "fst ` set (so_metrics s) = fst ` set (ct_perObject ct)"
    using assms(2) by (rule store_invE)
  have "store_samples s = GetStoreTotal ct" using ct(1,2) by (simp add: store_samples_def ct_inv_def)
  also have "\<dots> = samples_held lib (fst h) (snd h)"
    using traced_totals(1) [OF _ ct(1,2), of lib "fst h" "adds (snd h)"] assms(1) ct(3)
    by (simp add: follows_def samples_held_def)
  finally show ?thesis .
qed

section \<open>Properties\<close>

text \<open>C5: the end of the chain. The status step of a monitor whose calls to the server succeed writes
  a total that is the number of samples of all objects in all its stores: for each store the sum,
  over the objects the reflector gave it and has not taken away, of the samples of the object as
  it was last given, read off the rows of each family. It is the number the manager then has for
  the monitor, and each store is listed with its own number. Families of one store that share a
  name count once, with the samples of the last of them.\<close>

theorem status_counts_samples:
  assumes "ctl_history cl kl lib api d opt (rmm_UID r) hist (c, items)" and "index_sorter (SortIndices lib)"
    and "api_Get cl (cn_api c) (rmm_Namespace r) (rmm_Name r) = Some got"
    and "updateCardinalityStatus cl env r c = (c', False)"
  shows "\<exists>sent cs. cn_api c' = fst (api_UpdateStatus cl (cn_api c) sent)
     \<and> st_Cardinality (rmm_Status sent) = Some cs
     \<and> cs_Total cs = (\<Sum>(b, es) \<leftarrow> hist. samples_held lib b es)
     \<and> GetResourceCardinality (cn_manager c') (rmm_UID r) = cs_Total cs
     \<and> (\<forall>(b, es) \<in> set hist. map_of (cs_PerStore cs) (GetStoreIdentifier b) = Some (samples_held lib b es))"
proof -
  note reach = history_reachable [OF assms(1)]
  obtain ss where ss: "map_of (cn_stores c) (rmm_UID r) = Some ss" and f: "list_all2 (follows lib) hist ss"
    using history_follows [OF assms(1,2)] by auto
  have "list_all store_inv ss"
    using ctl_inv_stores [OF _ ss] reachable_inv [OF reach assms(2)] by (simp add: stores_ok_def)
  with f have held: "list_all2 (\<lambda>h s. store_samples s = samples_held lib (fst h) (snd h)
      \<and> GetStoreIdentifier s = GetStoreIdentifier (fst h)) hist ss"
    by (auto simp: list_all2_conv_all_nth list_all_length follows_samples) (simp add: follows_def)
  then have total: "sum_list (map store_samples ss) = (\<Sum>(b, es) \<leftarrow> hist. samples_held lib b es)"
    by (induction rule: list_all2_induct) (simp_all add: split_def)
  have each: "\<exists>s \<in> set ss. store_samples s = samples_held lib (fst h) (snd h)
      \<and> GetStoreIdentifier s = GetStoreIdentifier (fst h)" if "h \<in> set hist" for h
    using held that by (induction rule: list_all2_induct) auto
  from status_published [OF reach assms(2) ss assms(3,4)] obtain sent cs where
    "cn_api c' = fst (api_UpdateStatus cl (cn_api c) sent)" "st_Cardinality (rmm_Status sent) = Some cs"
    "cs_Total cs = sum_list (map store_samples ss)" "GetResourceCardinality (cn_manager c') (rmm_UID r) = cs_Total cs"
    and per: "\<forall>s \<in> set ss. map_of (cs_PerStore cs) (GetStoreIdentifier s) = Some (store_samples s)"
    by blast
  moreover have "\<forall>(b, es) \<in> set hist. map_of (cs_PerStore cs) (GetStoreIdentifier b) = Some (samples_held lib b es)"
    using per each by (fastforce simp: split_def)
  ultimately show ?thesis unfolding total by blast
qed

text \<open>A monitor with one store and one object in it: the total that is sent is one.\<close>

definition counted_spec :: store_spec where
  "counted_spec = demo_pod_store\<lparr>ss_Labels := [], ss_Families := [\<lparr>fs_Name = ''m'', fs_Help = ''h'',
     fs_Metrics = [\<lparr>mt_Labels = [], mt_Value = ''o.x'', mt_Resolver = ResolverTypeNone\<rparr>], fs_Starlark = None,
     fs_Resolver = ResolverTypeUnstructured, fs_Labels = [], fs_CardinalityLimit = 0\<rparr>]\<rparr>"

lemma counted_first: "first_of_key (k8s.expand_all demo_cluster [counted_spec]) {} = [counted_spec]"
  using demo_pod_store_concrete by (simp add: k8s.expand_all_concrete counted_spec_def HasWildcards_def)

lemma counted_held:
  "samples_held (demo_lib (GInt 1)) (buildStoreFromConfig t g counted_spec) [EvAdd demo_object] = 1"
proof -
  let ?b = "buildStoreFromConfig t g counted_spec"
  have "\<exists>f. so_Families ?b = [f] \<and> fs_Name f = ''m''
     \<and> fs_Metrics f = [\<lparr>mt_Labels = [], mt_Value = ''o.x'', mt_Resolver = ResolverTypeNone\<rparr>]
     \<and> fs_Resolver f = ResolverTypeUnstructured \<and> fs_Labels f = [] \<and> fm_starlarkResolver f = None"
    by (simp add: buildStoreFromConfig_def buildFamily_def buildStore_def newStore_def SetCardinalityTracker_def
        counted_spec_def Let_def)
  moreover have "so_Labels ?b = []"
    by (simp add: buildStoreFromConfig_def buildStore_def newStore_def SetCardinalityTracker_def counted_spec_def Let_def)
  ultimately have "count_table (demo_lib (GInt 1)) ?b n demo_object = [(''m'', 1)]" for n by (rule counted_table)
  then show ?thesis
    by (simp add: samples_held_def known_def adds_def latest_table_def last_position_def demo_object_def)
qed

theorem status_counts_samples_witness:
  "\<exists>b c items c' sent cs.
     ctl_history echo_client demo_keys (demo_lib (GInt 1)) (demo_monitor [counted_spec]) demo_cluster demo_options ''u''
       [(b, [EvAdd demo_object])] (c, items)
     \<and> updateCardinalityStatus echo_client demo_event_env (demo_monitor []) c = (c', False)
     \<and> cn_api c' = sent \<and> st_Cardinality (rmm_Status sent) = Some cs \<and> cs_Total cs = 1
     \<and> map_of (cs_PerStore cs) (GetStoreIdentifier b) = Some 1"
proof -
  let ?c = "demo_configured [counted_spec] demo_options" and ?lib = "demo_lib (GInt 1)"
  let ?H = "ctl_history echo_client demo_keys ?lib (demo_monitor [counted_spec]) demo_cluster demo_options ''u''"
  obtain t g where st: "map_of (cn_stores ?c) ''u'' = Some (map (buildStoreFromConfig t g) [counted_spec])"
    using demo_handles_of [of "[counted_spec]" demo_options] unfolding counted_first by blast
  define b where "b = buildStoreFromConfig t g counted_spec"
  have b: "map_of (cn_stores ?c) ''u'' = Some [b]" using st by (simp add: b_def)
  have h0: "?H (empty_history [b]) (?c, [(''ns/n'', ''addEvent'')])"
    by (rule ctl_history.configured [OF demo_reachable_of b]) (simp add: b_def built_empty)
  have "store_inv b"
    using ctl_inv_stores [OF _ b] reachable_inv [OF history_reachable [OF h0] demo_sorter] by (simp add: stores_ok_def)
  then obtain s where s: "store_step ?lib (EvAdd demo_object) ([b] ! 0) = Some s"
    using store_inv_step [OF demo_sorter, of b "GInt 1" "EvAdd demo_object"] by auto
  define c2 where "c2 = ?c\<lparr>cn_stores := gm_put ''u'' ([b][0 := s]) (cn_stores ?c)\<rparr>"
  have h: "?H [(b, [EvAdd demo_object])] (c2, [(''ns/n'', ''addEvent'')])"
    using ctl_history.delivered [OF h0 b _ s] by (simp add: c2_def empty_history_def deliver_def)
  have u: "rmm_UID (demo_monitor []) = ''u''" by (simp add: demo_monitor_def)
  have ss: "map_of (cn_stores c2) (rmm_UID (demo_monitor [])) = Some [s]" by (simp add: c2_def u update_conv)
  have get: "api_Get echo_client (cn_api c2) (rmm_Namespace (demo_monitor [])) (rmm_Name (demo_monitor [])) = Some (cn_api c2)"
    using demo_handles_of [of "[counted_spec]" demo_options] by (simp add: c2_def echo_client_def demo_monitor_def)
  obtain c' where up: "updateCardinalityStatus echo_client demo_event_env (demo_monitor []) c2 = (c', False)"
  proof -
    obtain c1 where c1: "updateCardinalityStatus echo_client demo_event_env (demo_monitor []) c2
        = persistCardinalityStatus echo_client demo_event_env (demo_monitor []) (status_aggregation (demo_monitor []) [s] c2) c1"
      and api: "cn_api c1 = cn_api c2"
      using updateCardinalityStatus_eq [OF ss, of echo_client demo_event_env] by auto
    have "api_Get echo_client (cn_api c1) (rmm_Namespace (demo_monitor [])) (rmm_Name (demo_monitor [])) = Some (cn_api c2)"
      using get api by simp
    then show ?thesis using that c1
      by (simp add: persistCardinalityStatus_def) (simp add: echo_client_def)
  qed
  have echo: "fst (api_UpdateStatus echo_client a sent) = sent" for a sent by (simp add: echo_client_def)
  have held: "samples_held ?lib b [EvAdd demo_object] = 1" unfolding b_def by (rule counted_held)
  from status_counts_samples [OF h [folded u] demo_sorter get up, unfolded echo]
  obtain sent cs where "cn_api c' = sent" "st_Cardinality (rmm_Status sent) = Some cs"
      "cs_Total cs = 1" "map_of (cs_PerStore cs) (GetStoreIdentifier b) = Some 1"
    by (auto simp: held)
  with h up show ?thesis by blast
qed

end
