(* ===== verification/Spec2Isabelle.thy ===== *)
theory Spec2Isabelle
  imports Reflector Builder_Pool Label_Aliasing Deep_Copy Informer_Factory Clientset Cel_Flatten Cel_Program Startup
    Schedules Controller_History
begin

text \<open>
  Verification of resource-state-metrics.

  The program. A controller watches \<open>ResourceMetricsMonitor\<close> objects. Each monitor configures
  stores; a store names a resource of the cluster and metric families. For every monitor the
  configurer expands wildcards, drops duplicate stores and builds the rest; each store is fed by
  a reflector that lists and watches its resource, and for every object it caches one text per
  family, made by a resolver (unstructured paths, CEL or a Starlark script). A scrape of the main
  server writes the cached texts out. The number of samples is tracked per family, store,
  monitor and in all, checked against limits, and published in the status of the monitor and as
  telemetry.

  The theories, from the bottom up, with the sources under \<open>src/\<close> they model.

  \<^item> \<open>Go_Base\<close>: Go maps as association lists, \<open>int64\<close>, durations; \<open>Go_Text\<close>: bytes, UTF-8, decimal
    numbers; \<open>Go_Float\<close>: \<open>float64\<close> with its rounding; \<open>Go_Number\<close>: \<open>strconv.ParseFloat\<close> and \<open>%f\<close>;
    \<open>Go_Glob\<close>: \<open>filepath.Match\<close>; \<open>Go_Value\<close>: decoded JSON values; \<open>Go_Time\<close>: the calendar and
    \<open>time.Parse\<close> of RFC 3339. These model the part of the
    language and its standard library the code uses; \<open>Atoi_Itoa\<close>, the rounding lemmas of
    \<open>Go_Float\<close> and \<open>Match_glob\<close> of \<open>Go_Glob\<close> tie them to reference definitions.
  \<^item> \<open>Ledger\<close>: the locale of a total kept beside a map, with the laws of an insertion and a removal;
    interpreted for the trackers below.
  \<^item> \<open>API_Types\<close>: \<open>pkg/apis/.../types.go\<close>, with the conditions of the status.
  \<^item> \<open>Metric_Util\<close>: \<open>pkg/metricutil/metrics.go\<close>. \<open>Metric_Write\<close>: \<open>internal/metric.go\<close>, one sample
    line and its escaping, with a parser for the round trip.
  \<^item> \<open>Resolvers\<close>: \<open>pkg/resolver/unstructured.go\<close> and, with \<open>Cel_Program\<close>, \<open>cel.go\<close>; \<open>Cel_Flatten\<close>: what
    nested results come to under the random order of Go's maps; \<open>Starlark\<close>:
    \<open>pkg/resolver/starlark.go\<close>.
  \<^item> \<open>Label_Sets\<close> and \<open>Family\<close>: \<open>internal/family.go\<close>, the label and value sets of a metric, and the
    text and the sample count of a family for one object.
  \<^item> \<open>Builder_Pool\<close>: the builders the goroutines share in \<open>internal/family.go\<close>, on \<open>Interleaving\<close>.
  \<^item> \<open>Go_Slice\<close>: slices on a memory of arrays that goroutines share; \<open>Label_Aliasing\<close>: the label
    slices that the stores of one wildcard have in common.
  \<^item> \<open>Cardinality_Tracker\<close>: \<open>internal/cardinality.go\<close>; \<open>Global_Cardinality\<close>:
    \<open>internal/cardinality_manager.go\<close>.
  \<^item> \<open>Metric_Store\<close>: \<open>internal/store.go\<close> and the construction half of \<open>internal/builder.go\<close>;
    \<open>Reflector\<close>: its list-watch half. \<open>Store_History\<close>: what a store holds in terms of the objects
    it was given. \<open>Metric_Writer\<close>: \<open>internal/writer.go\<close>.
  \<^item> \<open>Discovery\<close>: \<open>internal/discovery.go\<close>; \<open>Configurer\<close>: \<open>internal/config.go\<close>.
  \<^item> \<open>Cardinality_Status\<close> and \<open>Events\<close>: \<open>internal/events.go\<close>, the aggregation and the conditions, and
    the handlers. \<open>Controller\<close>: \<open>internal/controller.go\<close> and the state machine of the whole
    controller; \<open>Controller_History\<close>: that machine with the events its stores were delivered.
    \<open>Own_Writes\<close>: what the controller writes to the API server and what comes back.
  \<^item> \<open>Server\<close>: \<open>internal/server.go\<close>, \<open>internal/probe.go\<close> and \<open>external/collector.go\<close>.
  \<^item> \<open>Options\<close>: \<open>pkg/options/options.go\<close>.
  \<^item> \<open>Deep_Copy\<close>: \<open>zz_generated.deepcopy.go\<close>, on a heap of arrays, maps and structs, with the locale
    \<open>deep_copy\<close> of what a copy promises; \<open>Informer_Factory\<close>: \<open>pkg/generated/informers\<close>, the factory as a
    state machine and its use by the controller; \<open>Clientset\<close>: the constructors of the clientset under
    \<open>pkg/generated/clientset\<close>, and \<open>register.go\<close>.
  \<^item> \<open>Startup\<close>: \<open>main.go\<close>, \<open>Run\<close> of \<open>internal/controller.go\<close>, \<open>pkg/signals\<close> and
    \<open>internal/version\<close>: the process from its flags to its exit code.
  \<^item> \<open>Interleaving\<close>: goroutines as sequences of atomic actions on a shared state. \<open>Concurrent\<close>: the
    workers and the status goroutines of \<open>internal/events.go\<close> as such sequences, on a state with a
    heap of stores; \<open>Uninterrupted\<close> and \<open>Schedules\<close>: how they compare with the steps of
    \<open>Controller\<close>, and what schedules can do.

  How states correspond. A struct is a record with a prefix for its fields (\<open>ct_\<close> the tracker,
  \<open>gcm_\<close> the manager, \<open>so_\<close> the store, \<open>fm_\<close> and \<open>fs_\<close> the family and its specification, \<open>cg_\<close> the
  configurer, \<open>cn_\<close> the controller); a method takes the record and returns it updated; an error
  or a panic is a value. Names are those of the source, with a prefix or suffix where they clash.
  A method that holds a mutex for its whole body is one step. Logging and tracing are left
  out.

  There are two machines of the running controller. The state machine of \<open>Controller\<close> takes a
  handler, a reflector event and a status goroutine as one step each, in any order, with any
  answers of the API server and the lister. \<open>Concurrent\<close> interleaves the same programs action by
  action, an action being one API call, one operation of the \<open>sync.Map\<close>, one method under a mutex
  or one telemetry access: a worker holds no lock while it runs, and two events of one monitor may
  be worked off by two workers at once. Every run of the first is one of the second
  (\<open>sequential_runs_are_schedules\<close>); the converse is false (\<open>late_status_counts_deleted\<close>). The
  five seconds for which a status goroutine polls its stores change no state, so they are left to
  the schedule, and nothing is claimed of how long a goroutine takes. In both machines an item of the queue may be taken twice, so a
  redelivered item is covered, a reflector's event is one step, and the rate limiter is not
  modelled. The clock is read once per handler. \<open>reflect.DeepEqual\<close> on specifications is equality of
  the records: a nil and an empty list are one list there.

  The machine of the process in \<open>Startup\<close> has the machine of \<open>Controller\<close> as a part: its main
  goroutine goes through the stages of \<open>main\<close> and \<open>Run\<close>, beside the workers, the two servers and the
  signal handler.

  What the lemmas show, from the inside out.
  \<^item> A sample line parses back to what was written, and every outcome of the writer is described
    (\<open>Metric_Write\<close>); label keys are valid (\<open>Metric_Util\<close>).
  \<^item> The text and the count of a family are those of a table of rows, in all resolver paths, and
    the sample writer with its mutable cursor is equal to the reference (\<open>Label_Sets\<close>, \<open>Family\<close>).
  \<^item> The incremental totals of the tracker and the manager refine sums over the objects, and with
    fewer than \<open>2 ^ 53\<close> samples the floating-point checks decide exactly (\<open>Cardinality_Tracker\<close>,
    \<open>Global_Cardinality\<close>); above it they do not, which is shown too.
  \<^item> A store keeps its texts and its tracker consistent through any events (\<open>store_inv\<close>), the
    tracker's numbers are the true numbers of samples of the objects it was given last
    (\<open>traced\<close>), and it holds the objects its selectors select (\<open>Metric_Store\<close>, \<open>Store_History\<close>,
    \<open>Reflector\<close>). Where families of one store share a name, only the last of them is counted.
  \<^item> A scrape is a prefix of the exposition of the stores (\<open>Metric_Writer\<close>, \<open>Server\<close>).
  \<^item> Wildcards expand to exactly the listed resources they match, and a monitor has one store per
    key (\<open>Discovery\<close>, \<open>Configurer\<close>).
  \<^item> In every reachable state of the controller the invariants of stores and manager hold, the
    published total is the number of samples of the objects delivered, and the controller does
    not react to its own writes (\<open>Controller\<close>, \<open>Controller_History\<close>, \<open>Own_Writes\<close>).
  \<^item> Under every interleaving the stores and the manager stay consistent
    (\<open>Schedules\<close>), pooling the builders changes no text (\<open>Builder_Pool\<close>), and the labels that
    reflectors append to shared arrays are the right ones (\<open>Label_Aliasing\<close>); the flags that cut
    families off can disagree with the trackers for a while.
  \<^item> The labels of a CEL map do not depend on the order of the walk if its leaves have different
    keys (\<open>Cel_Flatten\<close>).
  \<^item> Workers run only behind synced caches and registered metrics, with label tuples that fit; the
    shutdown ends, with the exit code of its reason (\<open>Startup\<close>).
  \<^item> A deep copy is equal to the original and shares nothing with it (\<open>Deep_Copy\<close>), so that it is the
    identity on values, as which the other theories take it. The controller has one informer, which is started once
    (\<open>Informer_Factory\<close>).
  \<^item> Some theorems state behaviour that the code may not mean: a sticky store cutoff, labels of a
    store that accumulate, a relist that keeps missing objects, deleted monitors that are not
    cleaned up or count again after a late status, limits that are only reported, families of one
    name that are counted once, failing expressions that are themselves a number and are written,
    servers that are not drained, and flags from the environment that are not validated.

  Bounds and fuel. Counts are 64-bit words with wrap-around, with a theorem for the range in which
  they are exact. \<open>float64\<close> is modelled without a sign of NaN and without signalling; the rounding
  is to nearest even over the whole range. No definition uses fuel: the loops over strings and
  patterns end by a measure, everything else is structural.

  Parameters, with what is assumed of them where it is: the stages of the CEL library, the Starlark
  interpreter, apimachinery's \<open>NestedFieldNoCopy\<close>, \<open>strcase.ToSnake\<close>, the sorting of indices
  (locale \<open>index_sorter\<close>: a permutation, sorted; interpreted by insertion), the discovery lists,
  the clientset (\<open>api_contract\<close> in one theorem), the lister and the key functions of client-go, the
  dynamic client (\<open>lists_selected\<close> in one theorem), \<open>io.Writer\<close> (\<open>io_contract\<close>, and errors that
  stay for a connection, \<open>sticky_errors\<close>), content negotiation and the closing line of
  OpenMetrics (\<open>finalize_contract\<close>), the \<open>flag\<close> package and the environment, external collectors, the room
  that \<open>append\<close> leaves in a new array, the constructors of REST and discovery clients, the copies of
  apimachinery's own types (\<open>copy_laws\<close>).

  Not modelled. The typed clients, listers and fakes under \<open>pkg/generated\<close> hand their calls on to
  client-go and apimachinery, as informers do with what happens inside them. The
  telemetry and pprof handlers are library code, of which only the routes are modelled, and of
  the constructors of the other clients only the failure. The broadcaster of the event
  recorder, the memory limit, the loop of the reflector and logging have no state of the program.
\<close>

end
